(* ===== verification/Prelude.thy ===== *)
theory Prelude
  imports Main "HOL-Library.Word" "HOL-Library.Monad_Syntax"
begin

text \<open>
  Shared vocabulary of the development: the machine integers of the Go sources, the
  run-time panic monad, checked slice and index expressions, the big-endian accessors of
  package \<^verbatim>\<open>encoding/binary\<close>, and the value types of package
  \<^verbatim>\<open>time\<close> that the components share, with their lemmas.

  A Go expression that can panic (an index or slice expression out of range) is a term of
  type \<open>'a go\<close>; \<open>None\<close> is the panic. A function that returns \<^verbatim>\<open>(T, error)\<close>
  is a term of type \<open>'e + 'a\<close>, the error on the left.
\<close>

unbundle bit_operations_syntax

named_theorems go_defs \<open>definitions of the Go run-time operations\<close>
named_theorems frame_simps \<open>rewriting rules for byte frames\<close>

section \<open>Machine integers, panics and results\<close>

type_synonym u8 = "8 word"
type_synonym u16 = "16 word"
type_synonym u32 = "32 word"
type_synonym u64 = "64 word"
type_synonym bytes = "u8 list"
type_synonym 'a go = "'a option"

lemma unat_u8: "unat (a :: u8) < 256"
  using unsigned_less [of a] by simp

lemma unat_u16: "unat (a :: u16) < 65536"
  using unsigned_less [of a] by simp

lemma unat_u32: "unat (a :: u32) < 4294967296"
  using unsigned_less [of a] by simp

text \<open>\<^verbatim>\<open>xs[i]\<close>, \<^verbatim>\<open>xs[i:j]\<close> and \<^verbatim>\<open>xs[i:]\<close>.\<close>

definition idx :: "'a list \<Rightarrow> nat \<Rightarrow> 'a go" where
  "idx xs i = (if i < length xs then Some (xs ! i) else None)"

definition slice :: "'a list \<Rightarrow> nat \<Rightarrow> nat \<Rightarrow> 'a list go" where
  "slice xs i j = (if i \<le> j \<and> j \<le> length xs then Some (take (j - i) (drop i xs)) else None)"

definition slice_from :: "'a list \<Rightarrow> nat \<Rightarrow> 'a list go" where
  "slice_from xs i = slice xs i (length xs)"

text \<open>\<^verbatim>\<open>xs[i] = v\<close> and \<^verbatim>\<open>copy(xs[i:j], src)\<close> (which copies the shorter length).\<close>

definition store :: "'a list \<Rightarrow> nat \<Rightarrow> 'a \<Rightarrow> 'a list go" where
  "store xs i v = (if i < length xs then Some (xs[i := v]) else None)"

definition overwrite :: "'a list \<Rightarrow> nat \<Rightarrow> 'a list \<Rightarrow> 'a list" where
  "overwrite xs i ys = take (length xs) (take i xs @ ys @ drop (i + length ys) xs)"

definition copy_into :: "'a list \<Rightarrow> nat \<Rightarrow> nat \<Rightarrow> 'a list \<Rightarrow> 'a list go" where
  "copy_into xs i j src =
     (if i \<le> j \<and> j \<le> length xs then Some (overwrite xs i (take (j - i) src)) else None)"

lemmas [go_defs] = idx_def slice_def slice_from_def store_def copy_into_def

text \<open>Evaluate a block in order: the continuation waits for the value before it.\<close>

lemma go_bind_cong: "x = y \<Longrightarrow> x \<bind> f = y \<bind> (f :: 'a \<Rightarrow> 'b go)"
  by simp

section \<open>Package encoding/binary, big endian\<close>

definition be16 :: "u8 \<Rightarrow> u8 \<Rightarrow> u16" where
  "be16 hi lo = push_bit 8 (ucast hi) OR ucast lo"

definition be32 :: "u8 \<Rightarrow> u8 \<Rightarrow> u8 \<Rightarrow> u8 \<Rightarrow> u32" where
  "be32 a b c d =
     push_bit 24 (ucast a) OR push_bit 16 (ucast b) OR push_bit 8 (ucast c) OR ucast d"

definition get_u16 :: "bytes \<Rightarrow> u16 go" where
  "get_u16 b = (case b of hi # lo # _ \<Rightarrow> Some (be16 hi lo) | _ \<Rightarrow> None)"

definition get_u32 :: "bytes \<Rightarrow> u32 go" where
  "get_u32 bs = (case bs of a # b # c # d # _ \<Rightarrow> Some (be32 a b c d) | _ \<Rightarrow> None)"

definition put16 :: "u16 \<Rightarrow> bytes" where
  "put16 w = [ucast (drop_bit 8 w), ucast w]"

definition put32 :: "u32 \<Rightarrow> bytes" where
  "put32 w = [ucast (drop_bit 24 w), ucast (drop_bit 16 w), ucast (drop_bit 8 w), ucast w]"

lemma length_put16 [simp]: "length (put16 w) = 2"
  by (simp add: put16_def)

lemma length_put32 [simp]: "length (put32 w) = 4"
  by (simp add: put32_def)

lemma be16_put16 [simp]: "be16 (ucast (drop_bit 8 w)) (ucast w) = w"
  unfolding be16_def
  by (rule bit_word_eqI) (auto simp: bit_simps)

lemma be32_put32 [simp]:
  "be32 (ucast (drop_bit 24 w)) (ucast (drop_bit 16 w)) (ucast (drop_bit 8 w)) (ucast w) = w"
proof (rule bit_word_eqI)
  fix n
  assume "n < LENGTH(32)"
  then consider "n < 8" | "8 \<le> n" "n < 16" | "16 \<le> n" "n < 24" | "24 \<le> n" "n < 32"
    by fastforce
  then show "bit (be32 (ucast (drop_bit 24 w)) (ucast (drop_bit 16 w))
      (ucast (drop_bit 8 w)) (ucast w)) n = bit w n"
    unfolding be32_def by cases (auto simp: bit_simps)
qed

lemma get_u16_put16 [simp]: "get_u16 (put16 w @ xs) = Some w"
  by (simp add: get_u16_def put16_def)

lemma get_u32_put32 [simp]: "get_u32 (put32 w @ xs) = Some w"
  by (simp add: get_u32_def put32_def)

text \<open>\<^verbatim>\<open>binary.BigEndian.Uint16(xs[i:j])\<close> and \<^verbatim>\<open>PutUint16(xs[i:j], w)\<close>.\<close>

definition u16_at :: "bytes \<Rightarrow> nat \<Rightarrow> nat \<Rightarrow> u16 go" where
  "u16_at xs i j = slice xs i j \<bind> get_u16"

definition put_u16_at :: "bytes \<Rightarrow> nat \<Rightarrow> nat \<Rightarrow> u16 \<Rightarrow> bytes go" where
  "put_u16_at xs i j w =
     (if i \<le> j \<and> j \<le> length xs \<and> 2 \<le> j - i then Some (overwrite xs i (put16 w)) else None)"

lemma idx_Some [simp]: "i < length xs \<Longrightarrow> idx xs i = Some (xs ! i)"
  by (simp add: idx_def)

lemma slice_Some [simp]:
  "i \<le> j \<Longrightarrow> j \<le> length xs \<Longrightarrow> slice xs i j = Some (take (j - i) (drop i xs))"
  by (simp add: slice_def)

lemma store_Some [simp]: "i < length xs \<Longrightarrow> store xs i v = Some (xs[i := v])"
  by (simp add: store_def)

lemma copy_into_Some [simp]:
  "i \<le> j \<Longrightarrow> j \<le> length xs \<Longrightarrow> copy_into xs i j src = Some (overwrite xs i (take (j - i) src))"
  by (simp add: copy_into_def)

lemma put_u16_at_Some [simp]:
  "i + 2 \<le> j \<Longrightarrow> j \<le> length xs \<Longrightarrow> put_u16_at xs i j w = Some (overwrite xs i (put16 w))"
  by (simp add: put_u16_at_def)

lemma take_drop_cons2:
  "i + 2 \<le> j \<Longrightarrow> j \<le> length xs \<Longrightarrow>
   take (j - i) (drop i xs) = xs ! i # xs ! Suc i # take (j - i - 2) (drop (i + 2) xs)"
  by (simp add: Cons_nth_drop_Suc [symmetric] take_Cons' numeral_2_eq_2)

lemma u16_at_Some [simp]:
  assumes "i + 2 \<le> j" "j \<le> length xs"
  shows "u16_at xs i j = Some (be16 (xs ! i) (xs ! Suc i))"
  using assms by (simp add: u16_at_def get_u16_def take_drop_cons2)

section \<open>Overwriting part of a slice\<close>

lemma length_overwrite [simp]: "length (overwrite xs i ys) = length xs"
  by (simp add: overwrite_def min_def)

lemma nth_overwrite:
  assumes "k < length xs"
  shows "overwrite xs i ys ! k =
    (if k < i then xs ! k else if k < i + length ys then ys ! (k - i) else xs ! k)"
  using assms by (auto simp: overwrite_def nth_append min_def)

lemma overwrite_fits:
  "i + length ys \<le> length xs \<Longrightarrow> overwrite xs i ys = take i xs @ ys @ drop (i + length ys) xs"
  by (simp add: overwrite_def)

lemma drop_overwrite_at: "i + length ys = length xs \<Longrightarrow> drop i (overwrite xs i ys) = ys"
  by (simp add: overwrite_fits)

section \<open>Package time\<close>

text \<open>Instants and durations in nanoseconds.\<close>

type_synonym time = int
type_synonym duration = int

definition millisecond :: duration where "millisecond = 1000000"
definition second :: duration where "second = 1000000000"
definition minute :: duration where "minute = 60 * second"

end
