(* ===== verification/Packet.thy ===== *)
theory Packet
  imports Prelude
begin

text \<open>
  Ethernet and IPv4 frames: \<^verbatim>\<open>src/net/firewall/packet.go\<close> (the header parser of
  the firewall) and \<^verbatim>\<open>src/net/egress/frame.go\<close> (UDP payload extraction, the
  response frame and the IPv4 checksum). Index and slice expressions are checked, so that a
  malformed frame which made the Go code panic would be \<open>None\<close> here.
\<close>

section \<open>The firewall's header parser\<close>

type_synonym ip4 = "u8 \<times> u8 \<times> u8 \<times> u8"

definition ethHeaderLen :: nat where "ethHeaderLen = 14"
definition ipv4MinLen :: nat where "ipv4MinLen = 20"
definition udpHeaderLen :: nat where "udpHeaderLen = 8"
definition etherTypeIPv4 :: u16 where "etherTypeIPv4 = 0x0800"

lemmas frame_consts [simp] = ethHeaderLen_def ipv4MinLen_def udpHeaderLen_def etherTypeIPv4_def

record PacketHeader =
  SrcIP :: ip4
  DstIP :: ip4
  Protocol :: u8
  SrcPort :: u16
  DstPort :: u16

text \<open>\<^verbatim>\<open>copy(arr[:], src)\<close> into a zeroed \<^verbatim>\<open>[4]byte\<close>.\<close>

definition byte_or_zero :: "bytes \<Rightarrow> nat \<Rightarrow> u8" where
  "byte_or_zero xs i = (if i < length xs then xs ! i else 0)"

definition ip4_of :: "bytes \<Rightarrow> ip4" where
  "ip4_of xs = (byte_or_zero xs 0, byte_or_zero xs 1, byte_or_zero xs 2, byte_or_zero xs 3)"

fun ip4_bytes :: "ip4 \<Rightarrow> bytes" where
  "ip4_bytes (a, b, c, d) = [a, b, c, d]"

definition reverse_hdr :: "PacketHeader \<Rightarrow> PacketHeader" where
  "reverse_hdr h =
     h\<lparr>SrcIP := DstIP h, DstIP := SrcIP h, SrcPort := DstPort h, DstPort := SrcPort h\<rparr>"

definition ihl_of :: "u8 \<Rightarrow> nat" where
  "ihl_of b = unat (b AND 0x0F) * 4"

definition ParseHeaders :: "bytes \<Rightarrow> PacketHeader option go" where
  "ParseHeaders frame =
     (if length frame < ethHeaderLen then Some None
      else do {
        etherType \<leftarrow> u16_at frame 12 14;
        if etherType \<noteq> etherTypeIPv4 then Some None
        else let ipStart = ethHeaderLen in
          if length frame < ipStart + ipv4MinLen then Some None
          else do {
            b0 \<leftarrow> idx frame ipStart;
            let ihl = ihl_of b0;
            if ihl < ipv4MinLen then Some None
            else if length frame < ipStart + ihl then Some None
            else do {
              proto \<leftarrow> idx frame (ipStart + 9);
              src \<leftarrow> slice frame (ipStart + 12) (ipStart + 16);
              dst \<leftarrow> slice frame (ipStart + 16) (ipStart + 20);
              let hdr = \<lparr>SrcIP = ip4_of src, DstIP = ip4_of dst, Protocol = proto,
                         SrcPort = 0, DstPort = 0\<rparr>;
              let transportStart = ipStart + ihl;
              if (proto = 6 \<or> proto = 17) \<and> length frame \<ge> transportStart + 4
              then do {
                sp \<leftarrow> u16_at frame transportStart (transportStart + 2);
                dp \<leftarrow> u16_at frame (transportStart + 2) (transportStart + 4);
                Some (Some (hdr\<lparr>SrcPort := sp, DstPort := dp\<rparr>))
              }
              else Some (Some hdr)
            }
          }
      })"

section \<open>DNS frame helpers of package egress\<close>

definition IsDNSQuery :: "PacketHeader option \<Rightarrow> bool" where
  "IsDNSQuery hdr = (case hdr of None \<Rightarrow> False | Some h \<Rightarrow> Protocol h = 17 \<and> DstPort h = 53)"

definition IsDNSResponse :: "PacketHeader option \<Rightarrow> bool" where
  "IsDNSResponse hdr = (case hdr of None \<Rightarrow> False | Some h \<Rightarrow> Protocol h = 17 \<and> SrcPort h = 53)"

datatype frame_error =
    FrameTooShort nat
  | NotIPv4 u16
  | InvalidIHL nat
  | TooShortForUDP nat nat

definition ExtractUDPPayload :: "bytes \<Rightarrow> (frame_error + bytes) go" where
  "ExtractUDPPayload frame =
     (if length frame < ethHeaderLen + ipv4MinLen then Some (Inl (FrameTooShort (length frame)))
      else do {
        etherType \<leftarrow> u16_at frame 12 14;
        if etherType \<noteq> etherTypeIPv4 then Some (Inl (NotIPv4 etherType))
        else do {
          let ipStart = ethHeaderLen;
          b0 \<leftarrow> idx frame ipStart;
          let ihl = ihl_of b0;
          if ihl < ipv4MinLen then Some (Inl (InvalidIHL (ihl div 4)))
          else do {
            let udpStart = ipStart + ihl;
            if length frame < udpStart + udpHeaderLen
            then Some (Inl (TooShortForUDP (udpStart + udpHeaderLen) (length frame)))
            else do {
              payload \<leftarrow> slice_from frame (udpStart + udpHeaderLen);
              Some (Inr payload)
            }
          }
        }
      })"

text \<open>
  The IPv4 header checksum: the sum of the big-endian 16-bit words in a
  \<^verbatim>\<open>uint32\<close>, an odd trailing byte as a high byte, then carries folded until the
  sum fits 16 bits.
\<close>

fun sum_words :: "bytes \<Rightarrow> u32 \<Rightarrow> u32" where
  "sum_words (a # b # rest) acc = sum_words rest (acc + ucast (be16 a b))"
| "sum_words [a] acc = acc + push_bit 8 (ucast a)"
| "sum_words [] acc = acc"

lemma fold_carry_decreases:
  "acc > 0xFFFF \<Longrightarrow> drop_bit 16 acc + (acc AND 0xFFFF) < (acc :: u32)"
proof -
  assume *: "acc > 0xFFFF"
  have "acc AND 0xFFFF = take_bit 16 acc"
    by (simp add: take_bit_eq_mask mask_eq_exp_minus_1)
  then have m: "unat (acc AND 0xFFFF) = unat acc mod 65536"
    by (simp only: unsigned_take_bit_eq) (simp add: take_bit_eq_mod)
  have d: "unat (drop_bit 16 acc) = unat acc div 65536"
    by (simp add: drop_bit_eq_div unat_div)
  have b: "unat acc < 2 ^ 32" using unat_u32 [of acc] by simp
  have g: "unat acc > 65535" using * by (simp add: word_less_nat_alt)
  have lt: "unat acc div 65536 + unat acc mod 65536 < unat acc"
    using g div_mult_mod_eq [of "unat acc" 65536] by linarith
  have "unat (drop_bit 16 acc + (acc AND 0xFFFF)) = unat acc div 65536 + unat acc mod 65536"
    using lt b by (simp add: unat_word_ariths m d)
  with lt show ?thesis by (simp add: word_less_nat_alt)
qed

function fold_carries :: "u32 \<Rightarrow> u32" where
  "fold_carries acc =
     (if acc > 0xFFFF then fold_carries (drop_bit 16 acc + (acc AND 0xFFFF)) else acc)"
  by pat_completeness auto
termination
  by (relation "measure unat") (simp_all add: fold_carry_decreases unat_mono)

declare fold_carries.simps [simp del]

definition ipChecksum :: "bytes \<Rightarrow> u16" where
  "ipChecksum hdr = NOT (ucast (fold_carries (sum_words hdr 0)))"

definition BuildResponseFrame :: "bytes \<Rightarrow> bytes \<Rightarrow> (frame_error + bytes) go" where
  "BuildResponseFrame queryFrame dnsResponse =
     (if length queryFrame < ethHeaderLen + ipv4MinLen + udpHeaderLen
      then Some (Inl (FrameTooShort (length queryFrame)))
      else do {
        let ipStart = ethHeaderLen;
        b0 \<leftarrow> idx queryFrame ipStart;
        let ihl = ihl_of b0;
        if ihl < ipv4MinLen then Some (Inl (InvalidIHL (ihl div 4)))
        else do {
          let udpStart = ipStart + ihl;
          let headerLen = udpStart + udpHeaderLen;
          if length queryFrame < headerLen
          then Some (Inl (TooShortForUDP headerLen (length queryFrame)))
          else do {
            let resp = replicate (headerLen + length dnsResponse) 0;
            hdrs \<leftarrow> slice queryFrame 0 headerLen;
            resp \<leftarrow> copy_into resp 0 (length resp) hdrs;
            smac \<leftarrow> slice queryFrame 6 12;
            resp \<leftarrow> copy_into resp 0 6 smac;
            dmac \<leftarrow> slice queryFrame 0 6;
            resp \<leftarrow> copy_into resp 6 12 dmac;
            dip \<leftarrow> slice queryFrame (ipStart + 16) (ipStart + 20);
            resp \<leftarrow> copy_into resp (ipStart + 12) (ipStart + 16) dip;
            sip \<leftarrow> slice queryFrame (ipStart + 12) (ipStart + 16);
            resp \<leftarrow> copy_into resp (ipStart + 16) (ipStart + 20) sip;
            dport \<leftarrow> slice queryFrame (udpStart + 2) (udpStart + 4);
            resp \<leftarrow> copy_into resp udpStart (udpStart + 2) dport;
            sport \<leftarrow> slice queryFrame udpStart (udpStart + 2);
            resp \<leftarrow> copy_into resp (udpStart + 2) (udpStart + 4) sport;
            resp \<leftarrow> copy_into resp headerLen (length resp) dnsResponse;
            let ipTotalLen = of_nat (ihl + udpHeaderLen + length dnsResponse);
            resp \<leftarrow> put_u16_at resp (ipStart + 2) (ipStart + 4) ipTotalLen;
            resp \<leftarrow> store resp (ipStart + 10) 0;
            resp \<leftarrow> store resp (ipStart + 11) 0;
            iph \<leftarrow> slice resp ipStart (ipStart + ihl);
            resp \<leftarrow> put_u16_at resp (ipStart + 10) (ipStart + 12) (ipChecksum iph);
            let udpLen = of_nat (udpHeaderLen + length dnsResponse);
            resp \<leftarrow> put_u16_at resp (udpStart + 4) (udpStart + 6) udpLen;
            resp \<leftarrow> store resp (udpStart + 6) 0;
            resp \<leftarrow> store resp (udpStart + 7) 0;
            Some (Inr resp)
          }
        }
      })"


section \<open>Lemmas: the parser never panics, and its closed form\<close>

definition transport_at :: "bytes \<Rightarrow> nat \<Rightarrow> u16 \<times> u16" where
  "transport_at f t = (be16 (f ! t) (f ! (t + 1)), be16 (f ! (t + 2)) (f ! (t + 3)))"

definition is_ipv4_frame :: "bytes \<Rightarrow> bool" where
  "is_ipv4_frame f \<longleftrightarrow> 34 \<le> length f \<and> be16 (f ! 12) (f ! 13) = 0x0800 \<and>
     20 \<le> ihl_of (f ! 14) \<and> 14 + ihl_of (f ! 14) \<le> length f"

definition header_of :: "bytes \<Rightarrow> PacketHeader" where
  "header_of f =
     (let t = 14 + ihl_of (f ! 14);
          ports = (if (f ! 23 = 6 \<or> f ! 23 = 17) \<and> t + 4 \<le> length f
                   then transport_at f t else (0, 0))
      in \<lparr>SrcIP = (f ! 26, f ! 27, f ! 28, f ! 29), DstIP = (f ! 30, f ! 31, f ! 32, f ! 33),
          Protocol = f ! 23, SrcPort = fst ports, DstPort = snd ports\<rparr>)"

lemma ip4_of_slice:
  "i + 4 \<le> length xs \<Longrightarrow>
   ip4_of (take 4 (drop i xs)) = (xs ! i, xs ! (i + 1), xs ! (i + 2), xs ! (i + 3))"
  by (simp add: ip4_of_def byte_or_zero_def)

lemma ihl_of_le: "ihl_of b \<le> 60"
proof -
  have "b AND 0x0F \<le> (0x0F :: u8)" by (rule word_and_le1)
  then have "unat (b AND 0x0F) \<le> 15" by (simp add: word_le_nat_alt)
  then show ?thesis by (simp add: ihl_of_def)
qed

lemma ParseHeaders_eq:
  "ParseHeaders f = Some (if is_ipv4_frame f then Some (header_of f) else None)"
  by (auto simp: ParseHeaders_def is_ipv4_frame_def header_of_def transport_at_def Let_def
      ip4_of_slice numeral_eq_Suc [of "Num.One"] split: if_splits)

lemma ihl_word_aligned: "4 dvd ihl_of b"
  by (simp add: ihl_of_def)

lemma ExtractUDPPayload_eq:
  "ExtractUDPPayload f = Some
     (if length f < 34 then Inl (FrameTooShort (length f))
      else if be16 (f ! 12) (f ! 13) \<noteq> 0x0800 then Inl (NotIPv4 (be16 (f ! 12) (f ! 13)))
      else let ihl = ihl_of (f ! 14) in
        if ihl < 20 then Inl (InvalidIHL (ihl div 4))
        else if length f < ihl + 22 then Inl (TooShortForUDP (ihl + 22) (length f))
        else Inr (drop (ihl + 22) f))"
  by (auto simp: ExtractUDPPayload_def Let_def slice_from_def add.commute)


section \<open>Lemmas: the checksum\<close>

fun wsum :: "bytes \<Rightarrow> nat" where
  "wsum (a # b # rest) = unat (be16 a b) + wsum rest"
| "wsum [a] = unat a * 256"
| "wsum [] = 0"

lemma unat_ucast_u16_u32 [simp]: "unat (ucast (w :: u16) :: u32) = unat w"
  using unat_u16 [of w] by (simp add: unsigned_ucast_eq take_bit_eq_mod)

lemma unat_high_byte: "unat (push_bit 8 (ucast (a :: u8)) :: u32) = unat a * 256"
proof -
  have b: "unat a < 256" using unat_u8 [of a] by simp
  then have "unat (ucast a :: u32) = unat a" by (simp add: unsigned_ucast_eq take_bit_eq_mod)
  with b show ?thesis
    by (simp add: push_bit_eq_mult unat_word_ariths)
qed

lemma unat_sum_words: "unat (sum_words xs acc) = (unat acc + wsum xs) mod 2 ^ 32"
proof (induction xs acc rule: sum_words.induct)
  case (3 acc)
  then show ?case using unat_u32 [of acc] by simp
qed (simp_all add: unat_word_ariths unat_high_byte mod_simps add.assoc)

lemma wsum_bound: "wsum xs \<le> 65535 * ((length xs + 1) div 2)"
proof (induction xs rule: wsum.induct)
  case (1 a b rest)
  have "unat (be16 a b) < 65536" using unat_u16 [of "be16 a b"] by simp
  with 1 show ?case by simp
next
  case (2 a)
  have "unat a < 256" using unat_u8 [of a] by simp
  then show ?case by simp
qed simp

lemma wsum_append: "even (length xs) \<Longrightarrow> wsum (xs @ ys) = wsum xs + wsum ys"
  by (induction xs rule: wsum.induct) auto

lemma unat_fold_step:
  "unat (drop_bit 16 acc + (acc AND 0xFFFF) :: u32) = unat acc div 65536 + unat acc mod 65536"
proof -
  have "acc AND 0xFFFF = take_bit 16 acc"
    by (simp add: take_bit_eq_mask mask_eq_exp_minus_1)
  then have m: "unat (acc AND 0xFFFF) = unat acc mod 65536"
    by (simp only: unsigned_take_bit_eq) (simp add: take_bit_eq_mod)
  have d: "unat (drop_bit 16 acc) = unat acc div 65536"
    by (simp add: drop_bit_eq_div unat_div)
  have "unat acc < 65536 * 65536" using unat_u32 [of acc] by simp
  then have "unat acc div 65536 < 65536" by (rule less_mult_imp_div_less)
  then show ?thesis by (simp add: unat_word_ariths m d)
qed

lemma mod_65535_split: "(n div 65536 + n mod 65536) mod 65535 = n mod (65535 :: nat)"
proof -
  have "n = n div 65536 * 65535 + (n div 65536 + n mod 65536)"
    using div_mult_mod_eq [of n 65536] by linarith
  then show ?thesis by (metis mod_mult_self3)
qed

lemma fold_carries_props:
  "unat (fold_carries acc) \<le> 65535 \<and>
   unat (fold_carries acc) mod 65535 = unat acc mod 65535 \<and>
   (fold_carries acc = 0 \<longleftrightarrow> acc = 0)"
proof (induction acc rule: fold_carries.induct)
  case (1 acc)
  show ?case
  proof (cases "acc > 0xFFFF")
    case True
    let ?n = "drop_bit 16 acc + (acc AND 0xFFFF)"
    have pos: "unat acc > 65535" using True by (simp add: word_less_nat_alt)
    have "unat acc div 65536 + unat acc mod 65536 \<noteq> 0"
      using pos div_mult_mod_eq [of "unat acc" 65536] by auto
    then have "unat ?n \<noteq> 0" by (simp add: unat_fold_step)
    then have "?n \<noteq> 0" by auto
    moreover have "acc \<noteq> 0" using True by auto
    ultimately show ?thesis
      using "1.IH" [OF True] True
      by (simp add: fold_carries.simps [of acc] unat_fold_step mod_65535_split)
  next
    case False
    then have "unat acc \<le> 65535" by (simp add: word_le_nat_alt not_less)
    with False show ?thesis by (simp add: fold_carries.simps [of acc])
  qed
qed

lemma unat_ucast_fold [simp]: "unat (ucast (fold_carries acc) :: u16) = unat (fold_carries acc)"
  using fold_carries_props [of acc] by (simp add: unsigned_ucast_eq take_bit_eq_mod)

lemma unat_not_u16: "unat (NOT (w :: u16)) = 65535 - unat w"
proof -
  have "NOT w = - 1 - w" by (simp add: not_eq_complement)
  moreover have "w \<le> - 1" by simp
  moreover have "unat (- 1 :: u16) = 65535"
    by (simp add: unsigned_minus_1_eq_mask mask_eq_exp_minus_1)
  ultimately show ?thesis by (simp add: unat_sub)
qed

lemma fold_sum_small:
  assumes "length xs < 131000"
  shows "unat (sum_words xs 0) = wsum xs"
proof -
  have "wsum xs \<le> 65535 * ((length xs + 1) div 2)" by (rule wsum_bound)
  also have "\<dots> \<le> 65535 * 65500" using assms by simp
  finally show ?thesis by (simp add: unat_sum_words)
qed

lemma ipChecksum_verifies:
  assumes len: "length hdr < 131000" and i: "even i" "i + 2 \<le> length hdr"
    and zero: "hdr ! i = 0" "hdr ! (i + 1) = 0"
  shows "ipChecksum (overwrite hdr i (put16 (ipChecksum hdr))) = 0"
proof -
  let ?c = "ipChecksum hdr" and ?h = "overwrite hdr i (put16 (ipChecksum hdr))"
  let ?S = "fold_carries (sum_words hdr 0)" and ?T = "fold_carries (sum_words ?h 0)"
  have "drop i hdr = [0, 0] @ drop (i + 2) hdr"
    using i zero by (simp add: Cons_nth_drop_Suc [symmetric] numeral_2_eq_2)
  then have hdr: "hdr = take i hdr @ [0, 0] @ drop (i + 2) hdr"
    by (metis append_take_drop_id)
  have z: "unat (be16 0 0) = 0" by (simp add: be16_def)
  have "wsum hdr = wsum (take i hdr) + wsum (drop (i + 2) hdr)"
    using i by (subst hdr) (simp add: wsum_append z)
  moreover have "wsum ?h = wsum (take i hdr) + (unat ?c + wsum (drop (i + 2) hdr))"
    using i by (simp add: overwrite_fits wsum_append put16_def)
  ultimately have w: "wsum ?h = wsum hdr + unat ?c" by simp
  have lh: "length ?h < 131000" using len i by simp
  have c: "unat ?c = 65535 - unat ?S"
    by (simp add: ipChecksum_def unat_not_u16)
  have S: "unat ?S \<le> 65535" "unat ?S mod 65535 = wsum hdr mod 65535" "?S = 0 \<longleftrightarrow> wsum hdr = 0"
    using fold_carries_props [of "sum_words hdr 0"] fold_sum_small [OF len]
    by (auto simp: unat_eq_zero [symmetric])
  have T: "unat ?T \<le> 65535" "unat ?T mod 65535 = wsum ?h mod 65535" "?T = 0 \<longleftrightarrow> wsum ?h = 0"
    using fold_carries_props [of "sum_words ?h 0"] fold_sum_small [OF lh]
    by (auto simp: unat_eq_zero [symmetric])
  have "wsum ?h mod 65535 = (wsum hdr mod 65535 + (65535 - unat ?S)) mod 65535"
    by (simp add: w c mod_simps)
  also have "\<dots> = (unat ?S mod 65535 + (65535 - unat ?S)) mod 65535" by (simp add: S(2))
  also have "\<dots> = (unat ?S + (65535 - unat ?S)) mod 65535" by (simp add: mod_simps)
  also have "\<dots> = 0" using S(1) by simp
  finally have m: "wsum ?h mod 65535 = 0" .
  have "wsum ?h > 0"
  proof (cases "wsum hdr = 0")
    case True
    then have "unat ?S = 0" using S(3) by simp
    then show ?thesis using w c by simp
  qed (simp add: w)
  then have "0 < unat ?T" using T(3) by (simp add: unat_gt_0)
  moreover have "65535 dvd unat ?T" using T(2) m by (simp add: mod_eq_0_iff_dvd)
  ultimately have "unat ?T = 65535" using T(1) by (auto dest: dvd_imp_le)
  then have "unat (ipChecksum ?h) = 0"
    by (simp add: ipChecksum_def unat_not_u16)
  then show ?thesis by (simp add: unat_eq_zero)
qed


section \<open>Lemmas: the response frame\<close>

text \<open>
  The bytes \<open>BuildResponseFrame\<close> produces on a query it accepts, as one chain of
  overwrites: the stage before the checksum, then the whole frame.
\<close>

definition response_stage :: "bytes \<Rightarrow> bytes \<Rightarrow> bytes" where
  "response_stage q d =
     (let u = 14 + ihl_of (q ! 14);
          r = overwrite (replicate (u + 8 + length d) 0) 0 (take (u + 8) q);
          r = overwrite r 0 (take 6 (drop 6 q));
          r = overwrite r 6 (take 6 (drop 0 q));
          r = overwrite r 26 (take 4 (drop 30 q));
          r = overwrite r 30 (take 4 (drop 26 q));
          r = overwrite r u (take 2 (drop (u + 2) q));
          r = overwrite r (u + 2) (take 2 (drop u q));
          r = overwrite r (u + 8) d;
          r = overwrite r 16 (put16 (of_nat (ihl_of (q ! 14) + 8 + length d)))
      in r[24 := 0, 25 := 0])"

definition response_frame :: "bytes \<Rightarrow> bytes \<Rightarrow> bytes" where
  "response_frame q d =
     (let u = 14 + ihl_of (q ! 14);
          r = response_stage q d;
          r = overwrite r 24 (put16 (ipChecksum (take (ihl_of (q ! 14)) (drop 14 r))));
          r = overwrite r (u + 4) (put16 (of_nat (8 + length d)))
      in r[u + 6 := 0, u + 7 := 0])"

definition udp_query_frame :: "bytes \<Rightarrow> bool" where
  "udp_query_frame q \<longleftrightarrow> 42 \<le> length q \<and> 20 \<le> ihl_of (q ! 14) \<and> ihl_of (q ! 14) + 22 \<le> length q"

lemma length_response_stage:
  assumes "udp_query_frame q"
  shows "length (response_stage q d) = ihl_of (q ! 14) + 22 + length d"
proof -
  show ?thesis by (simp add: response_stage_def Let_def)
qed

lemma BuildResponseFrame_ok:
  assumes "udp_query_frame q"
  shows "BuildResponseFrame q d = Some (Inr (response_frame q d))"
proof -
  have "42 \<le> length q" "20 \<le> ihl_of (q ! 14)" "ihl_of (q ! 14) + 22 \<le> length q"
    using assms by (simp_all add: udp_query_frame_def)
  then show ?thesis
    by (simp add: BuildResponseFrame_def response_frame_def response_stage_def Let_def
        cong: go_bind_cong)
qed

lemma length_response_frame [simp]:
  "length (response_frame q d) = ihl_of (q ! 14) + 22 + length d"
  by (simp add: response_frame_def response_stage_def Let_def)

lemma response_stage_nth:
  assumes "udp_query_frame q"
  shows "k \<in> {12, 13, 14, 23} \<Longrightarrow> response_stage q d ! k = q ! k"
    and "k < 4 \<Longrightarrow> response_stage q d ! (26 + k) = q ! (30 + k)"
    and "k < 4 \<Longrightarrow> response_stage q d ! (30 + k) = q ! (26 + k)"
    and "k < 2 \<Longrightarrow> response_stage q d ! (14 + ihl_of (q ! 14) + k) = q ! (16 + ihl_of (q ! 14) + k)"
    and "k < 2 \<Longrightarrow> response_stage q d ! (16 + ihl_of (q ! 14) + k) = q ! (14 + ihl_of (q ! 14) + k)"
    and "drop (ihl_of (q ! 14) + 22) (response_stage q d) = d"
    and "response_stage q d ! 24 = 0" "response_stage q d ! 25 = 0"
proof -
  have *: "42 \<le> length q" "20 \<le> ihl_of (q ! 14)" "ihl_of (q ! 14) + 22 \<le> length q"
    using assms by (simp_all add: udp_query_frame_def)
  note defs = response_stage_def Let_def nth_overwrite nth_list_update min_absorb1
  show "k \<in> {12, 13, 14, 23} \<Longrightarrow> response_stage q d ! k = q ! k"
    using * by (auto simp: defs)
  show "k < 4 \<Longrightarrow> response_stage q d ! (26 + k) = q ! (30 + k)"
    using * by (simp add: defs)
  show "k < 4 \<Longrightarrow> response_stage q d ! (30 + k) = q ! (26 + k)"
    using * by (simp add: defs)
  show "k < 2 \<Longrightarrow> response_stage q d ! (14 + ihl_of (q ! 14) + k) = q ! (16 + ihl_of (q ! 14) + k)"
    using * by (simp add: defs)
  show "k < 2 \<Longrightarrow> response_stage q d ! (16 + ihl_of (q ! 14) + k) = q ! (14 + ihl_of (q ! 14) + k)"
    using * by (simp add: defs)
  show "response_stage q d ! 24 = 0" "response_stage q d ! 25 = 0"
    using * by (simp_all add: defs)
  show "drop (ihl_of (q ! 14) + 22) (response_stage q d) = d"
  proof (rule nth_equalityI)
    show "length (drop (ihl_of (q ! 14) + 22) (response_stage q d)) = length d"
      using assms by (simp add: length_response_stage)
    fix i assume "i < length (drop (ihl_of (q ! 14) + 22) (response_stage q d))"
    then have "i < length d" using assms by (simp add: length_response_stage)
    then show "drop (ihl_of (q ! 14) + 22) (response_stage q d) ! i = d ! i"
      using * by (simp add: defs)
  qed
qed

lemma response_frame_nth:
  assumes "udp_query_frame q" "k < ihl_of (q ! 14) + 22 + length d" "k \<noteq> 24" "k \<noteq> 25"
    "k < ihl_of (q ! 14) + 18 \<or> ihl_of (q ! 14) + 22 \<le> k"
  shows "response_frame q d ! k = response_stage q d ! k"
  using assms
  by (auto simp: response_frame_def Let_def nth_overwrite nth_list_update length_response_stage)

lemma drop_response_frame:
  assumes "udp_query_frame q"
  shows "drop (ihl_of (q ! 14) + 22) (response_frame q d) = d"
proof -
  have "drop (ihl_of (q ! 14) + 22) (response_frame q d) =
      drop (ihl_of (q ! 14) + 22) (response_stage q d)"
    using assms
    by (intro nth_equalityI)
      (simp_all add: length_response_stage response_frame_nth udp_query_frame_def)
  with response_stage_nth(6) [OF assms] show ?thesis by simp
qed

lemma udp_query_frame_response:
  assumes "is_ipv4_frame q" "udp_query_frame q"
  shows "is_ipv4_frame (response_frame q d) \<and> response_frame q d ! 14 = q ! 14 \<and> response_frame q d ! 23 = q ! 23"
proof -
  have *: "42 \<le> length q" "20 \<le> ihl_of (q ! 14)" 
    using assms by (simp_all add: udp_query_frame_def)
  show ?thesis
  using assms * response_stage_nth(1) [OF assms(2), of _ d]
  by (simp add: is_ipv4_frame_def response_frame_nth)
qed

lemma header_of_response:
  assumes "is_ipv4_frame q" "udp_query_frame q" "q ! 23 = 17"
  shows "header_of (response_frame q d) = reverse_hdr (header_of q)"
proof -
  have *: "42 \<le> length q" "20 \<le> ihl_of (q ! 14)" "ihl_of (q ! 14) + 22 \<le> length q"
    using assms by (simp_all add: udp_query_frame_def)
  note st = response_stage_nth [OF assms(2), where d = d]
  note fr = response_frame_nth [OF assms(2)]
  show ?thesis
    using * assms st(2) [of 0] st(2) [of 1] st(2) [of 2] st(2) [of 3]
      st(3) [of 0] st(3) [of 1] st(3) [of 2] st(3) [of 3]
      st(4) [of 0] st(4) [of 1] st(5) [of 0] st(5) [of 1] 
      udp_query_frame_response [OF assms(1,2), of d]
    by (simp add: header_of_def transport_at_def reverse_hdr_def fr Let_def)
qed

lemma response_header_checksum:
  assumes "udp_query_frame q"
  shows "ipChecksum (take (ihl_of (q ! 14)) (drop 14 (response_frame q d))) = 0"
proof -
  let ?n = "ihl_of (q ! 14)" and ?h = "take (ihl_of (q ! 14)) (drop 14 (response_stage q d))"
  have *: "20 \<le> ?n" "?n \<le> 60" using assms ihl_of_le [of "q ! 14"] by (simp_all add: udp_query_frame_def)
  have len: "length ?h = ?n" using assms by (simp add: length_response_stage)
  have "take ?n (drop 14 (response_frame q d)) = overwrite ?h 10 (put16 (ipChecksum ?h))"
  proof (rule nth_equalityI)
    show "length (take ?n (drop 14 (response_frame q d))) = length (overwrite ?h 10 (put16 (ipChecksum ?h)))"
      using len by simp
    fix i assume "i < length (take ?n (drop 14 (response_frame q d)))"
    then have "i < ?n" by simp
    then show "take ?n (drop 14 (response_frame q d)) ! i = overwrite ?h 10 (put16 (ipChecksum ?h)) ! i"
      using * assms 
      by (simp add: nth_overwrite len response_frame_def Let_def length_response_stage nth_list_update)
  qed
  moreover have "?h ! 10 = 0" "?h ! (10 + 1) = 0"
    using response_stage_nth(7,8) [OF assms, of d] * assms
    by (simp_all add: length_response_stage)
  ultimately show ?thesis
    using ipChecksum_verifies [of ?h 10] * len by simp
qed

lemma BuildResponseFrame_cases:
  "BuildResponseFrame q d = Some (Inr r) \<longleftrightarrow> udp_query_frame q \<and> r = response_frame q d"
proof (cases "udp_query_frame q")
  case True
  then show ?thesis by (auto simp: BuildResponseFrame_ok)
next
  case False
  then show ?thesis
    by (auto simp: BuildResponseFrame_def udp_query_frame_def Let_def split: if_splits)
qed

lemma BuildResponseFrame_total: "\<exists>r. BuildResponseFrame q d = Some r"
proof (cases "udp_query_frame q")
  case True
  then show ?thesis by (auto simp: BuildResponseFrame_ok)
next
  case False
  then show ?thesis
    by (auto simp: BuildResponseFrame_def udp_query_frame_def Let_def split: if_splits)
qed

lemma ExtractUDPPayload_accepts:
  "ExtractUDPPayload q = Some (Inr p) \<Longrightarrow> udp_query_frame q \<and> is_ipv4_frame q"
  by (auto simp: ExtractUDPPayload_eq udp_query_frame_def is_ipv4_frame_def Let_def split: if_splits)

lemma reverse_reverse_hdr [simp]: "reverse_hdr (reverse_hdr h) = h"
  by (simp add: reverse_hdr_def)

lemma reverse_hdr_simps [simp]:
  "SrcIP (reverse_hdr h) = DstIP h" "DstIP (reverse_hdr h) = SrcIP h"
  "Protocol (reverse_hdr h) = Protocol h"
  "SrcPort (reverse_hdr h) = DstPort h" "DstPort (reverse_hdr h) = SrcPort h"
  by (simp_all add: reverse_hdr_def)

lemma response_parses:
  assumes "ParseHeaders q = Some (Some h)" "Protocol h = 17"
    and "BuildResponseFrame q d = Some (Inr r)"
  shows "ParseHeaders r = Some (Some (reverse_hdr h)) \<and> ExtractUDPPayload r = Some (Inr d)"
proof -
  from assms(3) have uq: "udp_query_frame q" and r: "r = response_frame q d"
    by (simp_all add: BuildResponseFrame_cases)
  from assms(1) have iq: "is_ipv4_frame q" and h: "h = header_of q"
    by (simp_all add: ParseHeaders_eq split: if_splits)
  have p: "q ! 23 = 17" using assms(2) h by (simp add: header_of_def Let_def)
  note ir = udp_query_frame_response [OF iq uq, of d]
  from ir have "ParseHeaders r = Some (Some (reverse_hdr h))"
    by (simp add: ParseHeaders_eq r h header_of_response [OF iq uq p])
  moreover from ir uq have "ExtractUDPPayload r = Some (Inr d)"
    by (simp add: ExtractUDPPayload_eq r is_ipv4_frame_def udp_query_frame_def Let_def
        drop_response_frame [OF uq])
  ultimately show ?thesis ..
qed

section \<open>Properties\<close>

text \<open>A UDP query from 192.168.127.2:4660 to 192.168.127.1:53 with a two-byte payload.\<close>

definition sample_query :: bytes where
  "sample_query =
     [1, 2, 3, 4, 5, 6, 7, 8, 9, 10, 11, 12, 8, 0,
      0x45, 0, 0, 30, 0, 0, 0, 0, 64, 17, 0, 0, 192, 168, 127, 2, 192, 168, 127, 1,
      0x12, 0x34, 0, 53, 0, 10, 0, 0, 0xAB, 0xCD]"

text \<open>
  C17. \<open>ParseHeaders\<close> returns for every byte string: no frame, however short or
  malformed, makes it read out of range. It yields a header exactly for the frames with
  EtherType 0x0800, at least 20 header bytes, an IHL of at least five words and a complete
  header; the addresses and the protocol are those at their fixed offsets.
\<close>

theorem ParseHeaders_total:
  "\<exists>r. ParseHeaders f = Some r \<and>
     (r \<noteq> None \<longleftrightarrow> 34 \<le> length f \<and> be16 (f ! 12) (f ! 13) = 0x0800 \<and>
        20 \<le> ihl_of (f ! 14) \<and> 14 + ihl_of (f ! 14) \<le> length f) \<and>
     (case r of None \<Rightarrow> True
      | Some h \<Rightarrow> Protocol h = f ! 23 \<and> SrcIP h = (f ! 26, f ! 27, f ! 28, f ! 29) \<and>
          DstIP h = (f ! 30, f ! 31, f ! 32, f ! 33))"
  by (simp add: ParseHeaders_eq is_ipv4_frame_def header_of_def Let_def)

text \<open>
  The frame \<open>BuildResponseFrame\<close> builds for a UDP query parses as the reverse of
  the query's header (addresses and ports exchanged, the protocol kept), and its UDP payload
  is exactly the DNS response that was put in.
\<close>

theorem response_frame_roundtrip:
  assumes "ParseHeaders q = Some (Some h)" "Protocol h = 17"
    and "BuildResponseFrame q d = Some (Inr r)"
  shows "ParseHeaders r = Some (Some (reverse_hdr h)) \<and> ExtractUDPPayload r = Some (Inr d)"
  using assms by (rule response_parses)

theorem response_frame_roundtrip_witness:
  "ParseHeaders (response_frame sample_query [7, 9]) =
     Some (Some \<lparr>SrcIP = (192, 168, 127, 1), DstIP = (192, 168, 127, 2), Protocol = 17,
                 SrcPort = 53, DstPort = 0x1234\<rparr>)"
proof -
  let ?h = "\<lparr>SrcIP = (192, 168, 127, 2), DstIP = (192, 168, 127, 1), Protocol = 17,
             SrcPort = 0x1234, DstPort = 53\<rparr> :: PacketHeader"
  have h: "ParseHeaders sample_query = Some (Some ?h)"
    by (simp add: ParseHeaders_def sample_query_def ihl_of_def be16_def ip4_of_def
        byte_or_zero_def Let_def)
  have b: "BuildResponseFrame sample_query [7, 9] = Some (Inr (response_frame sample_query [7, 9]))"
    by (rule BuildResponseFrame_ok) (simp add: udp_query_frame_def sample_query_def ihl_of_def)
  show ?thesis
    using response_frame_roundtrip [OF h _ b] by (simp add: reverse_hdr_def)
qed

text \<open>
  The IPv4 header of every frame \<open>BuildResponseFrame\<close> returns carries a valid
  checksum: the checksum of the header, with its checksum field in place, is zero, as the
  receiver of RFC 791 verifies it.
\<close>

theorem response_frame_checksum_valid:
  assumes "BuildResponseFrame q d = Some (Inr r)"
  shows "ipChecksum (take (ihl_of (r ! 14)) (drop 14 r)) = 0"
proof -
  from assms have uq: "udp_query_frame q" and r: "r = response_frame q d"
    by (simp_all add: BuildResponseFrame_cases)
  have "r ! 14 = q ! 14"
    using uq response_stage_nth(1) [OF uq, of 14 d]
    by (simp add: r response_frame_nth udp_query_frame_def)
  then show ?thesis using response_header_checksum [OF uq, of d] by (simp add: r)
qed

theorem response_frame_checksum_valid_witness:
  "ipChecksum (take 20 (drop 14 (response_frame sample_query [7]))) = 0"
proof -
  have b: "BuildResponseFrame sample_query [7] = Some (Inr (response_frame sample_query [7]))"
    by (rule BuildResponseFrame_ok) (simp add: udp_query_frame_def sample_query_def ihl_of_def)
  have "response_frame sample_query [7] ! 14 = 0x45"
    by (simp add: response_frame_def response_stage_def nth_overwrite Let_def ihl_of_def
        sample_query_def)
  then show ?thesis
    using response_frame_checksum_valid [OF b] by (simp add: ihl_of_def)
qed

end
