(* ===== verification/Firewall.thy ===== *)
theory Firewall
  imports Packet "HOL-Library.Finite_Map"
begin

text \<open>
  The stateful packet filter of \<^verbatim>\<open>net/firewall\<close>: rules and CIDR matching
  (\<^verbatim>\<open>rule.go\<close>), connection tracking (\<^verbatim>\<open>conntrack.go\<close>), time-limited
  dynamic rules (\<^verbatim>\<open>dynamic.go\<close>) and the verdict (\<^verbatim>\<open>filter.go\<close>).

  An instant is a number of nanoseconds; each operation that reads the injectable clock
  takes the reading as an argument. The tables are protected by a mutex in the source, so
  each operation on a table is one atomic step. The locales \<open>expiring_store\<close> and
  \<open>flow_table\<close> state what the filter relies on.
\<close>

section \<open>Package time and package net\<close>

definition maxDuration :: duration where "maxDuration = 2 ^ 63 - 1"
definition minDuration :: duration where "minDuration = - (2 ^ 63)"

text \<open>\<^verbatim>\<open>t.Sub(u)\<close> saturates at the bounds of a 64-bit duration.\<close>

definition time_Sub :: "time \<Rightarrow> time \<Rightarrow> duration" where
  "time_Sub t u = max minDuration (min maxDuration (t - u))"

definition After :: "time \<Rightarrow> time \<Rightarrow> bool" where
  "After t u \<longleftrightarrow> u < t"

text \<open>A \<^verbatim>\<open>net.IP\<close> and a \<^verbatim>\<open>net.IPMask\<close> are byte slices; nil is the empty slice.\<close>

record IPNet =
  IPNet_IP :: bytes
  IPNet_Mask :: bytes

definition v4InV6Prefix :: bytes where
  "v4InV6Prefix = [0, 0, 0, 0, 0, 0, 0, 0, 0, 0, 0xFF, 0xFF]"

definition To4 :: "bytes \<Rightarrow> bytes option" where
  "To4 ip =
     (if length ip = 4 then Some ip
      else if length ip = 16 \<and> take 12 ip = v4InV6Prefix then Some (drop 12 ip)
      else None)"

definition IP_Equal :: "bytes \<Rightarrow> bytes \<Rightarrow> bool" where
  "IP_Equal ip x =
     (if length ip = length x then ip = x
      else if length ip = 4 \<and> length x = 16 then take 12 x = v4InV6Prefix \<and> ip = drop 12 x
      else if length ip = 16 \<and> length x = 4 then take 12 ip = v4InV6Prefix \<and> drop 12 ip = x
      else False)"

definition networkNumberAndMask :: "IPNet \<Rightarrow> bytes \<times> bytes" where
  "networkNumberAndMask n =
     (let ip = (case To4 (IPNet_IP n) of Some x \<Rightarrow> x | None \<Rightarrow> IPNet_IP n);
          m = IPNet_Mask n
      in if length ip \<noteq> 4 \<and> length ip \<noteq> 16 then ([], [])
         else if length m = 4 then (if length ip \<noteq> 4 then ([], []) else (ip, m))
         else if length m = 16 then (if length ip = 4 then (ip, drop 12 m) else (ip, m))
         else ([], []))"

definition IPNet_Contains :: "IPNet \<Rightarrow> bytes \<Rightarrow> bool" where
  "IPNet_Contains n ip =
     (let (nn, m) = networkNumberAndMask n;
          ip = (case To4 ip of Some x \<Rightarrow> x | None \<Rightarrow> ip)
      in length ip = length nn \<and> (\<forall>i < length ip. nn ! i AND m ! i = ip ! i AND m ! i))"

text \<open>\<^verbatim>\<open>net.CIDRMask(ones, 32)\<close>, as the bytes of the mask.\<close>

definition cidr_byte :: "nat \<Rightarrow> u8" where
  "cidr_byte n = (if 8 \<le> n then 0xFF else NOT (drop_bit n 0xFF))"

definition CIDRMask32 :: "nat \<Rightarrow> bytes" where
  "CIDRMask32 ones = map (\<lambda>i. cidr_byte (ones - 8 * i)) [0..<4]"

section \<open>rule.go\<close>

datatype Direction = Ingress | Egress
datatype Action = Allow | Deny

record Rule =
  Rule_Direction :: Direction
  Rule_Action :: Action
  Rule_Protocol :: u8
  Rule_SrcCIDR :: IPNet
  Rule_DstCIDR :: IPNet
  Rule_SrcPort :: u16
  Rule_DstPort :: u16
  Rule_Comment :: string

definition cidrMatchesIP :: "IPNet \<Rightarrow> ip4 \<Rightarrow> bool" where
  "cidrMatchesIP cidr ip =
     (if length (IPNet_Mask cidr) = 0 then True else IPNet_Contains cidr (ip4_bytes ip))"

definition Matches :: "Rule \<Rightarrow> Direction \<Rightarrow> PacketHeader \<Rightarrow> bool" where
  "Matches r dir hdr =
     (if Rule_Direction r \<noteq> dir then False
      else if Rule_Protocol r \<noteq> 0 \<and> Rule_Protocol r \<noteq> Protocol hdr then False
      else if \<not> cidrMatchesIP (Rule_SrcCIDR r) (SrcIP hdr) then False
      else if \<not> cidrMatchesIP (Rule_DstCIDR r) (DstIP hdr) then False
      else if Rule_SrcPort r \<noteq> 0 \<and> Rule_SrcPort r \<noteq> SrcPort hdr then False
      else if Rule_DstPort r \<noteq> 0 \<and> Rule_DstPort r \<noteq> DstPort hdr then False
      else True)"

section \<open>conntrack.go\<close>

definition tcpFlowTTL :: duration where "tcpFlowTTL = 5 * minute"
definition defaultFlowTTL :: duration where "defaultFlowTTL = 30 * second"

record connKey =
  ck_protocol :: u8
  ck_srcIP :: ip4
  ck_dstIP :: ip4
  ck_srcPort :: u16
  ck_dstPort :: u16

record ConnTracker =
  flows :: "(connKey, time) fmap"

definition NewConnTracker :: ConnTracker where
  "NewConnTracker = \<lparr>flows = fmempty\<rparr>"

definition flow_key :: "PacketHeader \<Rightarrow> connKey" where
  "flow_key hdr =
     \<lparr>ck_protocol = Protocol hdr, ck_srcIP = SrcIP hdr, ck_dstIP = DstIP hdr,
      ck_srcPort = SrcPort hdr, ck_dstPort = DstPort hdr\<rparr>"

definition reverse_key :: "PacketHeader \<Rightarrow> connKey" where
  "reverse_key hdr =
     \<lparr>ck_protocol = Protocol hdr, ck_srcIP = DstIP hdr, ck_dstIP = SrcIP hdr,
      ck_srcPort = DstPort hdr, ck_dstPort = SrcPort hdr\<rparr>"

definition flowTTL :: "u8 \<Rightarrow> duration" where
  "flowTTL proto = (if proto = 6 then tcpFlowTTL else defaultFlowTTL)"

definition Track :: "time \<Rightarrow> ConnTracker \<Rightarrow> PacketHeader \<Rightarrow> ConnTracker" where
  "Track now ct hdr = ct\<lparr>flows := fmupd (flow_key hdr) now (flows ct)\<rparr>"

definition IsEstablished :: "time \<Rightarrow> ConnTracker \<Rightarrow> PacketHeader \<Rightarrow> bool" where
  "IsEstablished now ct hdr =
     (case fmlookup (flows ct) (reverse_key hdr) of
        None \<Rightarrow> False
      | Some ts \<Rightarrow> time_Sub now ts \<le> flowTTL (Protocol hdr))"

definition ConnTracker_Len :: "ConnTracker \<Rightarrow> nat" where
  "ConnTracker_Len ct = fcard (fmdom (flows ct))"

definition flow_sweep :: "time \<Rightarrow> ConnTracker \<Rightarrow> ConnTracker" where
  "flow_sweep now ct =
     ct\<lparr>flows := fmfilter
        (\<lambda>key. case fmlookup (flows ct) key of
           None \<Rightarrow> True
         | Some ts \<Rightarrow> \<not> flowTTL (ck_protocol key) < time_Sub now ts) (flows ct)\<rparr>"

section \<open>dynamic.go\<close>

definition defaultMaxDynamicRules :: nat where "defaultMaxDynamicRules = 10000"

record dynamicEntry =
  entry_rule :: Rule
  expiresAt :: time

record DynamicRules =
  entries :: "dynamicEntry list"
  maxRules :: nat

definition NewDynamicRules :: DynamicRules where
  "NewDynamicRules = \<lparr>entries = [], maxRules = defaultMaxDynamicRules\<rparr>"

definition zero_rule :: Rule where
  "zero_rule =
     \<lparr>Rule_Direction = Ingress, Rule_Action = Allow, Rule_Protocol = 0,
      Rule_SrcCIDR = \<lparr>IPNet_IP = [], IPNet_Mask = []\<rparr>,
      Rule_DstCIDR = \<lparr>IPNet_IP = [], IPNet_Mask = []\<rparr>,
      Rule_SrcPort = 0, Rule_DstPort = 0, Rule_Comment = []\<rparr>"

definition zero_entry :: dynamicEntry where
  "zero_entry = \<lparr>entry_rule = zero_rule, expiresAt = 0\<rparr>"

text \<open>The comparison \<open>Add\<close> uses to recognise an existing rule.\<close>

definition same_rule :: "Rule \<Rightarrow> Rule \<Rightarrow> bool" where
  "same_rule a b \<longleftrightarrow>
     Rule_Direction a = Rule_Direction b \<and> Rule_Protocol a = Rule_Protocol b \<and>
     IP_Equal (IPNet_IP (Rule_DstCIDR a)) (IPNet_IP (Rule_DstCIDR b)) \<and>
     Rule_DstPort a = Rule_DstPort b \<and> Rule_Action a = Rule_Action b"

fun extend_entry :: "Rule \<Rightarrow> time \<Rightarrow> dynamicEntry list \<Rightarrow> dynamicEntry list option" where
  "extend_entry r exp [] = None"
| "extend_entry r exp (e # es) =
     (if same_rule (entry_rule e) r
      then Some ((if After exp (expiresAt e) then e\<lparr>expiresAt := exp\<rparr> else e) # es)
      else map_option ((#) e) (extend_entry r exp es))"

definition Add :: "time \<Rightarrow> DynamicRules \<Rightarrow> Rule \<Rightarrow> duration \<Rightarrow> DynamicRules" where
  "Add now dr rule ttl =
     (case extend_entry rule (now + ttl) (entries dr) of
        Some es \<Rightarrow> dr\<lparr>entries := es\<rparr>
      | None \<Rightarrow>
          if maxRules dr \<le> length (entries dr) then dr
          else dr\<lparr>entries := entries dr @ [\<lparr>entry_rule = rule, expiresAt = now + ttl\<rparr>]\<rparr>)"

fun match_entries :: "time \<Rightarrow> Direction \<Rightarrow> PacketHeader \<Rightarrow> dynamicEntry list \<Rightarrow> Action option" where
  "match_entries now dir hdr [] = None"
| "match_entries now dir hdr (e # es) =
     (if After now (expiresAt e) then match_entries now dir hdr es
      else if Matches (entry_rule e) dir hdr then Some (Rule_Action (entry_rule e))
      else match_entries now dir hdr es)"

definition Match :: "time \<Rightarrow> DynamicRules \<Rightarrow> Direction \<Rightarrow> PacketHeader \<Rightarrow> Action option" where
  "Match now dr dir hdr = match_entries now dir hdr (entries dr)"

text \<open>The in-place compaction of \<open>Sweep\<close>: read index \<open>i\<close>, write index \<open>n\<close>.\<close>

definition sweep_step :: "time \<Rightarrow> nat \<Rightarrow> nat \<times> dynamicEntry list \<Rightarrow> nat \<times> dynamicEntry list" where
  "sweep_step now i = (\<lambda>(n, es).
     if \<not> After now (expiresAt (es ! i)) then (n + 1, es[n := es ! i]) else (n, es))"

definition Sweep :: "time \<Rightarrow> DynamicRules \<Rightarrow> DynamicRules" where
  "Sweep now dr =
     (let (n, es) = fold (sweep_step now) [0..<length (entries dr)] (0, entries dr);
          es = fold (\<lambda>i es. es[i := zero_entry]) [n..<length es] es
      in dr\<lparr>entries := take n es\<rparr>)"

definition DynamicRules_Len :: "DynamicRules \<Rightarrow> nat" where
  "DynamicRules_Len dr = length (entries dr)"

section \<open>filter.go\<close>

text \<open>
  The dynamic rules are shared by pointer with the DNS interceptor: \<open>filter_dynamic\<close> is
  None for a nil pointer, and the current value of the shared object otherwise.
\<close>

record Filter =
  filter_rules :: "Rule list"
  defaultAction :: Action
  conntrack :: ConnTracker
  filter_dynamic :: "DynamicRules option"

definition NewFilter :: "Rule list \<Rightarrow> Action \<Rightarrow> Filter" where
  "NewFilter rules da =
     \<lparr>filter_rules = rules, defaultAction = da, conntrack = NewConnTracker, filter_dynamic = None\<rparr>"

definition NewFilterWithDynamic :: "Rule list \<Rightarrow> Action \<Rightarrow> DynamicRules option \<Rightarrow> Filter" where
  "NewFilterWithDynamic rules da dr =
     \<lparr>filter_rules = rules, defaultAction = da, conntrack = NewConnTracker, filter_dynamic = dr\<rparr>"

fun first_match :: "Direction \<Rightarrow> PacketHeader \<Rightarrow> Rule list \<Rightarrow> Action option" where
  "first_match dir hdr [] = None"
| "first_match dir hdr (r # rs) =
     (if Matches r dir hdr then Some (Rule_Action r) else first_match dir hdr rs)"

definition track_if_allowed :: "time \<Rightarrow> Filter \<Rightarrow> PacketHeader \<Rightarrow> Action \<Rightarrow> Filter" where
  "track_if_allowed now f hdr a =
     (if a = Allow then f\<lparr>conntrack := Track now (conntrack f) hdr\<rparr> else f)"

text \<open>
  \<open>Verdict\<close> reads the clock up to three times: \<open>t1\<close> in the established check,
  \<open>t2\<close> in the dynamic rules and \<open>t3\<close> when it tracks the flow.
\<close>

definition Verdict ::
  "time \<Rightarrow> time \<Rightarrow> time \<Rightarrow> Filter \<Rightarrow> Direction \<Rightarrow> PacketHeader \<Rightarrow> Action \<times> Filter" where
  "Verdict t1 t2 t3 f dir hdr =
     (if IsEstablished t1 (conntrack f) hdr
      then (Allow, f\<lparr>conntrack := Track t3 (conntrack f) hdr\<rparr>)
      else case first_match dir hdr (filter_rules f) of
        Some a \<Rightarrow> (a, track_if_allowed t3 f hdr a)
      | None \<Rightarrow>
          (case filter_dynamic f \<bind> (\<lambda>dr. Match t2 dr dir hdr) of
             Some a \<Rightarrow> (a, track_if_allowed t3 f hdr a)
           | None \<Rightarrow> (defaultAction f, f)))"

text \<open>One tick of the goroutine of \<open>StartExpiry\<close>; each table reads the clock itself.\<close>

definition defaultExpiryInterval :: duration where "defaultExpiryInterval = 30 * second"

definition expiry_tick :: "time \<Rightarrow> time \<Rightarrow> Filter \<Rightarrow> Filter" where
  "expiry_tick t1 t2 f =
     f\<lparr>conntrack := flow_sweep t1 (conntrack f),
       filter_dynamic := map_option (Sweep t2) (filter_dynamic f)\<rparr>"

section \<open>Lemmas on CIDR matching and rules\<close>

lemma length_ip4_bytes [simp]: "length (ip4_bytes ip) = 4"
  by (cases ip) simp

lemma To4_ip4 [simp]: "To4 (ip4_bytes ip) = Some (ip4_bytes ip)"
  by (simp add: To4_def)

lemma ip4_bytes_inj [simp]: "ip4_bytes a = ip4_bytes b \<longleftrightarrow> a = b"
  by (cases a; cases b) auto

lemma IP_Equal_refl [simp]: "IP_Equal a a"
  by (simp add: IP_Equal_def)

lemma IP_Equal_sym: "IP_Equal a b \<Longrightarrow> IP_Equal b a"
  by (auto simp: IP_Equal_def split: if_splits)

definition host_net :: "ip4 \<Rightarrow> IPNet" where
  "host_net ip = \<lparr>IPNet_IP = ip4_bytes ip, IPNet_Mask = CIDRMask32 32\<rparr>"

lemma CIDRMask32_32: "CIDRMask32 32 = [0xFF, 0xFF, 0xFF, 0xFF]"
  by (simp add: CIDRMask32_def cidr_byte_def upt_rec)

lemma and_full_u8: "a AND (0xFF :: u8) = a"
proof -
  have "(0xFF :: u8) = - 1" by simp
  then show ?thesis by (metis and.right_neutral)
qed

text \<open>A /32 network contains exactly its address, a /0 network every IPv4 address.\<close>

lemma cidrMatchesIP_v4:
  "cidrMatchesIP \<lparr>IPNet_IP = [a1, a2, a3, a4], IPNet_Mask = [m1, m2, m3, m4]\<rparr> (b1, b2, b3, b4) \<longleftrightarrow>
     a1 AND m1 = b1 AND m1 \<and> a2 AND m2 = b2 AND m2 \<and> a3 AND m3 = b3 AND m3 \<and> a4 AND m4 = b4 AND m4"
  by (auto simp: cidrMatchesIP_def IPNet_Contains_def networkNumberAndMask_def To4_def All_less_Suc)

lemma cidrMatchesIP_host: "cidrMatchesIP (host_net a) b \<longleftrightarrow> a = b"
  by (cases a; cases b) (simp add: host_net_def CIDRMask32_32 cidrMatchesIP_v4 and_full_u8)

lemma cidrMatchesIP_nil [simp]: "cidrMatchesIP \<lparr>IPNet_IP = i, IPNet_Mask = []\<rparr> b"
  by (simp add: cidrMatchesIP_def)

lemma first_match_None: "first_match d h rs = None \<longleftrightarrow> (\<forall>r \<in> set rs. \<not> Matches r d h)"
  by (induction rs) auto

lemma first_match_Some:
  "first_match d h rs = Some a \<Longrightarrow> \<exists>r \<in> set rs. Matches r d h \<and> Rule_Action r = a"
  by (induction rs) (auto split: if_splits)

lemma first_match_append:
  "first_match d h (rs @ ss) =
     (case first_match d h rs of None \<Rightarrow> first_match d h ss | Some a \<Rightarrow> Some a)"
  by (induction rs) auto

section \<open>Connection tracking implements a flow table\<close>

definition live :: "u8 \<Rightarrow> duration \<Rightarrow> bool" where
  "live p d \<longleftrightarrow> d \<le> flowTTL p"

lemma reverse_key_eq: "reverse_key h = flow_key (reverse_hdr h)"
  by (simp add: reverse_key_def flow_key_def)

lemma flow_key_inj [simp]: "flow_key a = flow_key b \<longleftrightarrow> a = b"
  by (cases a; cases b) (auto simp: flow_key_def)

lemma reverse_hdr_eq_iff: "reverse_hdr a = b \<longleftrightarrow> a = reverse_hdr b"
  by auto

lemma ttl_bounds: "minDuration \<le> flowTTL p" "flowTTL p < maxDuration"
  by (simp_all add: flowTTL_def tcpFlowTTL_def defaultFlowTTL_def minute_def second_def
      minDuration_def maxDuration_def)

lemma time_Sub_le_ttl [simp]: "time_Sub t u \<le> flowTTL p \<longleftrightarrow> live p (t - u)"
  using ttl_bounds [of p] by (auto simp: time_Sub_def live_def)

lemma IsEstablished_eq:
  "IsEstablished t ct h \<longleftrightarrow>
     (\<exists>u. fmlookup (flows ct) (flow_key (reverse_hdr h)) = Some u \<and> live (Protocol h) (t - u))"
  by (auto simp: IsEstablished_def reverse_key_eq split: option.splits)

lemma flow_sweep_lookup:
  "fmlookup (flows (flow_sweep t ct)) k =
     (case fmlookup (flows ct) k of
        None \<Rightarrow> None
      | Some u \<Rightarrow> if live (ck_protocol k) (t - u) then Some u else None)"
  by (auto simp: flow_sweep_def not_less split: option.splits)

lemma live_mono: "live p (t' - u) \<Longrightarrow> t \<le> t' \<Longrightarrow> live p (t - u)"
  by (simp add: live_def)

text \<open>
  What the filter relies on in a store whose entries expire: removing the entries that have
  expired at \<open>t\<close> changes no answer at \<open>t\<close> or later, and never adds an entry.
\<close>

locale expiring_store =
  fixes sweep :: "int \<Rightarrow> 's \<Rightarrow> 's"
    and query :: "int \<Rightarrow> 's \<Rightarrow> 'q \<Rightarrow> 'r"
    and entry_count :: "'s \<Rightarrow> nat"
  assumes query_sweep: "t \<le> t' \<Longrightarrow> query t' (sweep t s) q = query t' s q"
    and count_sweep: "entry_count (sweep t s) \<le> entry_count s"
begin

lemma query_sweeps:
  assumes "\<forall>t \<in> set ts. t \<le> t'"
  shows "query t' (fold sweep ts s) q = query t' s q"
  using assms by (induction ts arbitrary: s) (simp_all add: query_sweep)

lemma count_sweeps: "entry_count (fold sweep ts s) \<le> entry_count s"
proof (induction ts arbitrary: s)
  case (Cons t ts)
  have "entry_count (fold sweep ts (sweep t s)) \<le> entry_count (sweep t s)" by (rule Cons.IH)
  also have "\<dots> \<le> entry_count s" by (rule count_sweep)
  finally show ?case by simp
qed simp

end

text \<open>The operations applied to a flow table, in the order of the lock, with their clock readings.\<close>

datatype flow_op = OpTrack time PacketHeader | OpSweep time

primrec op_time :: "flow_op \<Rightarrow> time" where
  "op_time (OpTrack t h) = t"
| "op_time (OpSweep t) = t"

primrec apply_op ::
  "(time \<Rightarrow> 's \<Rightarrow> PacketHeader \<Rightarrow> 's) \<Rightarrow> (time \<Rightarrow> 's \<Rightarrow> 's) \<Rightarrow> flow_op \<Rightarrow> 's \<Rightarrow> 's" where
  "apply_op trk swp (OpTrack t h) s = trk t s h"
| "apply_op trk swp (OpSweep t) s = swp t s"

text \<open>The instant at which a flow was last tracked in a history.\<close>

fun last_track :: "flow_op list \<Rightarrow> PacketHeader \<Rightarrow> time option" where
  "last_track [] h = None"
| "last_track (OpTrack t h' # ops) h =
     (case last_track ops h of Some u \<Rightarrow> Some u | None \<Rightarrow> if h' = h then Some t else None)"
| "last_track (OpSweep t # ops) h = last_track ops h"

locale flow_table = expiring_store sweep query entry_count
  for sweep :: "int \<Rightarrow> 's \<Rightarrow> 's"
    and query :: "int \<Rightarrow> 's \<Rightarrow> PacketHeader \<Rightarrow> bool"
    and entry_count :: "'s \<Rightarrow> nat" +
  fixes empty_table :: 's
    and track :: "int \<Rightarrow> 's \<Rightarrow> PacketHeader \<Rightarrow> 's"
  assumes query_empty: "\<not> query t empty_table h"
    and query_track:
      "query t (track u s h) h' \<longleftrightarrow>
         (if h' = reverse_hdr h then live (Protocol h) (t - u) else query t s h')"
begin

text \<open>
  From any table, a flow is established exactly when the last record of its reverse is
  young enough, or when there is none and it was established at the start.
\<close>

lemma query_history_from:
  assumes "\<forall>op \<in> set ops. op_time op \<le> t"
  shows "query t (fold (apply_op track sweep) ops s) h \<longleftrightarrow>
    (case last_track ops (reverse_hdr h) of
       Some u \<Rightarrow> live (Protocol h) (t - u)
     | None \<Rightarrow> query t s h)"
  using assms
proof (induction ops arbitrary: s)
  case (Cons op ops)
  then show ?case
    by (cases op)
      (auto simp: query_sweep query_track reverse_hdr_eq_iff [of h] split: option.splits)
qed simp

lemma query_history:
  assumes "\<forall>op \<in> set ops. op_time op \<le> t"
  shows "query t (fold (apply_op track sweep) ops empty_table) h \<longleftrightarrow>
    (\<exists>u. last_track ops (reverse_hdr h) = Some u \<and> live (Protocol h) (t - u))"
  by (auto simp: query_history_from [OF assms] query_empty split: option.splits)

end

interpretation ct: flow_table flow_sweep IsEstablished ConnTracker_Len NewConnTracker Track
proof (unfold_locales, goal_cases)
  case (1 t t' s q)
  then show ?case
    by (auto simp: IsEstablished_eq flow_sweep_lookup flow_key_def dest: live_mono
        split: option.splits)
next
  case (2 t s)
  have "fmdom (flows (flow_sweep t s)) |\<subseteq>| fmdom (flows s)"
    by (auto simp: flow_sweep_def)
  then show ?case by (simp add: ConnTracker_Len_def fcard_mono)
next
  case (3 t h)
  then show ?case by (simp add: IsEstablished_eq NewConnTracker_def)
next
  case (4 t u s h h')
  then show ?case by (auto simp: IsEstablished_eq Track_def reverse_hdr_eq_iff)
qed

section \<open>The dynamic rules implement a bounded map from rule keys to expiry instants\<close>

definition unexpired :: "time \<Rightarrow> dynamicEntry \<Rightarrow> bool" where
  "unexpired t e \<longleftrightarrow> \<not> After t (expiresAt e)"

lemma sweep_step_eq:
  "sweep_step t i (n, es) =
     (if unexpired t (es ! i) then (Suc n, es[n := es ! i]) else (n, es))"
  by (simp add: sweep_step_def unexpired_def)

lemma take_Suc_update: "n < length xs \<Longrightarrow> take (Suc n) (xs[n := v]) = take n xs @ [v]"
  by (simp add: take_Suc_conv_app_nth)

lemma sweep_compaction:
  assumes "k \<le> length es"
  shows "\<exists>es'. fold (sweep_step t) [0..<k] (0, es) = (length (filter (unexpired t) (take k es)), es') \<and>
    length es' = length es \<and> drop k es' = drop k es \<and>
    take (length (filter (unexpired t) (take k es))) es' = filter (unexpired t) (take k es)"
  using assms
proof (induction k)
  case (Suc k)
  let ?n = "length (filter (unexpired t) (take k es))"
  from Suc obtain es' where f: "fold (sweep_step t) [0..<k] (0, es) = (?n, es')"
    and len: "length es' = length es" and dr: "drop k es' = drop k es"
    and tk: "take ?n es' = filter (unexpired t) (take k es)" by auto
  have k: "k < length es" using Suc.prems by simp
  have nth: "es' ! k = es ! k"
    using dr k len by (metis hd_drop_conv_nth)
  have n: "?n \<le> k" by (metis length_filter_le length_take min.cobounded2 order.trans)
  have dr': "drop (Suc k) es' = drop (Suc k) es"
    using dr by (metis drop_Suc drop_tl)
  show ?case
    using f len dr' tk k n nth
    by (auto simp: sweep_step_eq take_Suc_conv_app_nth [of k es] take_Suc_update)
qed simp

lemma length_zero_tail: "length (fold (\<lambda>i es. es[i := z]) is es) = length es"
  by (induction "is" arbitrary: es) simp_all

lemma take_zero_tail: "\<forall>i \<in> set is. n \<le> i \<Longrightarrow> take n (fold (\<lambda>i es. es[i := z]) is es) = take n es"
  by (induction "is" arbitrary: es) simp_all

lemma Sweep_eq: "Sweep t dr = dr\<lparr>entries := filter (unexpired t) (entries dr)\<rparr>"
proof -
  obtain es' where "fold (sweep_step t) [0..<length (entries dr)] (0, entries dr) =
      (length (filter (unexpired t) (entries dr)), es')"
    "take (length (filter (unexpired t) (entries dr))) es' = filter (unexpired t) (entries dr)"
    using sweep_compaction [of "length (entries dr)" "entries dr" t] by auto
  then show ?thesis by (simp add: Sweep_def take_zero_tail)
qed

lemma Match_eq:
  "Match t dr d h = first_match d h (map entry_rule (filter (unexpired t) (entries dr)))"
proof -
  have "match_entries t d h es = first_match d h (map entry_rule (filter (unexpired t) es))" for es
    by (induction es) (auto simp: unexpired_def)
  then show ?thesis by (simp add: Match_def)
qed

interpretation dyn: expiring_store Sweep "\<lambda>t dr (d, h). Match t dr d h" DynamicRules_Len
proof (unfold_locales, goal_cases)
  case (1 t t' s q)
  then have "filter (unexpired t') (filter (unexpired t) es) = filter (unexpired t') es" for es
    by (induction es) (auto simp: unexpired_def After_def)
  then show ?case by (cases q) (simp add: Match_eq Sweep_eq)
next
  case (2 t s)
  then show ?case by (simp add: DynamicRules_Len_def Sweep_eq)
qed

type_synonym rule_key = "Direction \<times> u8 \<times> bytes \<times> u16 \<times> Action"

definition canonical_ip :: "bytes \<Rightarrow> bytes" where
  "canonical_ip ip = (case To4 ip of Some x \<Rightarrow> x | None \<Rightarrow> ip)"

lemma take_drop_eq:
  "take n xs = p \<Longrightarrow> take n ys = p \<Longrightarrow> drop n xs = drop n ys \<Longrightarrow> xs = ys"
  by (metis append_take_drop_id)

lemma IP_Equal_canonical: "IP_Equal a b \<longleftrightarrow> canonical_ip a = canonical_ip b"
  by (auto simp: IP_Equal_def canonical_ip_def To4_def dest: take_drop_eq split: if_splits)

definition rule_key :: "Rule \<Rightarrow> rule_key" where
  "rule_key r = (Rule_Direction r, Rule_Protocol r, canonical_ip (IPNet_IP (Rule_DstCIDR r)),
     Rule_DstPort r, Rule_Action r)"

lemma same_rule_key: "same_rule a b \<longleftrightarrow> rule_key a = rule_key b"
  by (auto simp: same_rule_def rule_key_def IP_Equal_canonical)

text \<open>The abstract specification: a finite map with a capacity.\<close>

definition rule_map :: "DynamicRules \<Rightarrow> rule_key \<rightharpoonup> time" where
  "rule_map dr = map_of (map (\<lambda>e. (rule_key (entry_rule e), expiresAt e)) (entries dr))"

definition spec_add :: "nat \<Rightarrow> time \<Rightarrow> rule_key \<Rightarrow> (rule_key \<rightharpoonup> time) \<Rightarrow> rule_key \<rightharpoonup> time" where
  "spec_add cap exp k m =
     (case m k of
        Some u \<Rightarrow> m(k \<mapsto> max u exp)
      | None \<Rightarrow> if card (dom m) < cap then m(k \<mapsto> exp) else m)"

definition spec_sweep :: "time \<Rightarrow> (rule_key \<rightharpoonup> time) \<Rightarrow> rule_key \<rightharpoonup> time" where
  "spec_sweep t m = (\<lambda>k. case m k of Some u \<Rightarrow> if t \<le> u then Some u else None | None \<Rightarrow> None)"

definition wf_dynamic :: "DynamicRules \<Rightarrow> bool" where
  "wf_dynamic dr \<longleftrightarrow>
     distinct (map (\<lambda>e. rule_key (entry_rule e)) (entries dr)) \<and> length (entries dr) \<le> maxRules dr"

lemma wf_NewDynamicRules: "wf_dynamic NewDynamicRules"
  by (simp add: wf_dynamic_def NewDynamicRules_def)

lemma extend_entry_None:
  "extend_entry r x es = None \<longleftrightarrow> rule_key r \<notin> rule_key ` entry_rule ` set es"
  by (induction es) (auto simp: same_rule_key)

lemma extend_entry_keys:
  "extend_entry r x es = Some es' \<Longrightarrow> map entry_rule es' = map entry_rule es"
  by (induction es arbitrary: es') (auto split: if_splits)

lemma extend_entry_map:
  "extend_entry r x es = Some es' \<Longrightarrow>
   map_of (map (\<lambda>e. (rule_key (entry_rule e), expiresAt e)) es') =
     (map_of (map (\<lambda>e. (rule_key (entry_rule e), expiresAt e)) es))
       (rule_key r \<mapsto> max (the (map_of (map (\<lambda>e. (rule_key (entry_rule e), expiresAt e)) es) (rule_key r))) x)"
  by (induction es arbitrary: es')
    (auto simp: same_rule_key After_def fun_upd_twist max_def split: if_splits)

lemma dom_rule_map: "dom (rule_map dr) = rule_key ` entry_rule ` set (entries dr)"
  by (auto simp: rule_map_def dom_map_of_conv_image_fst image_image)

lemma card_dom_rule_map: "wf_dynamic dr \<Longrightarrow> card (dom (rule_map dr)) = length (entries dr)"
  unfolding dom_rule_map wf_dynamic_def
  by (metis distinct_card image_image image_set length_map)

lemma extend_entry_wf:
  assumes "wf_dynamic dr" "extend_entry r x (entries dr) = Some es"
  shows "wf_dynamic (dr\<lparr>entries := es\<rparr>)"
proof -
  have "map (\<lambda>e. rule_key (entry_rule e)) es = map rule_key (map entry_rule es)" by simp
  also have "\<dots> = map (\<lambda>e. rule_key (entry_rule e)) (entries dr)"
    using extend_entry_keys [OF assms(2)] by simp
  finally show ?thesis
    using assms map_eq_imp_length_eq [OF extend_entry_keys [OF assms(2)]]
    by (simp add: wf_dynamic_def)
qed

lemma Add_wf: "wf_dynamic dr \<Longrightarrow> wf_dynamic (Add t dr r ttl)"
proof (cases "extend_entry r (t + ttl) (entries dr)")
  case None
  assume "wf_dynamic dr"
  moreover from None have "rule_key r \<notin> rule_key ` entry_rule ` set (entries dr)"
    by (simp add: extend_entry_None)
  ultimately show ?thesis using None
    by (auto simp: Add_def wf_dynamic_def)
next
  case (Some es)
  assume "wf_dynamic dr"
  with Some show ?thesis by (simp add: Add_def extend_entry_wf)
qed

lemma Sweep_wf: "wf_dynamic dr \<Longrightarrow> wf_dynamic (Sweep t dr)"
  by (auto simp: Sweep_eq wf_dynamic_def distinct_map_filter
      intro: order.trans [OF length_filter_le])

lemma Add_refines:
  assumes "wf_dynamic dr"
  shows "rule_map (Add t dr r ttl) = spec_add (maxRules dr) (t + ttl) (rule_key r) (rule_map dr)"
proof (cases "extend_entry r (t + ttl) (entries dr)")
  case None
  then have n: "rule_key r \<notin> dom (rule_map dr)"
    by (simp add: extend_entry_None dom_rule_map)
  then have "rule_map dr (rule_key r) = None" by blast
  then show ?thesis
    using None card_dom_rule_map [OF assms]
    by (auto simp: Add_def spec_add_def rule_map_def map_add_def fun_eq_iff split: option.splits)
next
  case (Some es)
  then have "rule_key r \<in> dom (rule_map dr)"
    using extend_entry_None [of r "t + ttl" "entries dr"] by (simp add: dom_rule_map)
  then show ?thesis
    using Some extend_entry_map [OF Some]
    by (auto simp: Add_def spec_add_def rule_map_def)
qed

lemma spec_sweep_upd:
  "k \<notin> dom m \<Longrightarrow>
   spec_sweep t (m(k \<mapsto> u)) = (if t \<le> u then (spec_sweep t m)(k \<mapsto> u) else spec_sweep t m)"
  by (rule ext) (auto simp: spec_sweep_def domIff)

lemma Sweep_refines:
  assumes "wf_dynamic dr"
  shows "rule_map (Sweep t dr) = spec_sweep t (rule_map dr)"
proof -
  have "distinct (map (\<lambda>e. rule_key (entry_rule e)) es) \<Longrightarrow>
    map_of (map (\<lambda>e. (rule_key (entry_rule e), expiresAt e)) (filter (unexpired t) es)) =
    spec_sweep t (map_of (map (\<lambda>e. (rule_key (entry_rule e), expiresAt e)) es))" for es
  proof (induction es)
    case (Cons e es)
    then have "rule_key (entry_rule e) \<notin>
        dom (map_of (map (\<lambda>e. (rule_key (entry_rule e), expiresAt e)) es))"
      by (simp add: dom_map_of_conv_image_fst image_image)
    then show ?case using Cons
      by (simp add: spec_sweep_upd [unfolded fun_upd_def] unexpired_def After_def not_less
          fun_upd_def)
  qed (simp add: spec_sweep_def)
  then show ?thesis
    using assms by (simp add: rule_map_def Sweep_eq wf_dynamic_def)
qed

section \<open>The verdict\<close>

text \<open>
  The reference semantics of the rule walk: the first match in the static rules followed by
  the unexpired dynamic rules.
\<close>

definition active_rules :: "time \<Rightarrow> Filter \<Rightarrow> Rule list" where
  "active_rules t f = filter_rules f @
     (case filter_dynamic f of None \<Rightarrow> [] | Some dr \<Rightarrow> map entry_rule (filter (unexpired t) (entries dr)))"

definition rule_verdict :: "time \<Rightarrow> Filter \<Rightarrow> Direction \<Rightarrow> PacketHeader \<Rightarrow> Action option" where
  "rule_verdict t f d h = first_match d h (active_rules t f)"

lemma rule_verdict_eq:
  "rule_verdict t f d h =
     (case first_match d h (filter_rules f) of
        Some a \<Rightarrow> Some a
      | None \<Rightarrow> filter_dynamic f \<bind> (\<lambda>dr. Match t dr d h))"
  by (simp add: rule_verdict_def active_rules_def first_match_append Match_eq split: option.splits)

lemma Verdict_eq:
  "Verdict t1 t2 t3 f d h =
     (let a = (if IsEstablished t1 (conntrack f) h then Some Allow else rule_verdict t2 f d h)
      in (case a of Some x \<Rightarrow> x | None \<Rightarrow> defaultAction f,
          if a = Some Allow then f\<lparr>conntrack := Track t3 (conntrack f) h\<rparr> else f))"
  by (auto simp: Verdict_def rule_verdict_eq track_if_allowed_def Let_def split: option.splits)

text \<open>
  A run of the filter: verdicts, expiry ticks, and additions to the shared dynamic rules.
\<close>

datatype fw_op =
  FwVerdict time time time Direction PacketHeader
| FwTick time time
| FwAdd time Rule duration

primrec fw_step :: "fw_op \<Rightarrow> Filter \<Rightarrow> Filter" where
  "fw_step (FwVerdict t1 t2 t3 d h) f = snd (Verdict t1 t2 t3 f d h)"
| "fw_step (FwTick t1 t2) f = expiry_tick t1 t2 f"
| "fw_step (FwAdd t r ttl) f =
     f\<lparr>filter_dynamic := map_option (\<lambda>dr. Add t dr r ttl) (filter_dynamic f)\<rparr>"

definition fw_run :: "fw_op list \<Rightarrow> Filter \<Rightarrow> Filter" where
  "fw_run ops f = fold fw_step ops f"

lemma fw_run_simps [simp]:
  "fw_run [] f = f" "fw_run (op # ops) f = fw_run ops (fw_step op f)"
  "fw_run (ops @ [op]) f = fw_step op (fw_run ops f)"
  by (simp_all add: fw_run_def)

lemma fw_step_static [simp]:
  "filter_rules (fw_step op f) = filter_rules f"
  "defaultAction (fw_step op f) = defaultAction f"
  by (cases op; simp add: Verdict_eq Let_def expiry_tick_def)+

lemma fw_run_static [simp]:
  "filter_rules (fw_run ops f) = filter_rules f"
  "defaultAction (fw_run ops f) = defaultAction f"
  by (induction ops arbitrary: f) simp_all

text \<open>A run has opened a flow when a rule allowed a packet of the flow, in either direction.\<close>

definition same_flow :: "PacketHeader \<Rightarrow> PacketHeader \<Rightarrow> bool" where
  "same_flow h h' \<longleftrightarrow> h' = h \<or> h' = reverse_hdr h"

definition opened_by_rule :: "fw_op list \<Rightarrow> Filter \<Rightarrow> Direction \<Rightarrow> PacketHeader \<Rightarrow> bool" where
  "opened_by_rule ops f d h \<longleftrightarrow>
     (\<exists>i < length ops. \<exists>t1 t2 t3. ops ! i = FwVerdict t1 t2 t3 d h \<and>
        rule_verdict t2 (fw_run (take i ops) f) d h = Some Allow)"

lemma opened_by_rule_snoc:
  "opened_by_rule (ops @ [op]) f d h \<longleftrightarrow> opened_by_rule ops f d h \<or>
     (\<exists>t1 t2 t3. op = FwVerdict t1 t2 t3 d h \<and> rule_verdict t2 (fw_run ops f) d h = Some Allow)"
  unfolding opened_by_rule_def
  by (auto simp: less_Suc_eq nth_append)

lemma same_flow_trans: "same_flow a b \<Longrightarrow> same_flow b c \<Longrightarrow> same_flow a c"
  by (auto simp: same_flow_def)

lemma same_flow_refl [simp]: "same_flow h h"
  by (simp add: same_flow_def)

lemma tracked_flows_opened:
  assumes "conntrack f = NewConnTracker"
    and "fmlookup (flows (conntrack (fw_run ops f))) (flow_key h) = Some u"
  shows "\<exists>d h'. same_flow h h' \<and> opened_by_rule ops f d h'"
  using assms(2)
proof (induction ops arbitrary: h u rule: rev_induct)
  case Nil
  then show ?case using assms(1) by (simp add: NewConnTracker_def)
next
  case (snoc op ops)
  let ?g = "fw_run ops f"
  have keep: "fmlookup (flows (conntrack ?g)) (flow_key h') = Some u' \<Longrightarrow> same_flow h h' \<Longrightarrow> ?case"
    for h' u'
    using snoc.IH [of h' u'] same_flow_trans unfolding opened_by_rule_snoc by blast
  show ?case
  proof (cases op)
    case (FwVerdict t1 t2 t3 d h0)
    show ?thesis
    proof (cases "h0 = h")
      case True
      show ?thesis
      proof (cases "IsEstablished t1 (conntrack ?g) h")
        case True
        then show ?thesis using keep [of "reverse_hdr h"] by (auto simp: IsEstablished_eq same_flow_def)
      next
        case False
        then show ?thesis
          using snoc.prems FwVerdict \<open>h0 = h\<close> keep [of h]
          by (auto simp: Verdict_eq Let_def opened_by_rule_snoc same_flow_def split: if_splits)
      qed
    next
      case False
      then show ?thesis
        using snoc.prems FwVerdict keep [of h]
        by (auto simp: Verdict_eq Let_def Track_def split: if_splits)
    qed
  next
    case (FwTick t1 t2)
    then show ?thesis using snoc.prems keep [of h]
      by (auto simp: expiry_tick_def flow_sweep_lookup split: option.splits if_splits)
  next
    case (FwAdd t r ttl)
    then show ?thesis using snoc.prems keep [of h] by auto
  qed
qed

lemma allowed_flow_opened:
  assumes "conntrack f = NewConnTracker" "defaultAction f = Deny"
    and "fst (Verdict t1 t2 t3 (fw_run ops f) d h) = Allow"
  shows "rule_verdict t2 (fw_run ops f) d h = Some Allow \<or>
    (\<exists>d' h'. same_flow h h' \<and> opened_by_rule ops f d' h')"
proof (cases "IsEstablished t1 (conntrack (fw_run ops f)) h")
  case True
  then show ?thesis
    using tracked_flows_opened [OF assms(1), of ops "reverse_hdr h"]
    by (auto simp: IsEstablished_eq same_flow_def)
next
  case False
  then show ?thesis
    using assms(2,3) by (auto simp: Verdict_eq Let_def split: option.splits)
qed

text \<open>
  A Deny default and no rule for a direction: a packet in that direction passes only on a flow
  that a rule of the other direction opened.
\<close>

definition no_rule_for :: "Direction \<Rightarrow> Filter \<Rightarrow> bool" where
  "no_rule_for d f \<longleftrightarrow> (\<forall>r \<in> set (filter_rules f). Rule_Direction r \<noteq> d) \<and>
     (\<forall>dr e. filter_dynamic f = Some dr \<longrightarrow> e \<in> set (entries dr) \<longrightarrow> Rule_Direction (entry_rule e) \<noteq> d)"

definition adds_other :: "Direction \<Rightarrow> fw_op \<Rightarrow> bool" where
  "adds_other d op \<longleftrightarrow> (case op of FwAdd t r ttl \<Rightarrow> Rule_Direction r \<noteq> d | _ \<Rightarrow> True)"

lemma Add_entries:
  "e \<in> set (entries (Add t dr r ttl)) \<Longrightarrow> entry_rule e \<in> entry_rule ` set (entries dr) \<or> entry_rule e = r"
proof (cases "extend_entry r (t + ttl) (entries dr)")
  case None
  assume "e \<in> set (entries (Add t dr r ttl))"
  with None show ?thesis by (auto simp: Add_def split: if_splits)
next
  case (Some es)
  assume "e \<in> set (entries (Add t dr r ttl))"
  with Some have "entry_rule e \<in> set (map entry_rule es)" by (simp add: Add_def)
  then show ?thesis using extend_entry_keys [OF Some] by auto
qed

lemma no_rule_for_step:
  assumes "no_rule_for d f" "adds_other d op"
  shows "no_rule_for d (fw_step op f)"
proof (cases op)
  case (FwVerdict t1 t2 t3 d' h)
  then show ?thesis using assms by (simp add: no_rule_for_def Verdict_eq Let_def)
next
  case (FwTick t1 t2)
  then show ?thesis using assms by (auto simp: no_rule_for_def expiry_tick_def Sweep_eq)
next
  case (FwAdd t r ttl)
  then show ?thesis
    using assms by (fastforce simp: no_rule_for_def adds_other_def dest: Add_entries)
qed

lemma no_rule_for_run:
  "no_rule_for d f \<Longrightarrow> \<forall>op \<in> set ops. adds_other d op \<Longrightarrow> no_rule_for d (fw_run ops f)"
  by (induction ops arbitrary: f) (simp_all add: no_rule_for_step)

lemma Matches_direction: "Matches r d h \<Longrightarrow> Rule_Direction r = d"
  by (simp add: Matches_def split: if_splits)

lemma no_rule_for_verdict: "no_rule_for d f \<Longrightarrow> rule_verdict t f d h = None"
  by (cases "filter_dynamic f")
    (auto simp: no_rule_for_def rule_verdict_def active_rules_def first_match_None
      dest!: Matches_direction)

lemma opened_other_direction:
  assumes "no_rule_for d f" "\<forall>op \<in> set ops. adds_other d op" "opened_by_rule ops f d' h"
  shows "d' \<noteq> d"
  using assms(3) no_rule_for_verdict no_rule_for_run [OF assms(1)] assms(2)
  unfolding opened_by_rule_def by (metis in_set_takeD option.distinct(1))

section \<open>Expiry is transparent\<close>

text \<open>Two filters that answer every question alike from instant \<open>t\<close> on.\<close>

definition agree_from :: "time \<Rightarrow> Filter \<Rightarrow> Filter \<Rightarrow> bool" where
  "agree_from t f g \<longleftrightarrow>
     filter_rules f = filter_rules g \<and> defaultAction f = defaultAction g \<and>
     (\<forall>u \<ge> t. \<forall>h. IsEstablished u (conntrack f) h = IsEstablished u (conntrack g) h) \<and>
     (\<forall>u \<ge> t. \<forall>d h. rule_verdict u f d h = rule_verdict u g d h)"

lemma agree_from_refl [simp]: "agree_from t f f"
  by (simp add: agree_from_def)

lemma agree_from_later: "agree_from t f g \<Longrightarrow> t \<le> u \<Longrightarrow> agree_from u f g"
  by (simp add: agree_from_def)

lemma rule_verdict_conntrack [simp]:
  "rule_verdict t (f\<lparr>conntrack := c\<rparr>) d h = rule_verdict t f d h"
  by (simp add: rule_verdict_def active_rules_def)

lemma rule_verdict_Sweep:
  assumes "t \<le> u"
  shows "rule_verdict u (f\<lparr>conntrack := c, filter_dynamic := map_option (Sweep t) (filter_dynamic f)\<rparr>) d h =
    rule_verdict u f d h"
  using dyn.query_sweep [OF assms, of _ "(d, h)"]
  by (auto simp: rule_verdict_eq split: option.splits bind_split)

lemma agree_from_tick:
  assumes "agree_from t f g" "t1 \<le> t" "t2 \<le> t"
  shows "agree_from t (expiry_tick t1 t2 f) g"
  using assms ct.query_sweep [of t1] rule_verdict_Sweep [of t2]
  by (auto simp: agree_from_def expiry_tick_def)

lemma agree_from_Verdict:
  assumes "agree_from t f g" "t \<le> t1" "t \<le> t2"
  shows "fst (Verdict t1 t2 t3 f d h) = fst (Verdict t1 t2 t3 g d h) \<and>
    agree_from t (snd (Verdict t1 t2 t3 f d h)) (snd (Verdict t1 t2 t3 g d h))"
  using assms by (auto simp: agree_from_def Verdict_eq Let_def ct.query_track split: option.splits)

text \<open>The verdicts given during a run.\<close>

fun fw_verdicts :: "fw_op list \<Rightarrow> Filter \<Rightarrow> Action list" where
  "fw_verdicts [] f = []"
| "fw_verdicts (FwVerdict t1 t2 t3 d h # ops) f =
     fst (Verdict t1 t2 t3 f d h) # fw_verdicts ops (snd (Verdict t1 t2 t3 f d h))"
| "fw_verdicts (FwTick t1 t2 # ops) f = fw_verdicts ops (expiry_tick t1 t2 f)"
| "fw_verdicts (FwAdd t r ttl # ops) f = fw_verdicts ops (fw_step (FwAdd t r ttl) f)"

primrec reads :: "fw_op \<Rightarrow> time list" where
  "reads (FwVerdict t1 t2 t3 d h) = [t1, t2, t3]"
| "reads (FwTick t1 t2) = [t1, t2]"
| "reads (FwAdd t r ttl) = [t]"

primrec is_tick :: "fw_op \<Rightarrow> bool" where
  "is_tick (FwVerdict t1 t2 t3 d h) = False"
| "is_tick (FwTick t1 t2) = True"
| "is_tick (FwAdd t r ttl) = False"

primrec is_add :: "fw_op \<Rightarrow> bool" where
  "is_add (FwVerdict t1 t2 t3 d h) = False"
| "is_add (FwTick t1 t2) = False"
| "is_add (FwAdd t r ttl) = True"

definition clock_monotone :: "fw_op list \<Rightarrow> bool" where
  "clock_monotone ops \<longleftrightarrow> sorted (concat (map reads ops))"

lemma verdicts_without_ticks:
  assumes "clock_monotone ops" "\<forall>op \<in> set ops. \<not> is_add op"
    and "agree_from t f g" "\<forall>op \<in> set ops. \<forall>u \<in> set (reads op). t \<le> u"
  shows "fw_verdicts ops f = fw_verdicts (filter (\<lambda>op. \<not> is_tick op) ops) g"
  using assms
proof (induction ops arbitrary: f g t)
  case (Cons op ops)
  have mono: "clock_monotone ops"
    and after: "\<forall>u \<in> set (reads op). \<forall>op' \<in> set ops. \<forall>v \<in> set (reads op'). u \<le> v"
    using Cons.prems(1) by (auto simp: clock_monotone_def sorted_append)
  show ?case
  proof (cases op)
    case (FwVerdict t1 t2 t3 d h)
    then have "fst (Verdict t1 t2 t3 f d h) = fst (Verdict t1 t2 t3 g d h)"
      "agree_from t (snd (Verdict t1 t2 t3 f d h)) (snd (Verdict t1 t2 t3 g d h))"
      using agree_from_Verdict [OF Cons.prems(3)] Cons.prems(4) by auto
    then show ?thesis using FwVerdict Cons.IH [OF mono] Cons.prems(2,4) by simp
  next
    case (FwTick t1 t2)
    let ?u = "max t2 t1"
    have "t \<le> ?u" "\<forall>op' \<in> set ops. \<forall>v \<in> set (reads op'). ?u \<le> v"
      using FwTick Cons.prems(4) after by auto
    moreover from this(1) have "agree_from ?u (expiry_tick t1 t2 f) g"
      using agree_from_tick agree_from_later [OF Cons.prems(3)] by simp
    ultimately show ?thesis using FwTick Cons.IH [OF mono] Cons.prems(2) by simp
  next
    case (FwAdd t r ttl)
    then show ?thesis using Cons.prems(2) by simp
  qed
qed simp

section \<open>Properties\<close>

text \<open>A TCP connection from the guest, a rule that allows it, and a run in which it is opened.\<close>

definition sample_tcp :: PacketHeader where
  "sample_tcp = \<lparr>SrcIP = (192, 168, 127, 2), DstIP = (93, 184, 216, 34), Protocol = 6,
     SrcPort = 40000, DstPort = 443\<rparr>"

definition sample_rule :: Rule where
  "sample_rule = zero_rule\<lparr>Rule_Direction := Egress, Rule_Protocol := 6,
     Rule_DstCIDR := host_net (93, 184, 216, 34), Rule_DstPort := 443\<rparr>"

definition sample_run :: "fw_op list" where
  "sample_run = [FwVerdict 0 0 0 Egress sample_tcp, FwTick 5 5]"

lemma sample_rule_matches: "Matches sample_rule Egress sample_tcp"
  by (simp add: Matches_def sample_rule_def sample_tcp_def zero_rule_def cidrMatchesIP_host)

lemma sample_run_reply:
  "fst (Verdict 7 7 7 (fw_run sample_run (NewFilterWithDynamic [sample_rule] Deny None)) Ingress
     (reverse_hdr sample_tcp)) = Allow"
proof -
  have "live (Protocol sample_tcp) 5" "live (Protocol sample_tcp) 7"
    by (simp_all add: live_def flowTTL_def sample_tcp_def tcpFlowTTL_def minute_def second_def)
  moreover have "Rule_Action sample_rule = Allow" by (simp add: sample_rule_def zero_rule_def)
  ultimately show ?thesis
    by (simp add: sample_run_def Verdict_eq Let_def NewFilterWithDynamic_def rule_verdict_def
        active_rules_def sample_rule_matches ct.query_empty ct.query_track ct.query_sweep
        expiry_tick_def)
qed

lemma sample_no_ingress:
  "no_rule_for Ingress (NewFilterWithDynamic [sample_rule] Deny None)"
  "\<forall>op \<in> set sample_run. adds_other Ingress op"
  by (simp_all add: no_rule_for_def NewFilterWithDynamic_def sample_rule_def adds_other_def
      sample_run_def)

text \<open>
  C11. A filter with a Deny default opens nothing on its own. After any run of verdicts,
  expiry ticks and additions of dynamic rules from a new filter, a packet that is allowed
  either matches an Allow rule as its first match, or belongs to a flow (in one direction or
  the other) for which an earlier packet of the run was allowed by a rule.
\<close>

theorem Verdict_only_opened_flows:
  assumes "f = NewFilterWithDynamic rules Deny dr"
    and "fst (Verdict t1 t2 t3 (fw_run ops f) d h) = Allow"
  shows "rule_verdict t2 (fw_run ops f) d h = Some Allow \<or>
    (\<exists>d' h'. same_flow h h' \<and> opened_by_rule ops f d' h')"
  by (rule allowed_flow_opened)
    (use assms in \<open>simp_all add: NewFilterWithDynamic_def\<close>)

theorem Verdict_only_opened_flows_witness:
  "\<exists>d' h'. same_flow (reverse_hdr sample_tcp) h' \<and>
     opened_by_rule sample_run (NewFilterWithDynamic [sample_rule] Deny None) d' h'"
  using Verdict_only_opened_flows [OF refl sample_run_reply]
    no_rule_for_verdict [OF no_rule_for_run [OF sample_no_ingress]]
  by auto



text \<open>
  Connection tracking answers from history alone: after any sequence of tracks and
  sweeps, in any order, with clock readings up to \<open>t\<close>, a packet counts as established at
  \<open>t\<close> exactly when the last time its reverse flow was tracked is no older than the TTL of
  its protocol (five minutes for TCP, thirty seconds otherwise).
\<close>

theorem IsEstablished_history:
  assumes "\<forall>op \<in> set ops. op_time op \<le> t"
  shows "IsEstablished t (fold (apply_op Track flow_sweep) ops NewConnTracker) h \<longleftrightarrow>
    (\<exists>u. last_track ops (reverse_hdr h) = Some u \<and>
       t - u \<le> (if Protocol h = 6 then 300 * second else 30 * second))"
  using ct.query_history [OF assms]
  by (auto simp: live_def flowTTL_def tcpFlowTTL_def defaultFlowTTL_def minute_def)

theorem IsEstablished_history_witness:
  "IsEstablished (31 * second)
     (fold (apply_op Track flow_sweep) [OpTrack 0 sample_tcp, OpSweep (30 * second)] NewConnTracker)
     (reverse_hdr sample_tcp)"
  using IsEstablished_history [of "[OpTrack 0 sample_tcp, OpSweep (30 * second)]" "31 * second"
      "reverse_hdr sample_tcp"]
  by (simp add: second_def sample_tcp_def)

text \<open>
  The background expiry goroutine is invisible: with a clock that does not run
  backwards, the verdicts of a run are the verdicts of the same run with every expiry tick
  removed.
\<close>

theorem expiry_transparent:
  assumes "clock_monotone ops" "\<forall>op \<in> set ops. \<not> is_add op"
  shows "fw_verdicts ops f = fw_verdicts (filter (\<lambda>op. \<not> is_tick op) ops) f"
proof -
  let ?ts = "concat (map reads ops)"
  have "\<forall>op \<in> set ops. \<forall>u \<in> set (reads op). Min (insert 0 (set ?ts)) \<le> u"
    by (auto intro!: Min_le)
  then show ?thesis by (rule verdicts_without_ticks [OF assms agree_from_refl])
qed

theorem expiry_transparent_witness:
  "fw_verdicts
     [FwVerdict 0 0 0 Egress sample_tcp, FwTick 5 5, FwVerdict 6 7 8 Ingress (reverse_hdr sample_tcp)]
     (NewFilter [sample_rule] Deny) =
   fw_verdicts
     [FwVerdict 0 0 0 Egress sample_tcp, FwVerdict 6 7 8 Ingress (reverse_hdr sample_tcp)]
     (NewFilter [sample_rule] Deny)"
  using expiry_transparent [of "[FwVerdict 0 0 0 Egress sample_tcp, FwTick 5 5,
      FwVerdict 6 7 8 Ingress (reverse_hdr sample_tcp)]"]
  by (simp add: clock_monotone_def)

text \<open>
  The dynamic rule list with its linear search and its in-place compaction implements a
  bounded map from rule keys to expiry instants: \<open>Add\<close> extends the expiry of a known key
  and never shortens it, inserts an unknown key only below the capacity, \<open>Sweep\<close> keeps
  exactly the keys that have not expired, and both keep the keys unique and the number of
  entries within the capacity.
\<close>

theorem DynamicRules_refines_bounded_map:
  assumes "wf_dynamic dr"
  shows "rule_map (Add t dr r ttl) = spec_add (maxRules dr) (t + ttl) (rule_key r) (rule_map dr) \<and>
    rule_map (Sweep t dr) = spec_sweep t (rule_map dr) \<and>
    wf_dynamic (Add t dr r ttl) \<and> wf_dynamic (Sweep t dr) \<and>
    DynamicRules_Len dr = card (dom (rule_map dr))"
  using assms
  by (simp add: Add_refines Sweep_refines Add_wf Sweep_wf card_dom_rule_map DynamicRules_Len_def)

theorem DynamicRules_refines_bounded_map_witness:
  "rule_map (Add 10 NewDynamicRules sample_rule 20) =
     spec_add 10000 30 (rule_key sample_rule) (rule_map NewDynamicRules)"
  using DynamicRules_refines_bounded_map [OF wf_NewDynamicRules, of 10 sample_rule 20]
  by (simp add: NewDynamicRules_def defaultMaxDynamicRules_def)

text \<open>
  \<open>Add\<close> recognises a rule by direction, protocol, destination address, destination
  port and action only: adding a rule for a whole /8 after one for the network's /32 address
  leaves the /8 out, although the two rules are not identical.
\<close>

theorem Add_ignores_mask:
  "\<exists>narrow wide. narrow \<noteq> wide \<and> IPNet_Mask (Rule_DstCIDR wide) = CIDRMask32 8 \<and>
     Add 0 (Add 0 NewDynamicRules narrow 60) wide 60 = Add 0 NewDynamicRules narrow 60 \<and>
     Matches wide Egress sample_tcp \<and>
     Match 1 (Add 0 (Add 0 NewDynamicRules narrow 60) wide 60) Egress sample_tcp = None"
proof -
  let ?narrow = "sample_rule\<lparr>Rule_DstCIDR := host_net (93, 0, 0, 0)\<rparr>"
  let ?wide = "?narrow\<lparr>Rule_DstCIDR := \<lparr>IPNet_IP = [93, 0, 0, 0], IPNet_Mask = CIDRMask32 8\<rparr>\<rparr>"
  have mask: "CIDRMask32 8 = [0xFF, 0, 0, 0]"
    by (simp add: CIDRMask32_def cidr_byte_def upt_rec)
  have same: "same_rule ?narrow ?wide"
    by (simp add: same_rule_def host_net_def)
  have "?narrow \<noteq> ?wide"
    by (simp add: sample_rule_def zero_rule_def host_net_def mask CIDRMask32_32)
  moreover have "Matches ?wide Egress sample_tcp"
    by (simp add: Matches_def sample_rule_def sample_tcp_def zero_rule_def mask cidrMatchesIP_v4)
  moreover have "\<not> Matches ?narrow Egress sample_tcp"
    by (simp add: Matches_def sample_rule_def sample_tcp_def zero_rule_def cidrMatchesIP_host)
  moreover have "Add 0 (Add 0 NewDynamicRules ?narrow 60) ?wide 60 = Add 0 NewDynamicRules ?narrow 60"
    using same by (simp add: Add_def NewDynamicRules_def After_def defaultMaxDynamicRules_def)
  ultimately show ?thesis
    by (intro exI [of _ ?narrow] exI [of _ ?wide])
      (simp add: Match_def Add_def NewDynamicRules_def defaultMaxDynamicRules_def)
qed

end
