(* ===== verification/GoStrings.thy ===== *)
theory GoStrings
  imports Prelude
begin

text \<open>
  The operations of package \<^verbatim>\<open>strings\<close> and package \<^verbatim>\<open>strconv\<close> that the sources
  use, on strings of bytes (\<open>string\<close>). Case conversion is that of ASCII; the sources
  apply it to host names.
\<close>

section \<open>Definitions\<close>

definition HasPrefix :: "string \<Rightarrow> string \<Rightarrow> bool" where
  "HasPrefix s p \<longleftrightarrow> take (length p) s = p"

definition HasSuffix :: "string \<Rightarrow> string \<Rightarrow> bool" where
  "HasSuffix s p \<longleftrightarrow> length p \<le> length s \<and> drop (length s - length p) s = p"

definition TrimPrefix :: "string \<Rightarrow> string \<Rightarrow> string" where
  "TrimPrefix s p = (if HasPrefix s p then drop (length p) s else s)"

definition TrimSuffix :: "string \<Rightarrow> string \<Rightarrow> string" where
  "TrimSuffix s p = (if HasSuffix s p then take (length s - length p) s else s)"

definition char_lower :: "char \<Rightarrow> char" where
  "char_lower c = (let n = of_char c :: nat in if 65 \<le> n \<and> n \<le> 90 then char_of (n + 32) else c)"

definition ToLower :: "string \<Rightarrow> string" where
  "ToLower s = map char_lower s"

text \<open>\<^verbatim>\<open>strings.Split(s, sep)\<close> for a separator of one byte; at least one part.\<close>

fun split_at :: "char \<Rightarrow> string \<Rightarrow> string list" where
  "split_at c [] = [[]]"
| "split_at c (x # xs) =
     (if x = c then [] # split_at c xs
      else case split_at c xs of [] \<Rightarrow> [[x]] | p # ps \<Rightarrow> (x # p) # ps)"

fun join_with :: "char \<Rightarrow> string list \<Rightarrow> string" where
  "join_with c [] = []"
| "join_with c [p] = p"
| "join_with c (p # q # ps) = p @ c # join_with c (q # ps)"

text \<open>\<^verbatim>\<open>strings.Cut(s, sep)\<close> for a separator of one byte.\<close>

fun cut_at :: "char \<Rightarrow> string \<Rightarrow> (string \<times> string) option" where
  "cut_at c [] = None"
| "cut_at c (x # xs) =
     (if x = c then Some ([], xs) else map_option (map_prod ((#) x) id) (cut_at c xs))"

text \<open>White space of ASCII, \<^verbatim>\<open>strings.TrimSpace\<close> and \<^verbatim>\<open>strings.Fields\<close>.\<close>

definition is_space :: "char \<Rightarrow> bool" where
  "is_space c \<longleftrightarrow> (of_char c :: nat) \<in> {9, 10, 11, 12, 13, 32}"

definition TrimSpace :: "string \<Rightarrow> string" where
  "TrimSpace s = rev (dropWhile is_space (rev (dropWhile is_space s)))"

fun decimal :: "nat \<Rightarrow> string" where
  "decimal n = (if n < 10 then [char_of (48 + n)] else decimal (n div 10) @ [char_of (48 + n mod 10)])"

definition decimal_int :: "int \<Rightarrow> string" where
  "decimal_int i = (if i < 0 then CHR ''-'' # decimal (nat (- i)) else decimal (nat i))"

definition digit :: "char \<Rightarrow> bool" where
  "digit c \<longleftrightarrow> (let n = of_char c :: nat in 48 \<le> n \<and> n \<le> 57)"

text \<open>\<^verbatim>\<open>strconv.Atoi\<close> on 64-bit integers.\<close>

definition digits_value :: "string \<Rightarrow> int" where
  "digits_value s = fold (\<lambda>ch n. 10 * n + (int (of_char ch) - 48)) s 0"

definition Atoi :: "string \<Rightarrow> int option" where
  "Atoi s =
     (let neg = HasPrefix s ''-'';
          ds = (if neg \<or> HasPrefix s ''+'' then drop 1 s else s);
          n = (if neg then - digits_value ds else digits_value ds)
      in if ds = [] \<or> list_ex (\<lambda>ch. \<not> digit ch) ds \<or> n < - (2 ^ 63) \<or> 2 ^ 63 \<le> n then None else Some n)"

text \<open>On strings of ASCII characters.\<close>

function Fields :: "string \<Rightarrow> string list" where
  "Fields s =
     (let s = dropWhile is_space s
      in if s = [] then [] else takeWhile (\<lambda>c. \<not> is_space c) s # Fields (dropWhile (\<lambda>c. \<not> is_space c) s))"
  by pat_completeness auto
termination
proof (relation "measure length", goal_cases)
  case (2 s x)
  then have "\<not> is_space (hd x)" by (metis hd_dropWhile)
  then have "length (dropWhile (\<lambda>c. \<not> is_space c) x) < length x"
    using 2(2) by (cases x) (auto intro: le_less_trans [OF length_dropWhile_le])
  then show ?case using 2(1) length_dropWhile_le [of is_space s] by simp
qed simp

declare Fields.simps [simp del]

section \<open>Lemmas\<close>

lemma HasPrefix_append [simp]: "HasPrefix (p @ s) p"
  by (simp add: HasPrefix_def)

lemma HasPrefix_iff: "HasPrefix s p \<longleftrightarrow> (\<exists>t. s = p @ t)"
  unfolding HasPrefix_def by (metis append_eq_conv_conj append_take_drop_id)

lemma HasSuffix_append [simp]: "HasSuffix (s @ p) p"
  by (simp add: HasSuffix_def)

lemma HasSuffix_iff: "HasSuffix s p \<longleftrightarrow> (\<exists>t. s = t @ p)"
proof
  assume "HasSuffix s p"
  then have "s = take (length s - length p) s @ p"
    unfolding HasSuffix_def by (metis append_take_drop_id)
  then show "\<exists>t. s = t @ p" ..
qed auto

lemma TrimPrefix_append [simp]: "TrimPrefix (p @ s) p = s"
  by (simp add: TrimPrefix_def)

lemma TrimSuffix_append [simp]: "TrimSuffix (s @ p) p = s"
  by (simp add: TrimSuffix_def)

lemma TrimSuffix_no_suffix: "\<not> HasSuffix s p \<Longrightarrow> TrimSuffix s p = s"
  by (simp add: TrimSuffix_def)

lemma char_lower_idem [simp]: "char_lower (char_lower c) = char_lower c"
  by (auto simp: char_lower_def Let_def)

lemma ToLower_idem [simp]: "ToLower (ToLower s) = ToLower s"
  by (simp add: ToLower_def comp_def)

lemma length_ToLower [simp]: "length (ToLower s) = length s"
  by (simp add: ToLower_def)

lemma ToLower_append [simp]: "ToLower (s @ t) = ToLower s @ ToLower t"
  by (simp add: ToLower_def)

lemma char_lower_dot: "char_lower c = CHR ''.'' \<longleftrightarrow> c = CHR ''.''"
proof
  assume l: "char_lower c = CHR ''.''"
  show "c = CHR ''.''"
  proof (rule ccontr)
    assume "c \<noteq> CHR ''.''"
    with l have "65 \<le> (of_char c :: nat)" "char_of (of_char c + 32 :: nat) = CHR ''.''"
      "(of_char c :: nat) \<le> 90"
      by (auto simp: char_lower_def Let_def split: if_splits)
    then have "of_char (char_of (of_char c + 32 :: nat)) = (46 :: nat)" by simp
    then show False using \<open>65 \<le> (of_char c :: nat)\<close> \<open>(of_char c :: nat) \<le> 90\<close> by simp
  qed
qed (simp add: char_lower_def)

lemma HasSuffix_dot_ToLower: "HasSuffix (ToLower s) ''.'' \<longleftrightarrow> HasSuffix s ''.''"
proof (cases s rule: rev_cases)
  case (snoc t c)
  have "ToLower [c] = [char_lower c]" by (simp add: ToLower_def)
  then show ?thesis
    by (auto simp: snoc HasSuffix_iff char_lower_dot)
qed (simp add: ToLower_def)

lemma TrimSuffix_dot_ToLower: "TrimSuffix (ToLower s) ''.'' = ToLower (TrimSuffix s ''.'')"
  by (simp add: TrimSuffix_def HasSuffix_dot_ToLower) (simp add: ToLower_def take_map)

lemma split_at_nonempty [simp]: "split_at c s \<noteq> []"
  by (induction s) (auto split: list.splits)

lemma split_at_no_sep: "c \<notin> set s \<Longrightarrow> split_at c s = [s]"
  by (induction s) auto

lemma split_at_app: "split_at c (s @ c # t) = split_at c s @ split_at c t"
proof (induction s)
  case (Cons x s)
  then show ?case by (cases "split_at c s") auto
qed simp

lemma join_split [simp]: "join_with c (split_at c s) = s"
proof (induction s)
  case (Cons x s)
  then show ?case by (cases "split_at c s"; cases "tl (split_at c s)") auto
qed simp

lemma join_with_append:
  "ps \<noteq> [] \<Longrightarrow> qs \<noteq> [] \<Longrightarrow> join_with c (ps @ qs) = join_with c ps @ c # join_with c qs"
proof (induction c ps rule: join_with.induct)
  case (2 c p)
  then show ?case by (cases qs) auto
qed auto

lemma split_at_parts: "p \<in> set (split_at c s) \<Longrightarrow> c \<notin> set p"
proof (induction s arbitrary: p)
  case (Cons x s)
  then show ?case by (cases "split_at c s") (auto split: if_splits)
qed simp

lemma split_join: "ps \<noteq> [] \<Longrightarrow> \<forall>p \<in> set ps. c \<notin> set p \<Longrightarrow> split_at c (join_with c ps) = ps"
  by (induction c ps rule: join_with.induct) (simp_all add: split_at_app split_at_no_sep)

lemma cut_at_None: "cut_at c s = None \<longleftrightarrow> c \<notin> set s"
  by (induction s) auto

lemma cut_at_app: "c \<notin> set s \<Longrightarrow> cut_at c (s @ c # t) = Some (s, t)"
  by (induction s) auto

lemma cut_at_Some: "cut_at c s = Some (a, b) \<Longrightarrow> s = a @ c # b \<and> c \<notin> set a"
  by (induction s arbitrary: a) (auto split: if_splits)

lemma digits_value_snoc: "digits_value (s @ [c]) = 10 * digits_value s + (int (of_char c) - 48)"
  by (simp add: digits_value_def)

lemma of_char_digit: "d < 10 \<Longrightarrow> of_char (char_of (48 + d) :: char) = (48 + d :: nat)"
  by simp

lemma decimal_digits: "list_all digit (decimal n) \<and> decimal n \<noteq> [] \<and> digits_value (decimal n) = int n"
proof (induction n rule: decimal.induct)
  case (1 n)
  show ?case
  proof (cases "n < 10")
    case True
    then show ?thesis by (simp add: digit_def digits_value_def)
  next
    case False
    have m: "n mod 10 < 10" by simp
    have "int n = 10 * int (n div 10) + int (n mod 10)" by (metis mult_div_mod_eq of_nat_add of_nat_mult of_nat_numeral)
    with False 1 m show ?thesis by (simp add: digit_def digits_value_snoc)
  qed
qed

lemma Atoi_decimal_int:
  assumes "- (2 ^ 63) \<le> i" "i < 2 ^ 63"
  shows "Atoi (decimal_int i) = Some i"
proof -
  have d: "list_all digit (decimal n)" "decimal n \<noteq> []" "digits_value (decimal n) = int n" for n
    by (simp_all add: decimal_digits del: decimal.simps)
  have "\<not> digit (CHR ''-'')" "\<not> digit (CHR ''+'')" by code_simp+
  then have h: "\<not> HasPrefix (decimal n) ''-''" "\<not> HasPrefix (decimal n) ''+''" for n
    using d(1,2) [of n] by (cases "decimal n"; auto simp: HasPrefix_def simp del: decimal.simps)+
  have x: "\<not> list_ex (\<lambda>ch. \<not> digit ch) (decimal n)" for n
    using d(1) [of n] by (simp add: list_ex_iff list_all_iff del: decimal.simps)
  show ?thesis
  proof (cases "i < 0")
    case True
    then show ?thesis using assms d x
      by (simp add: Atoi_def decimal_int_def HasPrefix_def del: decimal.simps)
  next
    case False
    then show ?thesis using assms d x h
      by (simp add: Atoi_def decimal_int_def del: decimal.simps)
  qed
qed

lemma digit_not_space: "digit c \<Longrightarrow> \<not> is_space c"
  by (auto simp: digit_def is_space_def Let_def)

lemma decimal_int_not_space: "c \<in> set (decimal_int i) \<Longrightarrow> \<not> is_space c"
proof -
  assume "c \<in> set (decimal_int i)"
  moreover have "\<not> is_space (CHR ''-'')" by code_simp
  ultimately show ?thesis
    using decimal_digits digit_not_space by (auto simp: decimal_int_def list_all_iff simp del: decimal.simps split: if_splits)
qed

lemma decimal_int_nonempty: "decimal_int i \<noteq> []"
  using decimal_digits by (simp add: decimal_int_def del: decimal.simps)

lemma TrimSpace_line_word:
  assumes "w \<noteq> []" "\<forall>c \<in> set w. \<not> is_space c"
  shows "TrimSpace (w @ [CHR 0x0A]) = w"
proof -
  have n: "is_space (CHR 0x0A)" by code_simp
  have "dropWhile is_space (w @ xs) = w @ xs" for xs using assms by (cases w) auto
  moreover have "dropWhile is_space (rev w) = rev w" using assms by (cases w rule: rev_cases) auto
  ultimately show ?thesis using n by (simp add: TrimSpace_def)
qed

lemma Fields_Nil [simp]: "Fields [] = []"
  by (subst Fields.simps) simp

lemma Fields_trim: "dropWhile is_space s = dropWhile is_space t \<Longrightarrow> Fields s = Fields t"
  by (subst Fields.simps, subst Fields.simps [of t]) simp

lemma Fields_word:
  assumes "w \<noteq> []" "\<forall>c \<in> set w. \<not> is_space c" "xs = [] \<or> is_space (hd xs)"
  shows "Fields (w @ xs) = w # Fields xs"
proof -
  have "dropWhile is_space (w @ xs) = w @ xs" using assms(1,2) by (cases w) auto
  moreover have "takeWhile (\<lambda>c. \<not> is_space c) (w @ xs) = w" "dropWhile (\<lambda>c. \<not> is_space c) (w @ xs) = xs"
    using assms by (cases xs; auto simp: takeWhile_append dropWhile_append)+
  ultimately show ?thesis using assms(1) by (subst Fields.simps) (simp add: Let_def)
qed

lemma Fields_two:
  assumes "a \<noteq> []" "b \<noteq> []" "\<forall>c \<in> set (a @ b). \<not> is_space c"
  shows "Fields (a @ '' '' @ b) = [a, b]"
proof -
  have sp: "is_space (CHR '' '')" by code_simp
  have "Fields (a @ '' '' @ b) = a # Fields ('' '' @ b)" using assms sp by (intro Fields_word) auto
  also have "Fields ('' '' @ b) = Fields b" using sp by (intro Fields_trim) simp
  also have "Fields b = [b]" using Fields_word [of b "[]"] assms by simp
  finally show ?thesis .
qed

end
