(* ===== verification/Egress.thy ===== *)
theory Egress
  imports Firewall GoStrings
begin

text \<open>
  The DNS-based egress policy of \<^verbatim>\<open>net/egress\<close>: the host allowlist
  (\<^verbatim>\<open>policy.go\<close>, \<^verbatim>\<open>profiles.go\<close>), the DNS message handling
  (\<^verbatim>\<open>dns.go\<close>) and the interceptor (\<^verbatim>\<open>interceptor.go\<close>).

  The wire format of DNS is that of the library \<^verbatim>\<open>github.com/miekg/dns\<close>:
  its \<^verbatim>\<open>Msg.Unpack\<close> and \<^verbatim>\<open>Msg.Pack\<close> are the parameters \<open>unpack\<close> and
  \<open>pack\<close> of the definitions that use them.
\<close>

section \<open>policy.go\<close>

record hostEntry =
  wildcard :: bool
  he_suffix :: string
  exact :: string
  he_ports :: "u16 list"
  he_protocol :: u8

record Policy =
  policy_hosts :: "hostEntry list"

record HostSpec =
  Name :: string
  Ports :: "u16 list"
  HostSpec_Protocol :: u8

definition normal_name :: "string \<Rightarrow> string" where
  "normal_name s = ToLower (TrimSuffix s ''.'')"

definition hostEntry_of :: "HostSpec \<Rightarrow> hostEntry" where
  "hostEntry_of h =
     (let name = normal_name (Name h);
          e = \<lparr>wildcard = False, he_suffix = [], exact = [], he_ports = Ports h,
               he_protocol = HostSpec_Protocol h\<rparr>
      in if HasPrefix name ''**.'' then e\<lparr>wildcard := True, he_suffix := drop 2 name\<rparr>
         else if HasPrefix name ''*.'' then e\<lparr>wildcard := True, he_suffix := drop 1 name\<rparr>
         else e\<lparr>exact := name\<rparr>)"

definition NewPolicy :: "HostSpec list \<Rightarrow> Policy" where
  "NewPolicy hosts = \<lparr>policy_hosts = map hostEntry_of hosts\<rparr>"

definition entry_admits :: "hostEntry \<Rightarrow> string \<Rightarrow> bool" where
  "entry_admits e name =
     (if wildcard e then HasSuffix name (he_suffix e) \<and> length (he_suffix e) < length name
      else name = exact e)"

definition matchHost :: "Policy \<Rightarrow> string \<Rightarrow> hostEntry option" where
  "matchHost p name = find (\<lambda>e. entry_admits e (normal_name name)) (policy_hosts p)"

definition IsAllowed :: "Policy \<Rightarrow> string \<Rightarrow> bool" where
  "IsAllowed p name \<longleftrightarrow> matchHost p name \<noteq> None"

definition HostPorts :: "Policy \<Rightarrow> string \<Rightarrow> u16 list \<times> u8" where
  "HostPorts p name =
     (case matchHost p name of None \<Rightarrow> ([], 0) | Some e \<Rightarrow> (he_ports e, he_protocol e))"

section \<open>profiles.go\<close>

definition named_host :: "string \<Rightarrow> HostSpec" where
  "named_host n = \<lparr>Name = n, Ports = [], HostSpec_Protocol = 0\<rparr>"

definition Permissive :: "HostSpec list" where
  "Permissive = []"

definition standard_base :: "HostSpec list" where
  "standard_base = map named_host
     [''*.github.com'', ''github.com'', ''*.githubusercontent.com'', ''*.npmjs.org'',
      ''registry.npmjs.org'', ''*.pypi.org'', ''pypi.org'', ''files.pythonhosted.org'',
      ''proxy.golang.org'', ''sum.golang.org'', ''*.docker.io'', ''docker.io'',
      ''*.docker.com'', ''crates.io'', ''*.crates.io'', ''static.crates.io'']"

definition Standard :: "HostSpec list \<Rightarrow> HostSpec list" where
  "Standard additional =
     snd (fold (\<lambda>h (seen, base).
       if Name h \<in> seen then (seen, base) else (insert (Name h) seen, base @ [h]))
       additional (set (map Name standard_base), standard_base))"

definition Locked :: "HostSpec list \<Rightarrow> HostSpec list" where
  "Locked hosts = hosts"

section \<open>dns.go\<close>

record dns_question =
  q_Name :: string
  q_Qtype :: u16
  q_Qclass :: u16

datatype dns_rr =
  RR_A string u32 bytes
| RR_CNAME string u32 string
| RR_other string u32

record dns_msg =
  msg_Id :: u16
  msg_Response :: bool
  msg_Authoritative :: bool
  msg_RecursionDesired :: bool
  msg_RecursionAvailable :: bool
  msg_Rcode :: nat
  msg_Question :: "dns_question list"
  msg_Answer :: "dns_rr list"

type_synonym unpack = "bytes \<Rightarrow> dns_msg option"
type_synonym pack = "dns_msg \<Rightarrow> bytes option"

datatype dns_error = UnpackFailed | NoQuestion | ManyQuestions nat | PackFailed

definition normalizeDNSName :: "string \<Rightarrow> string" where
  "normalizeDNSName s = TrimSuffix (ToLower s) ''.''"

definition ParseDNSQuery :: "unpack \<Rightarrow> bytes \<Rightarrow> dns_error + u16 \<times> string \<times> u16" where
  "ParseDNSQuery unpack payload =
     (case unpack payload of
        None \<Rightarrow> Inl UnpackFailed
      | Some msg \<Rightarrow>
          (case msg_Question msg of
             [] \<Rightarrow> Inl NoQuestion
           | [q] \<Rightarrow> Inr (msg_Id msg, q_Name q, q_Qtype q)
           | qs \<Rightarrow> Inl (ManyQuestions (length qs))))"

definition ClassINET :: u16 where "ClassINET = 1"
definition RcodeNameError :: nat where "RcodeNameError = 3"

definition nxdomain_msg :: "u16 \<Rightarrow> string \<Rightarrow> u16 \<Rightarrow> dns_msg" where
  "nxdomain_msg txnID qname qtype =
     \<lparr>msg_Id = txnID, msg_Response = True, msg_Authoritative = True, msg_RecursionDesired = True,
      msg_RecursionAvailable = True, msg_Rcode = RcodeNameError,
      msg_Question = [\<lparr>q_Name = qname, q_Qtype = qtype, q_Qclass = ClassINET\<rparr>],
      msg_Answer = []\<rparr>"

definition BuildNXDOMAIN :: "pack \<Rightarrow> u16 \<Rightarrow> string \<Rightarrow> u16 \<Rightarrow> dns_error + bytes" where
  "BuildNXDOMAIN pack txnID qname qtype =
     (case pack (nxdomain_msg txnID qname qtype) of None \<Rightarrow> Inl PackFailed | Some b \<Rightarrow> Inr b)"

text \<open>One pass of the inner loop over the answers, and at most \<open>n\<close> passes of the outer loop.\<close>

definition cname_step :: "dns_rr \<Rightarrow> string set \<times> bool \<Rightarrow> string set \<times> bool" where
  "cname_step rr = (\<lambda>(valid, progress).
     case rr of
       RR_CNAME owner ttl target \<Rightarrow>
         if normalizeDNSName owner \<notin> valid then (valid, progress)
         else if normalizeDNSName target \<in> valid then (valid, progress)
         else (insert (normalizeDNSName target) valid, True)
     | _ \<Rightarrow> (valid, progress))"

fun cname_passes :: "nat \<Rightarrow> dns_rr list \<Rightarrow> string set \<Rightarrow> string set" where
  "cname_passes 0 answers valid = valid"
| "cname_passes (Suc n) answers valid =
     (let (valid', progress) = fold cname_step answers (valid, False)
      in if \<not> progress then valid' else cname_passes n answers valid')"

definition collect_step ::
  "string set \<Rightarrow> dns_rr \<Rightarrow> bytes list \<times> u32 \<times> bool \<Rightarrow> bytes list \<times> u32 \<times> bool" where
  "collect_step valid rr = (\<lambda>(ips, minTTL, first).
     case rr of
       RR_A owner ttl ip \<Rightarrow>
         if normalizeDNSName owner \<notin> valid then (ips, minTTL, first)
         else if first \<or> ttl < minTTL then (ips @ [ip], ttl, False)
         else (ips @ [ip], minTTL, first)
     | _ \<Rightarrow> (ips, minTTL, first))"

definition response_answers :: "string \<Rightarrow> dns_rr list \<Rightarrow> bytes list \<times> u32" where
  "response_answers qname answers =
     (let valid = cname_passes (length answers) answers {qname};
          (ips, minTTL, first) = fold (collect_step valid) answers ([], 0, True)
      in (ips, minTTL))"

definition ParseDNSResponse :: "unpack \<Rightarrow> bytes \<Rightarrow> dns_error + string \<times> bytes list \<times> u32" where
  "ParseDNSResponse unpack payload =
     (case unpack payload of
        None \<Rightarrow> Inl UnpackFailed
      | Some msg \<Rightarrow>
          let qname = (case msg_Question msg of [] \<Rightarrow> [] | q # _ \<Rightarrow> normalizeDNSName (q_Name q))
          in Inr (qname, response_answers qname (msg_Answer msg)))"

section \<open>interceptor.go\<close>

definition defaultMinTTL :: duration where "defaultMinTTL = 60 * second"
definition defaultMaxTTL :: duration where "defaultMaxTTL = 5 * minute"

datatype InterceptAction = InterceptForward | InterceptDrop | InterceptRespond

record InterceptResult =
  ir_Action :: InterceptAction
  ResponseFrame :: bytes

text \<open>The dynamic rules the interceptor points to are shared state, passed separately.\<close>

record DNSInterceptor =
  di_policy :: Policy
  minTTL :: duration
  maxTTL :: duration
  gatewayIP :: ip4

definition WithMinTTL :: "duration \<Rightarrow> DNSInterceptor \<Rightarrow> DNSInterceptor" where
  "WithMinTTL d i = (if 0 < d then i\<lparr>minTTL := d\<rparr> else i)"

definition WithMaxTTL :: "duration \<Rightarrow> DNSInterceptor \<Rightarrow> DNSInterceptor" where
  "WithMaxTTL d i = i\<lparr>maxTTL := d\<rparr>"

definition NewDNSInterceptor ::
  "Policy \<Rightarrow> ip4 \<Rightarrow> (DNSInterceptor \<Rightarrow> DNSInterceptor) list \<Rightarrow> DNSInterceptor" where
  "NewDNSInterceptor policy gw opts =
     fold (\<lambda>o' i. o' i) opts
       \<lparr>di_policy = policy, minTTL = defaultMinTTL, maxTTL = defaultMaxTTL, gatewayIP = gw\<rparr>"

definition intercept :: "InterceptAction \<Rightarrow> InterceptResult" where
  "intercept a = \<lparr>ir_Action = a, ResponseFrame = []\<rparr>"

definition HandleEgress ::
  "unpack \<Rightarrow> pack \<Rightarrow> DNSInterceptor \<Rightarrow> bytes \<Rightarrow> InterceptResult go" where
  "HandleEgress unpack pack d frame = do {
     p \<leftarrow> ExtractUDPPayload frame;
     case p of
       Inl err \<Rightarrow> Some (intercept InterceptDrop)
     | Inr payload \<Rightarrow>
         (case ParseDNSQuery unpack payload of
            Inl err \<Rightarrow> Some (intercept InterceptDrop)
          | Inr (txnID, qname, qtype) \<Rightarrow>
              if IsAllowed (di_policy d) qname then Some (intercept InterceptForward)
              else case BuildNXDOMAIN pack txnID qname qtype of
                Inl err \<Rightarrow> Some (intercept InterceptDrop)
              | Inr nx \<Rightarrow> do {
                  r \<leftarrow> BuildResponseFrame frame nx;
                  case r of
                    Inl err \<Rightarrow> Some (intercept InterceptDrop)
                  | Inr resp \<Rightarrow> Some \<lparr>ir_Action = InterceptRespond, ResponseFrame = resp\<rparr>
                })
   }"

definition clamp_ttl :: "DNSInterceptor \<Rightarrow> u32 \<Rightarrow> duration" where
  "clamp_ttl d ttlSec =
     (let ttl = uint ttlSec * second;
          ttl = (if ttl < minTTL d then minTTL d else ttl)
      in if 0 < maxTTL d \<and> maxTTL d < ttl then maxTTL d else ttl)"

definition rule_protos :: "u8 \<Rightarrow> u8 list" where
  "rule_protos proto = (if proto = 0 then [6, 17] else [proto])"

definition dns_rule :: "bytes \<Rightarrow> u8 \<Rightarrow> u16 \<Rightarrow> Rule" where
  "dns_rule ip4 proto port =
     zero_rule\<lparr>Rule_Direction := Egress, Rule_Action := Allow, Rule_Protocol := proto,
       Rule_DstCIDR := \<lparr>IPNet_IP = ip4, IPNet_Mask = CIDRMask32 32\<rparr>, Rule_DstPort := port\<rparr>"

text \<open>The rules of the nested loops over addresses, protocols and ports, in order.\<close>

definition ingress_rules :: "bytes list \<Rightarrow> u16 list \<Rightarrow> u8 \<Rightarrow> Rule list" where
  "ingress_rules ips ports proto =
     concat (map (\<lambda>ip. case To4 ip of
         None \<Rightarrow> []
       | Some ip4 \<Rightarrow>
           concat (map (\<lambda>p. if ports = [] then [dns_rule ip4 p 0]
             else map (dns_rule ip4 p) ports) (rule_protos proto))) ips)"

text \<open>Each \<open>Add\<close> reads the clock: \<open>now i\<close> is the reading of the \<open>i\<close>-th one.\<close>

fun add_rules :: "(nat \<Rightarrow> time) \<Rightarrow> duration \<Rightarrow> Rule list \<Rightarrow> DynamicRules \<Rightarrow> DynamicRules" where
  "add_rules now ttl [] dr = dr"
| "add_rules now ttl (r # rs) dr = add_rules (\<lambda>i. now (Suc i)) ttl rs (Add (now 0) dr r ttl)"

text \<open>
  The log call of the first branch evaluates \<^verbatim>\<open>hdr.SrcIP\<close>, also when the header is
  nil: a nil dereference, the panic \<open>None\<close>.
\<close>

definition HandleIngress ::
  "unpack \<Rightarrow> (nat \<Rightarrow> time) \<Rightarrow> DNSInterceptor \<Rightarrow> bytes \<Rightarrow> PacketHeader option \<Rightarrow>
   DynamicRules \<Rightarrow> DynamicRules go" where
  "HandleIngress unpack now d frame hdr dr =
     (case hdr of
        None \<Rightarrow> None
      | Some h \<Rightarrow>
          if SrcIP h \<noteq> gatewayIP d then Some dr
          else do {
            p \<leftarrow> ExtractUDPPayload frame;
            case p of
              Inl err \<Rightarrow> Some dr
            | Inr payload \<Rightarrow>
                (case ParseDNSResponse unpack payload of
                   Inl err \<Rightarrow> Some dr
                 | Inr (qname, ips, ttlSec) \<Rightarrow>
                     if length ips = 0 then Some dr
                     else if \<not> IsAllowed (di_policy d) qname then Some dr
                     else let (ports, proto) = HostPorts (di_policy d) qname
                       in Some (add_rules now (clamp_ttl d ttlSec) (ingress_rules ips ports proto) dr))
          })"

section \<open>Host name matching\<close>

text \<open>A host specification covers a name: label by label, with at least one label for a wildcard.\<close>

definition labels :: "string \<Rightarrow> string list" where
  "labels s = split_at CHR ''.'' s"

definition wildcard_of :: "string \<Rightarrow> string option" where
  "wildcard_of p = (if HasPrefix p ''**.'' then Some (drop 3 p)
     else if HasPrefix p ''*.'' then Some (drop 2 p) else None)"

definition host_covers :: "HostSpec \<Rightarrow> string \<Rightarrow> bool" where
  "host_covers h name \<longleftrightarrow>
     (case wildcard_of (normal_name (Name h)) of
        Some domain \<Rightarrow>
          (\<exists>sub. sub \<noteq> [] \<and> labels (normal_name name) = labels sub @ labels domain)
      | None \<Rightarrow> normal_name name = normal_name (Name h))"

lemma labels_suffix: "labels n = labels a @ labels b \<longleftrightarrow> n = a @ CHR ''.'' # b"
proof
  assume "labels n = labels a @ labels b"
  then have "join_with CHR ''.'' (split_at CHR ''.'' n) =
      join_with CHR ''.'' (split_at CHR ''.'' a @ split_at CHR ''.'' b)"
    by (simp add: labels_def)
  then show "n = a @ CHR ''.'' # b" by (simp add: join_with_append)
qed (simp add: labels_def split_at_app)

lemma suffix_longer:
  "HasSuffix n (c # s) \<and> Suc (length s) < length n \<longleftrightarrow> (\<exists>sub. sub \<noteq> [] \<and> n = sub @ c # s)"
  by (auto simp: HasSuffix_iff)

lemma entry_admits_iff: "entry_admits (hostEntry_of h) (normal_name n) \<longleftrightarrow> host_covers h n"
proof -
  let ?p = "normal_name (Name h)"
  consider (deep) d where "?p = ''**.'' @ d" | (wild) d where "?p = ''*.'' @ d" "\<not> HasPrefix ?p ''**.''"
    | (exact) "\<not> HasPrefix ?p ''**.''" "\<not> HasPrefix ?p ''*.''"
    by (metis HasPrefix_iff)
  then show ?thesis
  proof cases
    case deep
    then have "HasPrefix ?p ''**.''" by (metis HasPrefix_append)
    then show ?thesis using deep
      by (simp add: hostEntry_of_def host_covers_def wildcard_of_def entry_admits_def Let_def
          suffix_longer labels_suffix)
  next
    case wild
    then have "HasPrefix ?p ''*.''" by (metis HasPrefix_append)
    then show ?thesis using wild
      by (simp add: hostEntry_of_def host_covers_def wildcard_of_def entry_admits_def Let_def
          suffix_longer labels_suffix)
  next
    case exact
    then show ?thesis
      by (simp add: hostEntry_of_def host_covers_def wildcard_of_def entry_admits_def Let_def)
  qed
qed

lemma find_map: "find P (map f xs) = map_option f (find (P \<circ> f) xs)"
  by (induction xs) auto

lemma matchHost_NewPolicy:
  "matchHost (NewPolicy hs) n = map_option hostEntry_of (find (\<lambda>h. host_covers h n) hs)"
  by (simp add: matchHost_def NewPolicy_def find_map comp_def entry_admits_iff)

lemma IsAllowed_NewPolicy: "IsAllowed (NewPolicy hs) n \<longleftrightarrow> (\<exists>h \<in> set hs. host_covers h n)"
  by (auto simp: IsAllowed_def matchHost_NewPolicy find_None_iff)

lemma hostEntry_of_ports [simp]:
  "he_ports (hostEntry_of h) = Ports h" "he_protocol (hostEntry_of h) = HostSpec_Protocol h"
  by (simp_all add: hostEntry_of_def Let_def)

lemma HostPorts_NewPolicy:
  "HostPorts (NewPolicy hs) n =
     (case find (\<lambda>h. host_covers h n) hs of
        None \<Rightarrow> ([], 0) | Some h \<Rightarrow> (Ports h, HostSpec_Protocol h))"
  by (simp add: HostPorts_def matchHost_NewPolicy split: option.splits)

lemma normalizeDNSName_eq: "normalizeDNSName = normal_name"
  by (simp add: fun_eq_iff normalizeDNSName_def normal_name_def TrimSuffix_dot_ToLower)

section \<open>The CNAME chain\<close>

definition cname_edges :: "dns_rr list \<Rightarrow> (string \<times> string) set" where
  "cname_edges answers =
     {(normalizeDNSName n, normalizeDNSName t) | n ttl t. RR_CNAME n ttl t \<in> set answers}"

definition reachable_names :: "string \<Rightarrow> dns_rr list \<Rightarrow> string set" where
  "reachable_names q answers = (cname_edges answers)\<^sup>* `` {q}"

lemma cname_edges_Cons:
  "cname_edges (rr # rrs) = cname_edges [rr] \<union> cname_edges rrs"
  by (auto simp: cname_edges_def)

lemma cname_step_eq:
  "cname_step rr (V, pr) = (V \<union> cname_edges [rr] `` V, pr \<or> \<not> cname_edges [rr] `` V \<subseteq> V)"
  by (cases rr) (auto simp: cname_step_def cname_edges_def)

lemma cname_pass:
  assumes "fold cname_step rrs (V, pr) = (V', pr')"
  shows "V \<subseteq> V' \<and> V' \<subseteq> (cname_edges rrs)\<^sup>* `` V \<and> (pr' \<longleftrightarrow> pr \<or> V' \<noteq> V) \<and>
    (V' = V \<longrightarrow> cname_edges rrs `` V \<subseteq> V) \<and> V' \<subseteq> V \<union> Range (cname_edges rrs)"
  using assms
proof (induction rrs arbitrary: V pr)
  case Nil
  then show ?case by (auto simp: cname_edges_def)
next
  case (Cons rr rrs)
  let ?E = "cname_edges [rr]" and ?F = "cname_edges rrs"
  define W where "W = V \<union> ?E `` V"
  have IH: "W \<subseteq> V' \<and> V' \<subseteq> ?F\<^sup>* `` W \<and> (pr' \<longleftrightarrow> (pr \<or> \<not> ?E `` V \<subseteq> V) \<or> V' \<noteq> W) \<and>
      (V' = W \<longrightarrow> ?F `` W \<subseteq> W) \<and> V' \<subseteq> W \<union> Range ?F"
    by (rule Cons.IH) (use Cons.prems in \<open>simp add: cname_step_eq W_def\<close>)
  have sub: "?F\<^sup>* \<subseteq> (?E \<union> ?F)\<^sup>*" by (rule rtrancl_mono) simp
  have "W \<subseteq> (?E \<union> ?F)\<^sup>* `` V" unfolding W_def by (blast intro: r_into_rtrancl)
  then have "?F\<^sup>* `` W \<subseteq> (?E \<union> ?F)\<^sup>* `` V"
    using sub by (blast intro: rtrancl_trans)
  then have 1: "V' \<subseteq> (?E \<union> ?F)\<^sup>* `` V" using IH by blast
  have VW: "V \<subseteq> W" and EW: "?E `` V \<subseteq> W" by (simp_all add: W_def)
  then have 2: "V \<subseteq> V'" and WV: "V' = V \<Longrightarrow> W = V" using IH by blast+
  have "W = V \<longleftrightarrow> ?E `` V \<subseteq> V" by (auto simp: W_def)
  then have 3: "pr' \<longleftrightarrow> pr \<or> V' \<noteq> V" using IH WV by blast
  have 4: "V' = V \<Longrightarrow> (?E \<union> ?F) `` V \<subseteq> V"
    using IH WV EW by (simp add: Un_Image)
  have "W \<subseteq> V \<union> Range ?E" by (auto simp: W_def)
  then have 5: "V' \<subseteq> V \<union> Range (?E \<union> ?F)" using IH by (auto simp: Range_Un_eq)
  show ?case
    unfolding cname_edges_Cons [of rr rrs] using 1 2 3 4 5 by (intro conjI impI)
qed

lemma closed_rtrancl: "r `` V \<subseteq> V \<Longrightarrow> r\<^sup>* `` V = V"
  by (metis Image_closed_trancl)

lemma closure_between:
  assumes "V \<subseteq> V'" "V' \<subseteq> r\<^sup>* `` V"
  shows "r\<^sup>* `` V' = r\<^sup>* `` V"
proof
  have "r\<^sup>* `` V' \<subseteq> r\<^sup>* `` (r\<^sup>* `` V)" using assms(2) by (rule Image_mono [OF subset_refl])
  also have "\<dots> = r\<^sup>* `` V" by (simp flip: relcomp_Image)
  finally show "r\<^sup>* `` V' \<subseteq> r\<^sup>* `` V" .
  show "r\<^sup>* `` V \<subseteq> r\<^sup>* `` V'" using assms(1) by (rule Image_mono [OF subset_refl])
qed

lemma cname_passes_closure:
  assumes "finite V" "finite (cname_edges answers)"
    and "card (Range (cname_edges answers) - V) \<le> n"
  shows "cname_passes n answers V = (cname_edges answers)\<^sup>* `` V"
  using assms
proof (induction n arbitrary: V)
  case 0
  then have "Range (cname_edges answers) \<subseteq> V" by (simp add: finite_Range)
  then have "cname_edges answers `` V \<subseteq> V" by auto
  then show ?case by (simp add: closed_rtrancl)
next
  case (Suc n)
  let ?E = "cname_edges answers"
  obtain V' pr where f: "fold cname_step answers (V, False) = (V', pr)" by fastforce
  note p = cname_pass [OF f]
  show ?case
  proof (cases pr)
    case True
    with p have "V \<subseteq> V'" "V' \<noteq> V" "V' \<subseteq> V \<union> Range ?E" by auto
    then have less: "Range ?E - V' \<subset> Range ?E - V" by blast
    have fin: "finite (Range ?E)" using Suc.prems(2) by (simp add: finite_Range)
    have "card (Range ?E - V') \<le> n"
      using psubset_card_mono [OF _ less] fin Suc.prems(3) by simp
    moreover have "finite V'"
      by (rule finite_subset [OF \<open>V' \<subseteq> V \<union> Range ?E\<close>]) (simp add: Suc.prems(1) fin)
    ultimately have "cname_passes n answers V' = ?E\<^sup>* `` V'"
      using Suc.IH Suc.prems(2) by simp
    also have "\<dots> = ?E\<^sup>* `` V" using p closure_between [of V V' ?E] by simp
    finally show ?thesis using f True by simp
  next
    case False
    with p have "V' = V" "?E `` V \<subseteq> V" by auto
    then show ?thesis using f False by (simp add: closed_rtrancl)
  qed
qed

lemma cname_edges_bound:
  "finite (cname_edges answers) \<and> card (Range (cname_edges answers)) \<le> length answers"
proof -
  let ?edge = "\<lambda>rr. case rr of RR_CNAME n ttl t \<Rightarrow> (normalizeDNSName n, normalizeDNSName t) 
    | _ \<Rightarrow> ([], [])"
  have sub: "cname_edges answers \<subseteq> ?edge ` set answers"
  proof
    fix e assume "e \<in> cname_edges answers"
    then obtain n ttl t where "RR_CNAME n ttl t \<in> set answers"
      "e = ?edge (RR_CNAME n ttl t)" by (auto simp: cname_edges_def)
    then show "e \<in> ?edge ` set answers" by blast
  qed
  then have "finite (cname_edges answers)" by (rule finite_subset) simp
  moreover have "card (Range (cname_edges answers)) \<le> card (snd ` ?edge ` set answers)"
    unfolding Range_snd by (rule card_mono [OF _ image_mono [OF sub]]) simp
  moreover have "\<dots> \<le> length answers"
  proof -
    have "card (snd ` ?edge ` set answers) \<le> card (set answers)"
      unfolding image_image by (rule card_image_le) simp
    also have "\<dots> \<le> length answers" by (rule card_length)
    finally show ?thesis .
  qed
  ultimately show ?thesis by linarith
qed

lemma valid_names_reachable:
  "cname_passes (length answers) answers {q} = reachable_names q answers"
  unfolding reachable_names_def
proof (rule cname_passes_closure)
  have "card (Range (cname_edges answers) - {q}) \<le> card (Range (cname_edges answers))"
    using cname_edges_bound by (intro card_mono) (auto simp: finite_Range)
  then show "card (Range (cname_edges answers) - {q}) \<le> length answers"
    using cname_edges_bound [of answers] by linarith
qed (simp_all add: cname_edges_bound)

section \<open>The answers of a response\<close>

definition accepted :: "string set \<Rightarrow> dns_rr list \<Rightarrow> (u32 \<times> bytes) list" where
  "accepted V answers =
     concat (map (\<lambda>rr. case rr of
         RR_A owner ttl ip \<Rightarrow> if normalizeDNSName owner \<in> V then [(ttl, ip)] else []
       | _ \<Rightarrow> []) answers)"

lemma accepted_Cons: "accepted V (rr # rrs) = accepted V [rr] @ accepted V rrs"
  by (simp add: accepted_def)

lemma accepted_Nil [simp]: "accepted V [] = []"
  by (simp add: accepted_def)

lemma collect_step_next:
  "collect_step V rr (ips, m, False) =
     (ips @ map snd (accepted V [rr]), fold min (map fst (accepted V [rr])) m, False)"
  by (cases rr) (auto simp: collect_step_def accepted_def min_def)

lemma collect_step_first:
  "accepted V [rr] = [] \<and> collect_step V rr (ips, m, True) = (ips, m, True) \<or>
   (\<exists>ttl ip. accepted V [rr] = [(ttl, ip)] \<and> collect_step V rr (ips, m, True) = (ips @ [ip], ttl, False))"
  by (cases rr) (auto simp: collect_step_def accepted_def)

lemma set_accepted:
  "(ttl, ip) \<in> set (accepted V answers) \<longleftrightarrow>
     (\<exists>owner. RR_A owner ttl ip \<in> set answers \<and> normalizeDNSName owner \<in> V)"
  by (induction answers) (auto simp: accepted_def split: dns_rr.splits if_splits)

lemma collect_from:
  "fold (collect_step V) answers (ips, m, False) =
     (ips @ map snd (accepted V answers), fold min (map fst (accepted V answers)) m, False)"
proof (induction answers arbitrary: ips m)
  case (Cons rr rrs)
  then show ?case using accepted_Cons [of V rr rrs] by (simp add: collect_step_next)
qed simp

lemma collect_first:
  "fold (collect_step V) answers (ips, 0, True) =
     (ips @ map snd (accepted V answers),
      case map fst (accepted V answers) of [] \<Rightarrow> 0 | t # ts \<Rightarrow> fold min ts t,
      accepted V answers = [])"
proof (induction answers arbitrary: ips)
  case (Cons rr rrs)
  then show ?case
    using collect_step_first [of V rr ips 0] collect_from accepted_Cons [of V rr rrs] by auto
qed simp

lemma fold_min_eq: "fold min ts (t :: 'a :: linorder) = Min (set (t # ts))"
  by (rule Min.set_eq_fold [symmetric])

lemma response_answers_eq:
  "response_answers q answers =
     (map snd (accepted (reachable_names q answers) answers),
      if accepted (reachable_names q answers) answers = [] then 0
      else Min (fst ` set (accepted (reachable_names q answers) answers)))"
proof -
  let ?acc = "accepted (reachable_names q answers) answers"
  have "(case map fst ?acc of [] \<Rightarrow> 0 | t # ts \<Rightarrow> fold min ts t) =
      (if ?acc = [] then 0 else Min (fst ` set ?acc))"
    by (cases ?acc) (simp_all add: fold_min_eq)
  then show ?thesis
    by (simp add: response_answers_def valid_names_reachable collect_first Let_def)
qed

section \<open>The rules learned from a response\<close>

definition learned_rules :: "unpack \<Rightarrow> DNSInterceptor \<Rightarrow> bytes \<Rightarrow> PacketHeader \<Rightarrow> Rule list \<times> u32" where
  "learned_rules unpack d frame h =
     (if SrcIP h \<noteq> gatewayIP d then ([], 0)
      else case ExtractUDPPayload frame of
        Some (Inr payload) \<Rightarrow>
          (case ParseDNSResponse unpack payload of
             Inr (qname, ips, ttl) \<Rightarrow>
               if IsAllowed (di_policy d) qname
               then (case HostPorts (di_policy d) qname of
                 (ports, proto) \<Rightarrow> (ingress_rules ips ports proto, ttl))
               else ([], 0)
           | _ \<Rightarrow> ([], 0))
      | _ \<Rightarrow> ([], 0))"

lemma ExtractUDPPayload_total: "\<exists>r. ExtractUDPPayload f = Some r"
  by (auto simp: ExtractUDPPayload_eq Let_def)

lemma HandleIngress_eq:
  "HandleIngress unpack now d frame (Some h) dr =
     Some (add_rules now (clamp_ttl d (snd (learned_rules unpack d frame h)))
       (fst (learned_rules unpack d frame h)) dr)"
proof -
  have [simp]: "ingress_rules [] ports proto = []" for ports proto
    by (simp add: ingress_rules_def)
  obtain p where "ExtractUDPPayload frame = Some p" using ExtractUDPPayload_total by blast
  then show ?thesis
    by (auto simp: HandleIngress_def learned_rules_def split: sum.splits prod.splits)
qed

lemma HandleIngress_nil: "HandleIngress unpack now d frame None dr = None"
  by (simp add: HandleIngress_def)

lemma ingress_rules_set:
  "r \<in> set (ingress_rules ips ports proto) \<longleftrightarrow>
     (\<exists>ip \<in> set ips. \<exists>ip4 p port. To4 ip = Some ip4 \<and> p \<in> set (rule_protos proto) \<and>
        (if ports = [] then port = 0 else port \<in> set ports) \<and> r = dns_rule ip4 p port)"
  by (auto simp: ingress_rules_def image_iff split: option.splits if_splits; metis)

text \<open>The answer addresses from which a frame teaches rules: what the policy admits.\<close>

definition teaches ::
  "unpack \<Rightarrow> DNSInterceptor \<Rightarrow> bytes \<Rightarrow> PacketHeader \<Rightarrow> string \<Rightarrow> bytes \<Rightarrow> bool" where
  "teaches unpack d frame h qname ip \<longleftrightarrow>
     SrcIP h = gatewayIP d \<and> IsAllowed (di_policy d) qname \<and>
     (\<exists>payload msg. ExtractUDPPayload frame = Some (Inr payload) \<and> unpack payload = Some msg \<and>
        qname = (case msg_Question msg of [] \<Rightarrow> [] | q # _ \<Rightarrow> normalizeDNSName (q_Name q)) \<and>
        (\<exists>owner ttl. RR_A owner ttl ip \<in> set (msg_Answer msg) \<and>
           normalizeDNSName owner \<in> reachable_names qname (msg_Answer msg)))"

lemma learned_rules_set:
  "r \<in> set (fst (learned_rules unpack d frame h)) \<longleftrightarrow>
     (\<exists>qname ip ip4 p port. teaches unpack d frame h qname ip \<and> To4 ip = Some ip4 \<and>
        p \<in> set (rule_protos (snd (HostPorts (di_policy d) qname))) \<and>
        (if fst (HostPorts (di_policy d) qname) = [] then port = 0
         else port \<in> set (fst (HostPorts (di_policy d) qname))) \<and>
        r = dns_rule ip4 p port)"
proof -
  obtain p where p: "ExtractUDPPayload frame = Some p" using ExtractUDPPayload_total by blast
  show ?thesis
  proof (cases p)
    case (Inl e)
    then show ?thesis using p by (simp add: learned_rules_def teaches_def)
  next
    case (Inr payload)
    show ?thesis
    proof (cases "unpack payload")
      case None
      then show ?thesis using p Inr by (simp add: learned_rules_def teaches_def ParseDNSResponse_def)
    next
      case (Some msg)
      define q where "q = (case msg_Question msg of [] \<Rightarrow> [] | q # _ \<Rightarrow> normalizeDNSName (q_Name q))"
      have t: "teaches unpack d frame h n ip \<longleftrightarrow> SrcIP h = gatewayIP d \<and> IsAllowed (di_policy d) n \<and>
          n = q \<and> (\<exists>ttl. (ttl, ip) \<in> set (accepted (reachable_names q (msg_Answer msg)) (msg_Answer msg)))"
        for n ip
        using p Inr Some by (auto simp: teaches_def set_accepted q_def)
      show ?thesis
        using p Inr Some
        by (cases "HostPorts (di_policy d) q")
          (auto simp: learned_rules_def ParseDNSResponse_def q_def [symmetric] t Let_def
            response_answers_eq ingress_rules_set image_iff Bex_def split: if_splits)
    qed
  qed
qed

section \<open>Snooping opens what was learned\<close>

definition is_dns_rule :: "Rule \<Rightarrow> bool" where
  "is_dns_rule r \<longleftrightarrow> (\<exists>ip p port. length ip = 4 \<and> r = dns_rule ip p port)"

definition dns_only :: "DynamicRules \<Rightarrow> bool" where
  "dns_only dr \<longleftrightarrow> (\<forall>e \<in> set (entries dr). is_dns_rule (entry_rule e))"

definition opens :: "time \<Rightarrow> DynamicRules \<Rightarrow> Direction \<Rightarrow> PacketHeader \<Rightarrow> bool" where
  "opens t dr d h \<longleftrightarrow> (\<exists>e \<in> set (entries dr). unexpired t e \<and> Matches (entry_rule e) d h)"

lemma To4_length: "To4 ip = Some x \<Longrightarrow> length x = 4"
  by (auto simp: To4_def split: if_splits)

lemma canonical_ip_4 [simp]: "length ip = 4 \<Longrightarrow> canonical_ip ip = ip"
  by (simp add: canonical_ip_def To4_def)

lemma is_dns_rule_fields:
  assumes "is_dns_rule r"
  shows "Rule_Direction r = Egress" "Rule_Action r = Allow"
  using assms by (auto simp: is_dns_rule_def dns_rule_def)

lemma same_dns_rule: "is_dns_rule a \<Longrightarrow> is_dns_rule b \<Longrightarrow> same_rule a b \<longleftrightarrow> a = b"
  by (auto simp: is_dns_rule_def same_rule_key rule_key_def dns_rule_def)

lemma Match_dns_only: "dns_only dr \<Longrightarrow> Match t dr d h = (if opens t dr d h then Some Allow else None)"
proof -
  assume a: "dns_only dr"
  show ?thesis
  proof (cases "Match t dr d h")
    case None
    then show ?thesis by (auto simp: Match_eq first_match_None opens_def)
  next
    case (Some x)
    then obtain r where "r \<in> set (map entry_rule (filter (unexpired t) (entries dr)))"
      "Matches r d h" "Rule_Action r = x"
      unfolding Match_eq by (blast dest: first_match_Some)
    then show ?thesis
      using Some a is_dns_rule_fields(2) by (auto simp: opens_def dns_only_def)
  qed
qed

lemma opens_egress: "dns_only dr \<Longrightarrow> opens t dr d h \<Longrightarrow> d = Egress"
  by (auto simp: opens_def dns_only_def dest: is_dns_rule_fields(1) Matches_direction)

lemma Add_dns_only: "dns_only dr \<Longrightarrow> is_dns_rule r \<Longrightarrow> dns_only (Add t dr r ttl)"
  using Add_entries by (fastforce simp: dns_only_def)

lemma extend_entry_opens:
  assumes "extend_entry r x es = Some es'" "\<forall>e \<in> set es. is_dns_rule (entry_rule e)" "is_dns_rule r"
  shows "(\<exists>e \<in> set es'. unexpired t e \<and> Matches (entry_rule e) d h) \<longleftrightarrow>
    (\<exists>e \<in> set es. unexpired t e \<and> Matches (entry_rule e) d h) \<or> t \<le> x \<and> Matches r d h"
  using assms
proof (induction es arbitrary: es')
  case (Cons e es)
  show ?case
  proof (cases "same_rule (entry_rule e) r")
    case True
    then have "entry_rule e = r" using Cons.prems same_dns_rule by simp
    then show ?thesis
      using Cons.prems True by (auto simp: unexpired_def After_def split: if_splits)
  next
    case False
    then show ?thesis using Cons by auto
  qed
qed simp

text \<open>Without room for a new entry an unknown rule is dropped; the rest is exact.\<close>

lemma Add_opens:
  assumes "dns_only dr" "is_dns_rule r"
  shows "opens t (Add u dr r ttl) d h \<Longrightarrow> opens t dr d h \<or> t \<le> u + ttl \<and> Matches r d h"
    and "length (entries dr) < maxRules dr \<Longrightarrow>
      opens t (Add u dr r ttl) d h \<longleftrightarrow> opens t dr d h \<or> t \<le> u + ttl \<and> Matches r d h"
proof -
  show "opens t (Add u dr r ttl) d h \<Longrightarrow> opens t dr d h \<or> t \<le> u + ttl \<and> Matches r d h"
  proof (cases "extend_entry r (u + ttl) (entries dr)")
    case (Some es)
    moreover assume "opens t (Add u dr r ttl) d h"
    ultimately show ?thesis
      using extend_entry_opens [OF Some] assms by (simp add: opens_def Add_def dns_only_def)
  qed (auto simp: opens_def Add_def unexpired_def After_def split: if_splits)
  show "opens t (Add u dr r ttl) d h \<longleftrightarrow> opens t dr d h \<or> t \<le> u + ttl \<and> Matches r d h"
    if "length (entries dr) < maxRules dr"
  proof (cases "extend_entry r (u + ttl) (entries dr)")
    case (Some es)
    then show ?thesis
      using extend_entry_opens [OF Some] assms by (simp add: opens_def Add_def dns_only_def)
  qed (use that in \<open>auto simp: opens_def Add_def unexpired_def After_def\<close>)
qed

lemma maxRules_Add [simp]: "maxRules (Add u dr r ttl) = maxRules dr"
  by (simp add: Add_def split: option.splits)

lemma length_Add: "length (entries (Add u dr r ttl)) \<le> Suc (length (entries dr))"
proof (cases "extend_entry r (u + ttl) (entries dr)")
  case (Some es)
  then show ?thesis
    using map_eq_imp_length_eq [OF extend_entry_keys [OF Some]] by (simp add: Add_def)
qed (simp add: Add_def)

lemma add_rules_dns_only:
  "dns_only dr \<Longrightarrow> \<forall>r \<in> set rs. is_dns_rule r \<Longrightarrow> dns_only (add_rules now ttl rs dr)"
  by (induction now ttl rs dr rule: add_rules.induct) (simp_all add: Add_dns_only)

lemma add_rules_opens_only:
  assumes "dns_only dr" "\<forall>r \<in> set rs. is_dns_rule r" "opens t (add_rules now ttl rs dr) d h"
  shows "opens t dr d h \<or> (\<exists>r \<in> set rs. Matches r d h)"
  using assms
proof (induction now ttl rs dr rule: add_rules.induct)
  case (2 now ttl r rs dr)
  then show ?case using Add_opens(1) [of dr r t "now 0" ttl d h] by (auto simp: Add_dns_only)
qed simp

lemma add_rules_opens:
  assumes "dns_only dr" "\<forall>r \<in> set rs. is_dns_rule r"
    and "length (entries dr) + length rs \<le> maxRules dr" "\<forall>i < length rs. t \<le> now i + ttl"
  shows "opens t (add_rules now ttl rs dr) d h \<longleftrightarrow>
    opens t dr d h \<or> (\<exists>r \<in> set rs. Matches r d h)"
  using assms
proof (induction now ttl rs dr rule: add_rules.induct)
  case (2 now ttl r rs dr)
  have "opens t (Add (now 0) dr r ttl) d h \<longleftrightarrow> opens t dr d h \<or> Matches r d h"
    using 2 Add_opens(2) [of dr r t "now 0" ttl d h] by auto
  moreover have "\<forall>i < length rs. t \<le> now (Suc i) + ttl" using 2(5) by auto
  moreover have "length (entries (Add (now 0) dr r ttl)) + length rs \<le> maxRules dr"
    using length_Add [of "now 0" dr r ttl] 2(4) by simp
  ultimately show ?case using 2 by (auto simp: Add_dns_only)
qed simp

lemma add_rules_wf: "wf_dynamic dr \<Longrightarrow> wf_dynamic (add_rules now ttl rs dr)"
  by (induction now ttl rs dr rule: add_rules.induct) (simp_all add: Add_wf)

lemma learned_rules_dns: "\<forall>r \<in> set (fst (learned_rules unpack d frame h)). is_dns_rule r"
  unfolding Ball_def learned_rules_set is_dns_rule_def using To4_length by blast

lemma Matches_dns_rule:
  assumes "length ip = 4"
  shows "Matches (dns_rule ip p port) dir h \<longleftrightarrow>
    dir = Egress \<and> ip4_bytes (DstIP h) = ip \<and> (p = 0 \<or> Protocol h = p) \<and> (port = 0 \<or> DstPort h = port)"
proof -
  obtain a b c e where ip: "ip = [a, b, c, e]"
    using assms by (auto simp: length_Suc_conv numeral_eq_Suc)
  have n: "\<lparr>IPNet_IP = [a, b, c, e], IPNet_Mask = CIDRMask32 32\<rparr> = host_net (a, b, c, e)"
    by (simp add: host_net_def)
  show ?thesis
    by (cases "DstIP h")
      (auto simp: Matches_def dns_rule_def zero_rule_def n cidrMatchesIP_host ip)
qed

text \<open>What the policy permits of a learned address.\<close>

definition policy_permits :: "Policy \<Rightarrow> string \<Rightarrow> PacketHeader \<Rightarrow> bool" where
  "policy_permits p qname h \<longleftrightarrow>
     (case HostPorts p qname of (ports, proto) \<Rightarrow>
        (if proto = 0 then Protocol h \<in> {6, 17} else Protocol h = proto) \<and>
        (ports = [] \<or> 0 \<in> set ports \<or> DstPort h \<in> set ports))"

lemma learned_rules_match:
  "(\<exists>r \<in> set (fst (learned_rules unpack d frame h)). Matches r dir pkt) \<longleftrightarrow>
     dir = Egress \<and> (\<exists>qname ip. teaches unpack d frame h qname ip \<and>
       To4 ip = Some (ip4_bytes (DstIP pkt)) \<and> policy_permits (di_policy d) qname pkt)"
  (is "?l \<longleftrightarrow> ?r")
proof
  assume ?l
  then show ?r
    unfolding Bex_def learned_rules_set
    by (fastforce simp: Matches_dns_rule [OF To4_length] policy_permits_def rule_protos_def
        split: if_splits prod.splits)
next
  assume ?r
  then obtain q ip where t: "dir = Egress" "teaches unpack d frame h q ip"
    "To4 ip = Some (ip4_bytes (DstIP pkt))" "policy_permits (di_policy d) q pkt" by auto
  obtain ports proto where hp: "HostPorts (di_policy d) q = (ports, proto)" by fastforce
  define port where "port = (if ports = [] \<or> 0 \<in> set ports then 0 else DstPort pkt)"
  have "Protocol pkt \<in> set (rule_protos proto)"
    using t(4) hp by (auto simp: policy_permits_def rule_protos_def split: if_splits)
  moreover have "if ports = [] then port = 0 else port \<in> set ports"
    using t(4) hp by (auto simp: policy_permits_def port_def)
  ultimately have "dns_rule (ip4_bytes (DstIP pkt)) (Protocol pkt) port \<in>
      set (fst (learned_rules unpack d frame h))"
    unfolding learned_rules_set using t(2,3) hp
    by (intro exI [of _ q] exI [of _ ip] exI [of _ "ip4_bytes (DstIP pkt)"]
        exI [of _ "Protocol pkt"] exI [of _ port]) simp
  moreover have "Matches (dns_rule (ip4_bytes (DstIP pkt)) (Protocol pkt) port) dir pkt"
    by (simp add: Matches_dns_rule t(1) port_def)
  ultimately show ?l by blast
qed


lemma HandleIngress_dns_only:
  assumes "dns_only dr" "HandleIngress unpack now d frame (Some h) dr = Some dr'"
  shows "dns_only dr'"
  using assms add_rules_dns_only [OF assms(1) learned_rules_dns] by (auto simp: HandleIngress_eq)

lemma HandleIngress_opens:
  assumes "dns_only dr" "HandleIngress unpack now d frame (Some h) dr = Some dr'"
    and "opens t dr' dir pkt"
  shows "opens t dr dir pkt \<or>
    dir = Egress \<and> (\<exists>qname ip. teaches unpack d frame h qname ip \<and>
      To4 ip = Some (ip4_bytes (DstIP pkt)) \<and> policy_permits (di_policy d) qname pkt)"
proof -
  have "opens t (add_rules now (clamp_ttl d (snd (learned_rules unpack d frame h)))
      (fst (learned_rules unpack d frame h)) dr) dir pkt"
    using assms(2,3) by (simp add: HandleIngress_eq)
  from add_rules_opens_only [OF assms(1) learned_rules_dns this]
  show ?thesis by (simp add: learned_rules_match)
qed

section \<open>Outbound queries\<close>

definition query_of :: "unpack \<Rightarrow> bytes \<Rightarrow> (u16 \<times> string \<times> u16) option" where
  "query_of unpack frame =
     (case ExtractUDPPayload frame of
        Some (Inr payload) \<Rightarrow>
          (case ParseDNSQuery unpack payload of Inr q \<Rightarrow> Some q | Inl err \<Rightarrow> None)
      | _ \<Rightarrow> None)"

lemma query_of_udp: "query_of unpack frame = Some q \<Longrightarrow> udp_query_frame frame"
  by (auto simp: query_of_def dest: ExtractUDPPayload_accepts split: option.splits sum.splits)

lemma HandleEgress_eq:
  "HandleEgress unpack pack d frame = Some
     (case query_of unpack frame of
        None \<Rightarrow> intercept InterceptDrop
      | Some (txnID, qname, qtype) \<Rightarrow>
          if IsAllowed (di_policy d) qname then intercept InterceptForward
          else case pack (nxdomain_msg txnID qname qtype) of
            None \<Rightarrow> intercept InterceptDrop
          | Some nx \<Rightarrow> \<lparr>ir_Action = InterceptRespond, ResponseFrame = response_frame frame nx\<rparr>)"
proof -
  obtain p where p: "ExtractUDPPayload frame = Some p" using ExtractUDPPayload_total by blast
  show ?thesis
  proof (cases "query_of unpack frame")
    case None
    then show ?thesis
      using p by (cases p) (auto simp: HandleEgress_def query_of_def split: sum.splits)
  next
    case (Some q)
    then show ?thesis
      using p BuildResponseFrame_ok [OF query_of_udp [OF Some]]
      by (cases p)
        (auto simp: HandleEgress_def query_of_def BuildNXDOMAIN_def
          split: sum.splits option.splits prod.splits)
  qed
qed

lemma clamp_ttl_default:
  assumes "minTTL d = defaultMinTTL" "maxTTL d = defaultMaxTTL"
  shows "60 * second \<le> clamp_ttl d ttl" "clamp_ttl d ttl \<le> 300 * second"
  using assms
  by (simp_all add: clamp_ttl_def Let_def defaultMinTTL_def defaultMaxTTL_def minute_def second_def)

section \<open>Properties\<close>

text \<open>
  The host allowlist is label-wise: a name is allowed exactly when some entry covers it,
  an exact entry the same name up to case and one trailing dot, a wildcard entry
  \<open>*.domain\<close> or \<open>**.domain\<close> the names with at least one byte of further labels in
  front of the labels of the domain, so never the domain itself.
\<close>

theorem IsAllowed_labelwise:
  "IsAllowed (NewPolicy hosts) name \<longleftrightarrow> (\<exists>h \<in> set hosts. host_covers h name)"
  by (rule IsAllowed_NewPolicy)

text \<open>
  C12. The bounded multi-pass loop of \<open>ParseDNSResponse\<close> computes the full closure of the
  CNAME chain, whatever the order of the answers and also when they contain loops: the
  addresses returned are those of the A records whose owner is reachable from the
  question, and the TTL is the least of theirs (a lower bound that one of them attains).
\<close>

theorem ParseDNSResponse_reachable:
  assumes "unpack payload = Some msg" "msg_Question msg = [q]"
  shows "\<exists>ips ttl. ParseDNSResponse unpack payload = Inr (normalizeDNSName (q_Name q), ips, ttl) \<and>
    set ips = {ip. \<exists>owner t. RR_A owner t ip \<in> set (msg_Answer msg) \<and>
      (normalizeDNSName (q_Name q), normalizeDNSName owner) \<in> (cname_edges (msg_Answer msg))\<^sup>*} \<and>
    (\<forall>owner t ip. RR_A owner t ip \<in> set (msg_Answer msg) \<longrightarrow>
      (normalizeDNSName (q_Name q), normalizeDNSName owner) \<in> (cname_edges (msg_Answer msg))\<^sup>* \<longrightarrow>
      ttl \<le> t) \<and>
    (ips \<noteq> [] \<longrightarrow> (\<exists>owner ip. RR_A owner ttl ip \<in> set (msg_Answer msg) \<and>
      (normalizeDNSName (q_Name q), normalizeDNSName owner) \<in> (cname_edges (msg_Answer msg))\<^sup>*))"
proof -
  let ?q = "normalizeDNSName (q_Name q)" and ?as = "msg_Answer msg"
  let ?acc = "accepted (reachable_names ?q ?as) ?as"
  have "ParseDNSResponse unpack payload = Inr (?q, response_answers ?q ?as)"
    by (simp add: ParseDNSResponse_def assms Let_def)
  moreover have "set (map snd ?acc) = {ip. \<exists>owner t. RR_A owner t ip \<in> set ?as \<and>
      normalizeDNSName owner \<in> reachable_names ?q ?as}"
    using set_accepted [of _ _ "reachable_names ?q ?as" ?as] by force
  moreover have "snd (response_answers ?q ?as) \<le> t"
    if "RR_A owner t ip \<in> set ?as" "normalizeDNSName owner \<in> reachable_names ?q ?as" for owner t ip
  proof -
    have "(t, ip) \<in> set ?acc" using that by (auto simp: set_accepted)
    then have "t \<in> fst ` set ?acc" by force
    then show ?thesis by (auto simp: response_answers_eq)
  qed
  moreover have "\<exists>owner ip. RR_A owner (snd (response_answers ?q ?as)) ip \<in> set ?as \<and>
      normalizeDNSName owner \<in> reachable_names ?q ?as" if "?acc \<noteq> []"
  proof -
    have "snd (response_answers ?q ?as) \<in> fst ` set ?acc"
      using that Min_in [of "fst ` set ?acc"] by (simp add: response_answers_eq)
    then obtain ip where "(snd (response_answers ?q ?as), ip) \<in> set ?acc" by force
    then show ?thesis unfolding set_accepted by blast
  qed
  ultimately show ?thesis
    by (auto simp: response_answers_eq reachable_names_def)
qed


text \<open>A query for an allowed name and one for another; a response with a CNAME and a stray record.\<close>

definition sample_policy :: Policy where
  "sample_policy = NewPolicy [\<lparr>Name = ''*.docker.io'', Ports = [443], HostSpec_Protocol = 0\<rparr>]"

definition sample_interceptor :: DNSInterceptor where
  "sample_interceptor = NewDNSInterceptor sample_policy (192, 168, 127, 1) []"

definition sample_question :: "string \<Rightarrow> dns_question" where
  "sample_question n = \<lparr>q_Name = n, q_Qtype = 1, q_Qclass = 1\<rparr>"

definition sample_response :: dns_msg where
  "sample_response = (nxdomain_msg 7 ''Auth.docker.io.'' 1)\<lparr>msg_Rcode := 0,
     msg_Answer := [RR_A ''evil.test.'' 5 [1, 2, 3, 4],
       RR_CNAME ''auth.docker.io.'' 300 ''cdn.example.net.'',
       RR_A ''cdn.example.net.'' 30 [93, 184, 216, 34]]\<rparr>"

definition sample_header :: PacketHeader where
  "sample_header = \<lparr>SrcIP = (192, 168, 127, 2), DstIP = (192, 168, 127, 1), Protocol = 17,
     SrcPort = 0x1234, DstPort = 53\<rparr>"

lemma sample_query_parses: "ParseHeaders sample_query = Some (Some sample_header)"
  by (simp add: ParseHeaders_def sample_query_def sample_header_def ihl_of_def be16_def ip4_of_def
      byte_or_zero_def Let_def)

lemma sample_payload: "ExtractUDPPayload sample_query = Some (Inr [0xAB, 0xCD])"
  by (simp add: ExtractUDPPayload_def sample_query_def ihl_of_def be16_def slice_from_def Let_def)

lemmas name_simps = normalizeDNSName_def normal_name_def ToLower_def char_lower_def TrimSuffix_def
  HasSuffix_def HasPrefix_def

lemma sample_allowed: "IsAllowed sample_policy ''auth.docker.io''" "\<not> IsAllowed sample_policy ''docker.io''"
  "HostPorts sample_policy ''auth.docker.io'' = ([443], 0)"
  by (simp_all add: sample_policy_def NewPolicy_def IsAllowed_def matchHost_def hostEntry_of_def
      entry_admits_def HostPorts_def name_simps)

lemma sample_names:
  "normalizeDNSName ''Auth.docker.io.'' = ''auth.docker.io''"
  "normalizeDNSName ''auth.docker.io.'' = ''auth.docker.io''"
  "normalizeDNSName ''cdn.example.net.'' = ''cdn.example.net''"
  by code_simp+

lemma sample_reachable:
  "(''auth.docker.io'', ''cdn.example.net'') \<in> (cname_edges (msg_Answer sample_response))\<^sup>*"
proof (rule r_into_rtrancl)
  have "RR_CNAME ''auth.docker.io.'' 300 ''cdn.example.net.'' \<in> set (msg_Answer sample_response)"
    by (simp add: sample_response_def)
  then have "(normalizeDNSName ''auth.docker.io.'', normalizeDNSName ''cdn.example.net.'')
      \<in> cname_edges (msg_Answer sample_response)"
    unfolding cname_edges_def by blast
  then show "(''auth.docker.io'', ''cdn.example.net'') \<in> cname_edges (msg_Answer sample_response)"
    by (simp only: sample_names)
qed


lemma sample_answer:
  "RR_A ''cdn.example.net.'' 30 [93, 184, 216, 34] \<in> set (msg_Answer sample_response)"
  "(normalizeDNSName ''Auth.docker.io.'', normalizeDNSName ''cdn.example.net.'') \<in>
     (cname_edges (msg_Answer sample_response))\<^sup>*"
  "msg_Question sample_response = [\<lparr>q_Name = ''Auth.docker.io.'', q_Qtype = 1, q_Qclass = ClassINET\<rparr>]"
  by (simp add: sample_response_def, simp only: sample_names sample_reachable,
      simp add: sample_response_def nxdomain_msg_def)

theorem ParseDNSResponse_reachable_witness:
  "\<exists>ips ttl. ParseDNSResponse (\<lambda>_. Some sample_response) [] = Inr (''auth.docker.io'', ips, ttl) \<and>
     [93, 184, 216, 34] \<in> set ips \<and> ttl \<le> 30"
  using ParseDNSResponse_reachable [of "\<lambda>_. Some sample_response" "[]", OF refl sample_answer(3)]
    sample_answer(1,2)
  unfolding dns_question.select_convs sample_names(1) by blast

lemma sample_teaches:
  "teaches (\<lambda>_. Some sample_response) sample_interceptor sample_query (reverse_hdr sample_header)
     ''auth.docker.io'' [93, 184, 216, 34]"
  unfolding teaches_def
proof (intro conjI exI)
  show "RR_A ''cdn.example.net.'' 30 [93, 184, 216, 34] \<in> set (msg_Answer sample_response)"
    by (rule sample_answer)
  show "normalizeDNSName ''cdn.example.net.'' \<in> reachable_names ''auth.docker.io'' (msg_Answer sample_response)"
    using sample_reachable by (simp add: reachable_names_def sample_names)
qed (simp_all add: sample_allowed sample_payload sample_answer(3) sample_names sample_header_def
    sample_interceptor_def NewDNSInterceptor_def)

lemma sample_learned:
  "learned_rules (\<lambda>_. Some sample_response) sample_interceptor sample_query (reverse_hdr sample_header) =
     ([dns_rule [93, 184, 216, 34] 6 443, dns_rule [93, 184, 216, 34] 17 443], 30)"
proof -
  have "response_answers ''auth.docker.io'' (msg_Answer sample_response) = ([[93, 184, 216, 34]], 30)"
    by code_simp
  then have "ParseDNSResponse (\<lambda>_. Some sample_response) [0xAB, 0xCD] =
      Inr (''auth.docker.io'', [[93, 184, 216, 34]], 30)"
    by (simp add: ParseDNSResponse_def sample_answer(3) sample_names)
  then show ?thesis
    by (simp add: learned_rules_def sample_payload sample_allowed sample_header_def
        sample_interceptor_def NewDNSInterceptor_def ingress_rules_def rule_protos_def To4_def)
qed

lemma dns_only_new: "dns_only NewDynamicRules"
  by (simp add: dns_only_def NewDynamicRules_def)

lemma sample_permits:
  "To4 [93, 184, 216, 34] = Some (ip4_bytes (DstIP sample_tcp))"
  "policy_permits (di_policy sample_interceptor) ''auth.docker.io'' sample_tcp"
  by (simp_all add: To4_def sample_tcp_def policy_permits_def sample_interceptor_def
      NewDNSInterceptor_def sample_allowed)

lemma sample_not_before: "Match t NewDynamicRules d h = None"
  by (simp add: Match_def NewDynamicRules_def)

text \<open>
  C7. Snooping never opens more than the policy: after \<open>HandleIngress\<close> on any frame, a
  packet that the dynamic rules now allow was allowed before, or goes out to the IPv4 address
  of an A record that the response of the gateway attached, through its own CNAME chain, to a
  name the policy allows, with a protocol and port the policy entry permits.
\<close>

theorem HandleIngress_opens_only_policy:
  assumes "HandleIngress unpack now d frame (Some h) dr = Some dr'" "dns_only dr"
    and "Match t dr' dir pkt = Some Allow"
  shows "dns_only dr' \<and>
    (Match t dr dir pkt = Some Allow \<or>
     dir = Egress \<and> (\<exists>qname ip. teaches unpack d frame h qname ip \<and>
       To4 ip = Some (ip4_bytes (DstIP pkt)) \<and> policy_permits (di_policy d) qname pkt))"
proof -
  note keeps = HandleIngress_dns_only [OF assms(2,1)]
  have "opens t dr' dir pkt" using assms(3) keeps by (simp add: Match_dns_only split: if_splits)
  from HandleIngress_opens [OF assms(2,1) this] show ?thesis
    using keeps by (auto simp: Match_dns_only [OF assms(2)])
qed

text \<open>The dynamic rules after the sample response at instant zero.\<close>

definition sample_dynamic :: DynamicRules where
  "sample_dynamic = add_rules (\<lambda>_. 0) (clamp_ttl sample_interceptor 30)
     [dns_rule [93, 184, 216, 34] 6 443, dns_rule [93, 184, 216, 34] 17 443] NewDynamicRules"

lemma sample_dynamic_match: "Match 0 sample_dynamic Egress sample_tcp = Some Allow"
proof -
  have "0 < clamp_ttl sample_interceptor 30"
    by (simp add: sample_interceptor_def NewDNSInterceptor_def clamp_ttl_def defaultMinTTL_def
        defaultMaxTTL_def second_def minute_def)
  then show ?thesis
    by (simp add: sample_dynamic_def Match_def Add_def NewDynamicRules_def defaultMaxDynamicRules_def
        same_rule_def dns_rule_def After_def Matches_dns_rule [unfolded dns_rule_def] sample_tcp_def)
qed

lemma sample_dynamic_ingress: "Match t sample_dynamic Ingress h = None"
proof -
  have "is_dns_rule (dns_rule [93, 184, 216, 34] p 443)" for p
    unfolding is_dns_rule_def
    by (intro exI [of _ "[93, 184, 216, 34]"] exI [of _ p] exI [of _ 443]) simp
  then have "dns_only sample_dynamic"
    unfolding sample_dynamic_def by (intro add_rules_dns_only dns_only_new) simp
  then show ?thesis
    using opens_egress by (auto simp: Match_dns_only)
qed

theorem HandleIngress_opens_only_policy_witness:
  "\<exists>qname ip. teaches (\<lambda>_. Some sample_response) sample_interceptor sample_query
       (reverse_hdr sample_header) qname ip \<and>
     To4 ip = Some (ip4_bytes (DstIP sample_tcp)) \<and>
     policy_permits (di_policy sample_interceptor) qname sample_tcp"
proof -
  have "HandleIngress (\<lambda>_. Some sample_response) (\<lambda>_. 0) sample_interceptor sample_query
      (Some (reverse_hdr sample_header)) NewDynamicRules = Some sample_dynamic"
    by (simp add: HandleIngress_eq sample_learned sample_dynamic_def)
  from HandleIngress_opens_only_policy [OF this dns_only_new sample_dynamic_match] show ?thesis
    by (simp add: sample_not_before)
qed

text \<open>
  Snooping opens all that was learned, for the clamped TTL: while the rules fit the
  capacity and none has expired, the dynamic rules allow exactly the packets they allowed
  before and those to a learned address that the policy entry permits.
\<close>

theorem HandleIngress_opens_learned:
  assumes "dns_only dr"
    and "length (entries dr) + length (fst (learned_rules unpack d frame h)) \<le> maxRules dr"
    and "\<forall>i < length (fst (learned_rules unpack d frame h)).
      t \<le> now i + clamp_ttl d (snd (learned_rules unpack d frame h))"
  shows "\<exists>dr'. HandleIngress unpack now d frame (Some h) dr = Some dr' \<and>
    (Match t dr' dir pkt = Some Allow \<longleftrightarrow>
     Match t dr dir pkt = Some Allow \<or>
     dir = Egress \<and> (\<exists>qname ip. teaches unpack d frame h qname ip \<and>
       To4 ip = Some (ip4_bytes (DstIP pkt)) \<and> policy_permits (di_policy d) qname pkt))"
proof -
  let ?rs = "fst (learned_rules unpack d frame h)"
  let ?dr = "add_rules now (clamp_ttl d (snd (learned_rules unpack d frame h))) ?rs dr"
  have "dns_only ?dr" by (rule add_rules_dns_only [OF assms(1) learned_rules_dns])
  moreover have "opens t ?dr dir pkt \<longleftrightarrow> opens t dr dir pkt \<or> (\<exists>r \<in> set ?rs. Matches r dir pkt)"
    by (rule add_rules_opens [OF assms(1) learned_rules_dns assms(2,3)])
  ultimately show ?thesis
    by (auto simp: HandleIngress_eq Match_dns_only [OF assms(1)] Match_dns_only learned_rules_match)
qed

theorem HandleIngress_opens_learned_witness:
  "\<exists>dr'. HandleIngress (\<lambda>_. Some sample_response) (\<lambda>i. int i) sample_interceptor sample_query
       (Some (reverse_hdr sample_header)) NewDynamicRules = Some dr' \<and>
     Match (60 * second) dr' Egress sample_tcp = Some Allow"
proof -
  have "60 * second \<le> clamp_ttl sample_interceptor 30"
    by (simp add: sample_interceptor_def NewDNSInterceptor_def clamp_ttl_def defaultMinTTL_def
        defaultMaxTTL_def second_def minute_def)
  then have "\<forall>i < 2. 60 * second \<le> int i + clamp_ttl sample_interceptor 30" by simp
  moreover have "length (entries NewDynamicRules) + 2 \<le> maxRules NewDynamicRules"
    by (simp add: NewDynamicRules_def defaultMaxDynamicRules_def)
  ultimately show ?thesis
    using HandleIngress_opens_learned [OF dns_only_new, of "\<lambda>_. Some sample_response"
        sample_interceptor sample_query "reverse_hdr sample_header" "60 * second" "\<lambda>i. int i" Egress
        sample_tcp] sample_teaches sample_permits
    by (auto simp: sample_learned)
qed

text \<open>
  The lifetime of a dynamic rule is bounded: with the defaults every TTL, from zero to
  the largest 32-bit value, gives a rule between one and five minutes, and the conversion of
  the TTL to nanoseconds stays within a 64-bit duration.
\<close>

theorem rule_lifetime_bounds:
  "60 * second \<le> clamp_ttl (NewDNSInterceptor p gw []) ttl \<and>
   clamp_ttl (NewDNSInterceptor p gw []) ttl \<le> 300 * second \<and>
   uint (ttl :: u32) * second \<le> maxDuration"
proof -
  have "uint ttl < 2 ^ 32" using uint_lt2p [of ttl] by simp
  then have "uint ttl * second \<le> maxDuration"
    by (simp add: second_def maxDuration_def)
  then show ?thesis
    using clamp_ttl_default [of "NewDNSInterceptor p gw []"] by (simp add: NewDNSInterceptor_def)
qed

text \<open>
  \<open>HandleIngress\<close> panics on a nil header: the branch that guards against it evaluates
  a field of the header for its log message.
\<close>

theorem HandleIngress_nil_header_panics:
  "HandleIngress unpack now d frame None dr = None \<and>
   (\<forall>h. HandleIngress unpack now d frame (Some h) dr \<noteq> None)"
  by (simp add: HandleIngress_nil HandleIngress_eq)

end
