(* ===== verification/Relay.thy ===== *)
theory Relay
  imports Egress
begin

text \<open>
  The frame relay of \<^verbatim>\<open>net/firewall/relay.go\<close>: the treatment of one frame, the
  forwarding loop over a length-prefixed byte stream, the locked writer to the VM, and the
  interleaving of the two forwarding goroutines with the expiry goroutine.

  The locale \<open>dns_hook\<close> is the contract of the interface \<^verbatim>\<open>DNSHook\<close>; the lemmas on
  the relay are proved in it, and it is interpreted on the DNS interceptor of
  \<^verbatim>\<open>net/egress\<close>.
\<close>

section \<open>Definitions\<close>

definition maxFrameSize :: u32 where "maxFrameSize = 65535"

text \<open>
  A value of the interface \<^verbatim>\<open>DNSHook\<close>. The dynamic rules \<open>HandleIngress\<close> changes are
  the ones the filter reads.
\<close>

record DNSHook =
  hook_egress :: "bytes \<Rightarrow> PacketHeader \<Rightarrow> InterceptResult go"
  hook_ingress :: "(nat \<Rightarrow> time) \<Rightarrow> bytes \<Rightarrow> PacketHeader \<Rightarrow> DynamicRules \<Rightarrow> DynamicRules go"

text \<open>The interceptor as a hook.\<close>

definition interceptor_hook :: "unpack \<Rightarrow> pack \<Rightarrow> DNSInterceptor \<Rightarrow> DNSHook" where
  "interceptor_hook unpack pack d =
     \<lparr>hook_egress = \<lambda>frame h. HandleEgress unpack pack d frame,
      hook_ingress = \<lambda>now frame h dr. HandleIngress unpack now d frame (Some h) dr\<rparr>"

text \<open>
  What the environment decides while one frame is treated: the clock readings, and the
  outcome of the writes (None: complete; \<open>Some k\<close>: an error after \<open>k\<close> bytes).
\<close>

record frame_env =
  env_t1 :: time
  env_t2 :: time
  env_t3 :: time
  env_now :: "nat \<Rightarrow> time"
  env_w1 :: "nat option"
  env_w2 :: "nat option"

datatype decision = DropFrame | RespondWith bytes | ForwardFrame

text \<open>The interception of DNS frames; None when the frame goes on to the filter.\<close>

definition dns_stage ::
  "DNSHook option \<Rightarrow> (nat \<Rightarrow> time) \<Rightarrow> Direction \<Rightarrow> bytes \<Rightarrow> PacketHeader option \<Rightarrow> Filter \<Rightarrow>
   (decision option \<times> Filter) go" where
  "dns_stage hook now dir frame hdr f =
     (case (hook, hdr) of
        (Some hk, Some h) \<Rightarrow>
          if Protocol h \<noteq> 17 then Some (None, f)
          else if dir = Egress \<and> DstPort h = 53 then do {
            r \<leftarrow> hook_egress hk frame h;
            case ir_Action r of
              InterceptDrop \<Rightarrow> Some (Some DropFrame, f)
            | InterceptRespond \<Rightarrow> Some (Some (RespondWith (ResponseFrame r)), f)
            | InterceptForward \<Rightarrow> Some (None, f)
          }
          else if dir = Ingress \<and> SrcPort h = 53 then do {
            dr \<leftarrow> hook_ingress hk now frame h
              (case filter_dynamic f of Some dr \<Rightarrow> dr | None \<Rightarrow> NewDynamicRules);
            Some (None, f\<lparr>filter_dynamic := map_option (\<lambda>_. dr) (filter_dynamic f)\<rparr>)
          }
          else Some (None, f)
      | _ \<Rightarrow> Some (None, f))"

text \<open>The decision on one frame, with the new state of the filter.\<close>

definition relay_decide ::
  "DNSHook option \<Rightarrow> frame_env \<Rightarrow> Direction \<Rightarrow> bytes \<Rightarrow> Filter \<Rightarrow> (decision \<times> Filter) go" where
  "relay_decide hook env dir frame f = do {
     hdr \<leftarrow> ParseHeaders frame;
     (d, f) \<leftarrow> dns_stage hook (env_now env) dir frame hdr f;
     case d of
       Some x \<Rightarrow> Some (x, f)
     | None \<Rightarrow>
         (case hdr of
            None \<Rightarrow>
              if (hook \<noteq> None \<or> defaultAction f = Deny) \<and> 14 \<le> length frame then do {
                etherType \<leftarrow> u16_at frame 12 14;
                Some (if etherType \<noteq> 0x0806 then DropFrame else ForwardFrame, f)
              }
              else Some (ForwardFrame, f)
          | Some h \<Rightarrow>
              (case Verdict (env_t1 env) (env_t2 env) (env_t3 env) f dir h of
                 (Deny, f) \<Rightarrow> Some (DropFrame, f)
               | (Allow, f) \<Rightarrow> Some (ForwardFrame, f)))
   }"

record relay_st =
  rl_filter :: Filter
  FramesForwarded :: u64
  FramesDropped :: u64
  BytesForwarded :: u64
  vm_out :: bytes
  net_out :: bytes

definition NewRelay :: "Filter \<Rightarrow> relay_st" where
  "NewRelay f = \<lparr>rl_filter = f, FramesForwarded = 0, FramesDropped = 0, BytesForwarded = 0,
     vm_out = [], net_out = []\<rparr>"

datatype relay_error =
  ReadPrefixFailed | FrameTooLong u32 | ReadPayloadFailed | WriteResponseFailed
| WriteFrameFailed | WritePrefixFailed | WritePayloadFailed | ContextDone

definition wrapError :: "bool \<Rightarrow> relay_error \<Rightarrow> relay_error" where
  "wrapError ctxDone err = (if ctxDone then ContextDone else err)"

text \<open>One \<^verbatim>\<open>conn.Write\<close>: the stream after it, and whether it succeeded.\<close>

definition conn_write :: "nat option \<Rightarrow> bytes \<Rightarrow> bytes \<Rightarrow> bytes \<times> bool" where
  "conn_write w data out =
     (case w of None \<Rightarrow> (out @ data, True) | Some k \<Rightarrow> (out @ take k data, False))"

text \<open>The length prefix and the frame; an error of either write ends it.\<close>

definition write_frame ::
  "nat option \<Rightarrow> nat option \<Rightarrow> bytes \<Rightarrow> bytes \<Rightarrow> bytes \<times> bool \<times> bool" where
  "write_frame w1 w2 frame out =
     (let (out, ok1) = conn_write w1 (put32 (of_nat (length frame))) out
      in if \<not> ok1 then (out, False, False)
         else let (out, ok2) = conn_write w2 frame out in (out, True, ok2))"

definition forward_frame ::
  "DNSHook option \<Rightarrow> frame_env \<Rightarrow> Direction \<Rightarrow> bytes \<Rightarrow> relay_st \<Rightarrow> (relay_error option \<times> relay_st) go"
  where
  "forward_frame hook env dir frame st = do {
     (d, f) \<leftarrow> relay_decide hook env dir frame (rl_filter st);
     let st = st\<lparr>rl_filter := f\<rparr>;
     case d of
       DropFrame \<Rightarrow> Some (None, st\<lparr>FramesDropped := FramesDropped st + 1\<rparr>)
     | RespondWith resp \<Rightarrow>
         let st = st\<lparr>FramesDropped := FramesDropped st + 1\<rparr>;
             (out, ok1, ok2) = write_frame (env_w1 env) (env_w2 env) resp (vm_out st);
             st = st\<lparr>vm_out := out\<rparr>
         in Some (if ok1 \<and> ok2 then None else Some WriteResponseFailed, st)
     | ForwardFrame \<Rightarrow>
         let st = st\<lparr>FramesForwarded := FramesForwarded st + 1,
               BytesForwarded := BytesForwarded st + of_nat (length frame)\<rparr>;
             (out, ok1, ok2) = write_frame (env_w1 env) (env_w2 env) frame
               (if dir = Ingress then vm_out st else net_out st);
             st = (if dir = Ingress then st\<lparr>vm_out := out\<rparr> else st\<lparr>net_out := out\<rparr>)
         in Some (if ok1 \<and> ok2 then None
                  else if dir = Ingress \<and> hook \<noteq> None then Some WriteFrameFailed
                  else if \<not> ok1 then Some WritePrefixFailed
                  else Some WritePayloadFailed, st)
   }"

text \<open>
  The loop over the input stream: \<open>inp\<close> is what the peer sends before it closes the
  connection, \<open>env i\<close> the environment of the \<open>i\<close>-th frame.
\<close>

function forward ::
  "DNSHook option \<Rightarrow> (nat \<Rightarrow> frame_env) \<Rightarrow> bool \<Rightarrow> Direction \<Rightarrow> bytes \<Rightarrow> relay_st \<Rightarrow>
   (relay_error \<times> relay_st) go" where
  "forward hook env ctxDone dir inp st =
     (case inp of
        b0 # b1 # b2 # b3 # rest \<Rightarrow>
          let frameLen = be32 b0 b1 b2 b3 in
          if frameLen = 0 then forward hook env ctxDone dir rest st
          else if maxFrameSize < frameLen then Some (wrapError ctxDone (FrameTooLong frameLen), st)
          else if length rest < unat frameLen then Some (wrapError ctxDone ReadPayloadFailed, st)
          else (case forward_frame hook (env 0) dir (take (unat frameLen) rest) st of
              None \<Rightarrow> None
            | Some (Some err, st) \<Rightarrow> Some (wrapError ctxDone err, st)
            | Some (None, st) \<Rightarrow>
                forward hook (\<lambda>i. env (Suc i)) ctxDone dir (drop (unat frameLen) rest) st)
      | _ \<Rightarrow> Some (wrapError ctxDone ReadPrefixFailed, st))"
  by pat_completeness auto
termination
  by (relation "measure (\<lambda>(hook, env, ctxDone, dir, inp, st). length inp)") auto

declare forward.simps [simp del]

text \<open>
  The two goroutines of \<open>Run\<close> and the expiry goroutine share the filter: frames of both
  directions and ticks are treated in any order. The log records the decisions.
\<close>

type_synonym relay_log = "(Direction \<times> bytes \<times> decision) list"

inductive relay_run :: "DNSHook option \<Rightarrow> Filter \<Rightarrow> relay_log \<Rightarrow> Filter \<Rightarrow> bool"
  for hook f0 where
  run_start: "relay_run hook f0 [] f0"
| run_frame: "relay_run hook f0 log f \<Longrightarrow> relay_decide hook env dir frame f = Some (d, f') \<Longrightarrow>
    relay_run hook f0 (log @ [(dir, frame, d)]) f'"
| run_tick: "relay_run hook f0 log f \<Longrightarrow> relay_run hook f0 log (expiry_tick t1 t2 f)"

section \<open>What a log has opened\<close>

text \<open>
  \<open>may_open frame g pkt\<close>: the hook may open \<open>pkt\<close> when it sees the ingress frame
  \<open>frame\<close> with header \<open>g\<close>.
\<close>

type_synonym may_open = "bytes \<Rightarrow> PacketHeader \<Rightarrow> PacketHeader \<Rightarrow> bool"

definition learned :: "may_open \<Rightarrow> relay_log \<Rightarrow> PacketHeader \<Rightarrow> bool" where
  "learned mo log pkt \<longleftrightarrow>
     (\<exists>k < length log. \<exists>frame d g. log ! k = (Ingress, frame, d) \<and>
        ParseHeaders frame = Some (Some g) \<and> mo frame g pkt)"

definition admitted :: "may_open \<Rightarrow> Rule list \<Rightarrow> relay_log \<Rightarrow> Direction \<Rightarrow> PacketHeader \<Rightarrow> bool" where
  "admitted mo rules log dir h \<longleftrightarrow>
     first_match dir h rules = Some Allow \<or>
     dir = Egress \<and> first_match dir h rules = None \<and> learned mo log h"

definition flow_opened :: "may_open \<Rightarrow> Rule list \<Rightarrow> relay_log \<Rightarrow> PacketHeader \<Rightarrow> bool" where
  "flow_opened mo rules log h \<longleftrightarrow>
     (\<exists>j < length log. \<exists>dir frame h'. log ! j = (dir, frame, ForwardFrame) \<and>
        ParseHeaders frame = Some (Some h') \<and> same_flow h h' \<and> admitted mo rules (take j log) dir h')"

lemma learned_snoc: "learned mo log pkt \<Longrightarrow> learned mo (log @ [x]) pkt"
  unfolding learned_def by (metis length_append_singleton less_SucI nth_append)

lemma learned_last:
  "ParseHeaders frame = Some (Some g) \<Longrightarrow> mo frame g pkt \<Longrightarrow>
   learned mo (log @ [(Ingress, frame, d)]) pkt"
  unfolding learned_def by (intro exI [of _ "length log"]) simp

lemma flow_opened_snoc: "flow_opened mo rules log h \<Longrightarrow> flow_opened mo rules (log @ [x]) h"
  unfolding flow_opened_def
  by (elim exE conjE, rule_tac x = j in exI) (auto simp: nth_append)

lemma flow_opened_last:
  "ParseHeaders frame = Some (Some h') \<Longrightarrow> same_flow h h' \<Longrightarrow> admitted mo rules log dir h' \<Longrightarrow>
   flow_opened mo rules (log @ [(dir, frame, ForwardFrame)]) h"
  unfolding flow_opened_def by (intro exI [of _ "length log"]) auto

lemma flow_opened_same: "flow_opened mo rules log h' \<Longrightarrow> same_flow h h' \<Longrightarrow> flow_opened mo rules log h"
  unfolding flow_opened_def using same_flow_trans by blast

lemma admitted_last: "admitted mo rules (log @ [(dir, frame, d)]) dir h \<Longrightarrow> admitted mo rules log dir h"
  by (auto simp: admitted_def learned_def less_Suc_eq nth_append split: if_splits)

lemma relay_decide_total_if:
  assumes "\<And>hdr. \<exists>r. dns_stage hook (env_now env) dir frame hdr f = Some r"
  shows "\<exists>r. relay_decide hook env dir frame f = Some r"
proof -
  obtain hdr where hdr: "ParseHeaders frame = Some hdr" by (auto simp: ParseHeaders_eq)
  obtain sd f1 where st: "dns_stage hook (env_now env) dir frame hdr f = Some (sd, f1)"
    using assms by fastforce
  show ?thesis
    using hdr st by (cases sd; cases hdr) (auto simp: relay_decide_def split: prod.splits Action.splits)
qed

section \<open>The contract of a DNS hook, and the relay under it\<close>

locale dns_hook =
  fixes hk :: DNSHook
    and rules_ok :: "DynamicRules \<Rightarrow> bool"
    and mo :: may_open
  assumes egress_total: "\<exists>r. hook_egress hk frame h = Some r"
    and ingress_total: "\<exists>dr'. hook_ingress hk now frame h dr = Some dr'"
    and ingress_inv: "rules_ok dr \<Longrightarrow> hook_ingress hk now frame h dr = Some dr' \<Longrightarrow> rules_ok dr'"
    and sweep_inv: "rules_ok dr \<Longrightarrow> rules_ok (Sweep t dr)"
    and inv_match: "rules_ok dr \<Longrightarrow> Match t dr d pkt = Some a \<Longrightarrow> d = Egress \<and> a = Allow"
    and ingress_opens:
      "rules_ok dr \<Longrightarrow> hook_ingress hk now frame h dr = Some dr' \<Longrightarrow> Match t dr' Egress pkt = Some Allow \<Longrightarrow>
       Match t dr Egress pkt = Some Allow \<or> mo frame h pkt"
    and sweep_opens:
      "rules_ok dr \<Longrightarrow> Match t (Sweep u dr) Egress pkt = Some Allow \<Longrightarrow> Match t dr Egress pkt = Some Allow"
begin

lemma dns_stage_total: "\<exists>r. dns_stage (Some hk) now dir frame hdr f = Some r"
proof (cases hdr)
  case (Some h)
  obtain r where r: "hook_egress hk frame h = Some r" using egress_total by blast
  obtain dr' where dr': "hook_ingress hk now frame h
      (case filter_dynamic f of Some dr \<Rightarrow> dr | None \<Rightarrow> NewDynamicRules) = Some dr'"
    using ingress_total by blast
  show ?thesis by (cases "ir_Action r") (simp_all add: dns_stage_def Some r dr')
qed (simp add: dns_stage_def)

lemma dns_stage_cases:
  assumes "dns_stage (Some hk) now dir frame hdr f = Some (d, f')"
  obtains "f' = f" "d \<noteq> Some ForwardFrame"
  | h dr' where "d = None" "dir = Ingress" "hdr = Some h"
    "hook_ingress hk now frame h
       (case filter_dynamic f of Some dr \<Rightarrow> dr | None \<Rightarrow> NewDynamicRules) = Some dr'"
    "f' = f\<lparr>filter_dynamic := map_option (\<lambda>_. dr') (filter_dynamic f)\<rparr>"
  using assms
  by (auto simp: dns_stage_def bind_eq_Some_conv
      split: option.splits if_splits InterceptAction.splits; metis InterceptAction.exhaust)

definition relay_inv :: "Rule list \<Rightarrow> relay_log \<Rightarrow> Filter \<Rightarrow> bool" where
  "relay_inv rules log f \<longleftrightarrow>
     filter_rules f = rules \<and> defaultAction f = Deny \<and>
     (\<exists>dr. filter_dynamic f = Some dr \<and> rules_ok dr \<and>
        (\<forall>t pkt. Match t dr Egress pkt = Some Allow \<longrightarrow> learned mo log pkt)) \<and>
     (\<forall>h u. fmlookup (flows (conntrack f)) (flow_key h) = Some u \<longrightarrow> flow_opened mo rules log h)"

lemma relay_inv_tick:
  assumes "relay_inv rules log f"
  shows "relay_inv rules log (expiry_tick t1 t2 f)"
proof -
  from assms obtain dr where dr: "filter_dynamic f = Some dr" "rules_ok dr"
    "\<forall>t pkt. Match t dr Egress pkt = Some Allow \<longrightarrow> learned mo log pkt"
    by (auto simp: relay_inv_def)
  then have "rules_ok (Sweep t2 dr)"
    "\<forall>t pkt. Match t (Sweep t2 dr) Egress pkt = Some Allow \<longrightarrow> learned mo log pkt"
    using sweep_inv sweep_opens by blast+
  then show ?thesis
    using assms dr(1)
    by (auto simp: relay_inv_def expiry_tick_def flow_sweep_lookup split: option.splits if_splits)
qed

lemma relay_inv_log: "relay_inv rules log f \<Longrightarrow> relay_inv rules (log @ [x]) f"
  unfolding relay_inv_def using learned_snoc flow_opened_snoc by metis

text \<open>The state between the DNS stage and the verdict.\<close>

lemma relay_inv_dns_stage:
  assumes "relay_inv rules log f" "ParseHeaders frame = Some hdr"
    and "dns_stage (Some hk) now dir frame hdr f = Some (d, f')"
  shows "relay_inv rules (log @ [(dir, frame, x)]) f' \<and> conntrack f' = conntrack f"
  using assms(3)
proof (cases rule: dns_stage_cases)
  case 1
  then show ?thesis using relay_inv_log [OF assms(1)] by simp
next
  case (2 h dr')
  from assms(1) obtain dr where dr: "filter_dynamic f = Some dr" "rules_ok dr"
    "\<forall>t pkt. Match t dr Egress pkt = Some Allow \<longrightarrow> learned mo log pkt"
    by (auto simp: relay_inv_def)
  have h: "hook_ingress hk now frame h dr = Some dr'" using 2 dr by simp
  have "learned mo (log @ [(dir, frame, x)]) pkt" if "Match t dr' Egress pkt = Some Allow" for t pkt
    using ingress_opens [OF dr(2) h that] dr(3) learned_snoc
      learned_last [of frame h mo pkt log x] assms(2) 2(2,3) by auto
  moreover have "rules_ok dr'" by (rule ingress_inv [OF dr(2) h])
  ultimately show ?thesis
    using 2 dr assms(1) flow_opened_snoc by (simp add: relay_inv_def)
qed

lemma rule_verdict_admitted:
  assumes "relay_inv rules log f" "rule_verdict t f dir h = Some Allow"
  shows "admitted mo rules log dir h"
proof -
  from assms(1) obtain dr where dr: "filter_dynamic f = Some dr" "rules_ok dr"
    "\<forall>t pkt. Match t dr Egress pkt = Some Allow \<longrightarrow> learned mo log pkt" "filter_rules f = rules"
    by (auto simp: relay_inv_def)
  then show ?thesis
    using assms(2) inv_match [OF dr(2), of t dir h Allow]
    by (auto simp: rule_verdict_eq admitted_def split: option.splits)
qed

lemma relay_inv_verdict:
  assumes "relay_inv rules (log @ [x]) f" "relay_inv rules log f0" "conntrack f = conntrack f0"
    and "ParseHeaders frame = Some (Some h)" "x = (dir, frame, ForwardFrame)"
    and "Verdict t1 t2 t3 f dir h = (Allow, f')"
  shows "relay_inv rules (log @ [x]) f' \<and> (admitted mo rules log dir h \<or> flow_opened mo rules log h)"
proof -
  have deny: "defaultAction f = Deny" using assms(1) by (simp add: relay_inv_def)
  have open_or: "admitted mo rules log dir h \<or> flow_opened mo rules log h"
  proof (cases "IsEstablished t1 (conntrack f) h")
    case True
    then obtain u where "fmlookup (flows (conntrack f0)) (flow_key (reverse_hdr h)) = Some u"
      using assms(3) by (auto simp: IsEstablished_eq)
    then have "flow_opened mo rules log (reverse_hdr h)" using assms(2) by (auto simp: relay_inv_def)
    then show ?thesis using flow_opened_same [of mo rules log "reverse_hdr h" h]
      by (simp add: same_flow_def)
  next
    case False
    then have "rule_verdict t2 f dir h = Some Allow"
      using assms(6) deny by (auto simp: Verdict_eq Let_def split: option.splits)
    then show ?thesis using rule_verdict_admitted [OF assms(1)] assms(5) admitted_last by blast
  qed
  then have last: "flow_opened mo rules (log @ [x]) h"
    using flow_opened_snoc flow_opened_last [OF assms(4) same_flow_refl] assms(5) by blast
  have "f' = f \<or> f' = f\<lparr>conntrack := Track t3 (conntrack f) h\<rparr>"
    using assms(6) by (auto simp: Verdict_eq Let_def split: if_splits)
  then have "relay_inv rules (log @ [x]) f'"
    using assms(1) last by (auto simp: relay_inv_def Track_def split: if_splits)
  with open_or show ?thesis by blast
qed

text \<open>One frame: the invariant is kept, and a forwarded frame was admitted or its flow was open.\<close>

lemma relay_inv_decide:
  assumes "relay_inv rules log f" "relay_decide (Some hk) env dir frame f = Some (d, f')"
  shows "relay_inv rules (log @ [(dir, frame, d)]) f' \<and>
    (\<forall>h. d = ForwardFrame \<longrightarrow> ParseHeaders frame = Some (Some h) \<longrightarrow>
       admitted mo rules log dir h \<or> flow_opened mo rules log h)"
proof -
  from assms(2) obtain hdr sd f1 where hdr: "ParseHeaders frame = Some hdr"
    and st: "dns_stage (Some hk) (env_now env) dir frame hdr f = Some (sd, f1)"
    by (auto simp: relay_decide_def bind_eq_Some_conv)
  note inv1 = relay_inv_dns_stage [OF assms(1) hdr st]
  show ?thesis
  proof (cases sd)
    case (Some x)
    then have "d = x \<and> f' = f1" using assms(2) hdr st by (simp add: relay_decide_def)
    moreover have "x \<noteq> ForwardFrame" using st Some by (cases rule: dns_stage_cases) auto
    ultimately show ?thesis using inv1 by simp
  next
    case None
    show ?thesis
    proof (cases hdr)
      case None
      then have "f' = f1"
        using assms(2) hdr st \<open>sd = None\<close>
        by (auto simp: relay_decide_def bind_eq_Some_conv split: if_splits)
      then show ?thesis using inv1 hdr None by simp
    next
      case (Some h)
      let ?v = "Verdict (env_t1 env) (env_t2 env) (env_t3 env) f1 dir h"
      have dec: "d = (if fst ?v = Allow then ForwardFrame else DropFrame) \<and> f' = snd ?v"
        using assms(2) hdr st \<open>sd = None\<close> Some
        by (auto simp: relay_decide_def split: prod.splits Action.splits)
      show ?thesis
      proof (cases "fst ?v")
        case Allow
        then have v: "?v = (Allow, f')" and d: "d = ForwardFrame" using dec by (auto simp: prod_eq_iff)
        show ?thesis
          using relay_inv_verdict [OF _ assms(1) _ _ refl v] inv1 hdr Some d by auto
      next
        case Deny
        then have "f' = f1" using dec by (auto simp: Verdict_eq Let_def split: if_splits option.splits)
        then show ?thesis using inv1 dec Deny by simp
      qed
    qed
  qed
qed

lemma relay_run_inv:
  assumes "relay_run (Some hk) f0 log f" "relay_inv rules [] f0"
  shows "relay_inv rules log f \<and>
    (\<forall>i < length log. \<forall>dir frame h. log ! i = (dir, frame, ForwardFrame) \<longrightarrow>
       ParseHeaders frame = Some (Some h) \<longrightarrow>
       admitted mo rules (take i log) dir h \<or> flow_opened mo rules (take i log) h)"
  using assms
proof (induction rule: relay_run.induct)
  case (run_frame log f env dir frame d f')
  then have "relay_inv rules log f" by blast
  note step = relay_inv_decide [OF this run_frame.hyps(2)]
  show ?case
    using run_frame step by (auto simp: less_Suc_eq nth_append)
qed (auto intro: relay_inv_tick)

lemma relay_decide_total: "\<exists>r. relay_decide (Some hk) env dir frame f = Some r"
  by (rule relay_decide_total_if) (rule dns_stage_total)

end

section \<open>The DNS interceptor is a DNS hook\<close>

definition interceptor_opens :: "unpack \<Rightarrow> DNSInterceptor \<Rightarrow> may_open" where
  "interceptor_opens unpack d frame g pkt \<longleftrightarrow>
     (\<exists>qname ip. teaches unpack d frame g qname ip \<and> To4 ip = Some (ip4_bytes (DstIP pkt)) \<and>
        policy_permits (di_policy d) qname pkt)"

lemma Sweep_dns_only: "dns_only dr \<Longrightarrow> dns_only (Sweep t dr)"
  by (simp add: dns_only_def Sweep_eq)

lemma Sweep_opens: "opens t (Sweep u dr) d h \<Longrightarrow> opens t dr d h"
  by (auto simp: opens_def Sweep_eq)

interpretation icpt: dns_hook "interceptor_hook unpack pack d" dns_only "interceptor_opens unpack d"
  for unpack pack d
proof (unfold_locales, goal_cases)
  case (1 frame h)
  then show ?case by (simp add: interceptor_hook_def HandleEgress_eq)
next
  case (2 now frame h dr)
  then show ?case by (simp add: interceptor_hook_def HandleIngress_eq)
next
  case (3 dr now frame h dr')
  then show ?case using HandleIngress_dns_only by (simp add: interceptor_hook_def)
next
  case (4 dr t)
  then show ?case by (rule Sweep_dns_only)
next
  case (5 dr t d pkt a)
  then show ?case using opens_egress by (auto simp: Match_dns_only split: if_splits)
next
  case (6 dr now frame h dr' t pkt)
  then have h: "HandleIngress unpack now d frame (Some h) dr = Some dr'"
    by (simp add: interceptor_hook_def)
  have "opens t dr' Egress pkt"
    using 6(3) HandleIngress_dns_only [OF 6(1) h] by (simp add: Match_dns_only split: if_splits)
  from HandleIngress_opens [OF 6(1) h this] show ?case
    by (auto simp: Match_dns_only [OF 6(1)] interceptor_opens_def)
next
  case (7 dr t u pkt)
  then show ?case
    using Sweep_opens Sweep_dns_only by (auto simp: Match_dns_only split: if_splits)
qed

lemma relay_inv_init:
  "icpt.relay_inv unpack d rules [] (NewFilterWithDynamic rules Deny (Some NewDynamicRules))"
  by (simp add: icpt.relay_inv_def NewFilterWithDynamic_def dns_only_new sample_not_before
      NewConnTracker_def)

section \<open>The forwarding loop\<close>

definition encode_frame :: "bytes \<Rightarrow> bytes" where
  "encode_frame frame = put32 (of_nat (length frame)) @ frame"

definition encode_frames :: "bytes list \<Rightarrow> bytes" where
  "encode_frames fs = concat (map encode_frame fs)"

definition valid_frame :: "bytes \<Rightarrow> bool" where
  "valid_frame frame \<longleftrightarrow> 0 < length frame \<and> length frame \<le> 65535"

lemma encode_frames_simps [simp]:
  "encode_frames [] = []" "encode_frames (f # fs) = encode_frame f @ encode_frames fs"
  "encode_frames (fs @ gs) = encode_frames fs @ encode_frames gs"
  by (simp_all add: encode_frames_def)

text \<open>The decisions on a sequence of frames.\<close>

fun decisions ::
  "DNSHook option \<Rightarrow> (nat \<Rightarrow> frame_env) \<Rightarrow> Direction \<Rightarrow> bytes list \<Rightarrow> Filter \<Rightarrow> decision list go" where
  "decisions hook env dir [] f = Some []"
| "decisions hook env dir (x # xs) f =
     (case relay_decide hook (env 0) dir x f of
        None \<Rightarrow> None
      | Some (d, f') \<Rightarrow>
          map_option ((#) d) (decisions hook (\<lambda>i. env (Suc i)) dir xs f'))"

definition forwarded :: "decision list \<Rightarrow> bytes list \<Rightarrow> bytes list" where
  "forwarded ds xs = map snd (filter (\<lambda>(d, x). d = ForwardFrame) (zip ds xs))"

definition responses :: "decision list \<Rightarrow> bytes list" where
  "responses ds = concat (map (\<lambda>d. case d of RespondWith r \<Rightarrow> [r] | _ \<Rightarrow> []) ds)"

definition frame_bytes :: "bytes list \<Rightarrow> nat" where
  "frame_bytes xs = sum_list (map length xs)"

lemma forwarded_simps [simp]:
  "forwarded [] xs = []" "forwarded ds [] = []"
  "forwarded (d # ds) (x # xs) = (if d = ForwardFrame then [x] else []) @ forwarded ds xs"
  by (simp_all add: forwarded_def)

lemma responses_simps [simp]:
  "responses [] = []"
  "responses (d # ds) = (case d of RespondWith r \<Rightarrow> [r] | _ \<Rightarrow> []) @ responses ds"
  by (simp_all add: responses_def)

lemma frame_bytes_simps [simp]:
  "frame_bytes [] = 0" "frame_bytes (x # xs) = length x + frame_bytes xs"
  "frame_bytes (xs @ ys) = frame_bytes xs + frame_bytes ys"
  by (simp_all add: frame_bytes_def)

lemma write_frame_ok: "write_frame None None frame out = (out @ encode_frame frame, True, True)"
  by (simp add: write_frame_def conn_write_def encode_frame_def)

lemma forward_frame_ok:
  assumes "relay_decide hook env dir frame (rl_filter st) = Some (d, f)"
    and "env_w1 env = None" "env_w2 env = None"
  shows "\<exists>st'. forward_frame hook env dir frame st = Some (None, st') \<and> rl_filter st' = f \<and>
    net_out st' = net_out st @ (if dir = Egress \<and> d = ForwardFrame then encode_frame frame else []) \<and>
    vm_out st' = vm_out st @ (if dir = Ingress \<and> d = ForwardFrame then encode_frame frame else []) @
      (case d of RespondWith r \<Rightarrow> encode_frame r | _ \<Rightarrow> []) \<and>
    FramesForwarded st' = FramesForwarded st + (if d = ForwardFrame then 1 else 0) \<and>
    FramesDropped st' = FramesDropped st + (if d = ForwardFrame then 0 else 1) \<and>
    BytesForwarded st' = BytesForwarded st + (if d = ForwardFrame then of_nat (length frame) else 0)"
  using assms
  by (cases d; cases dir) (simp_all add: forward_frame_def write_frame_ok Let_def)

lemma be32_of_put32:
  assumes "put32 w = [a, b, c, d]"
  shows "be32 a b c d = w"
  using assms by (auto simp: put32_def)

lemma forward_encoded:
  assumes "valid_frame x"
  shows "forward hook env ctxDone dir (encode_frame x @ rest) st =
    (case forward_frame hook (env 0) dir x st of
       None \<Rightarrow> None
     | Some (Some err, st) \<Rightarrow> Some (wrapError ctxDone err, st)
     | Some (None, st) \<Rightarrow> forward hook (\<lambda>i. env (Suc i)) ctxDone dir rest st)"
proof -
  let ?w = "of_nat (length x) :: u32"
  have len: "length x < 4294967296" using assms by (simp add: valid_frame_def)
  then have un: "unat ?w = length x" by (simp add: unsigned_of_nat take_bit_nat_eq_self)
  have "?w \<noteq> 0" "\<not> maxFrameSize < ?w"
    using assms un by (auto simp: valid_frame_def maxFrameSize_def word_less_nat_alt unat_eq_0 [symmetric])
  moreover obtain a b c d where abcd: "put32 ?w = [a, b, c, d]" by (simp add: put32_def)
  moreover from abcd have "be32 a b c d = ?w" by (rule be32_of_put32)
  ultimately show ?thesis
    by (subst forward.simps) (simp add: encode_frame_def un split: option.split)
qed

lemma ingress_no_response:
  assumes "relay_decide hook env Ingress frame f = Some (d, f')"
  shows "d \<noteq> RespondWith r"
proof -
  have "dns_stage hook now Ingress frame hdr f = Some (sd, f1) \<Longrightarrow> sd = None" for now hdr sd f1
    by (auto simp: dns_stage_def bind_eq_Some_conv split: option.splits if_splits)
  then show ?thesis
    using assms
    by (fastforce simp: relay_decide_def bind_eq_Some_conv
        split: option.splits if_splits prod.splits Action.splits)
qed

lemma forward_frames:
  assumes "\<forall>x \<in> set xs. valid_frame x" "\<forall>i. env_w1 (env i) = None \<and> env_w2 (env i) = None"
    and "decisions hook env dir xs (rl_filter st) = Some ds"
  shows "\<exists>st'. forward hook env ctxDone dir (encode_frames xs) st =
      Some (wrapError ctxDone ReadPrefixFailed, st') \<and>
    (dir = Egress \<longrightarrow> net_out st' = net_out st @ encode_frames (forwarded ds xs) \<and>
      vm_out st' = vm_out st @ encode_frames (responses ds)) \<and>
    (dir = Ingress \<longrightarrow> vm_out st' = vm_out st @ encode_frames (forwarded ds xs) \<and>
      net_out st' = net_out st) \<and>
    FramesForwarded st' = FramesForwarded st + of_nat (length (forwarded ds xs)) \<and>
    FramesDropped st' = FramesDropped st + of_nat (length xs - length (forwarded ds xs)) \<and>
    BytesForwarded st' = BytesForwarded st + of_nat (frame_bytes (forwarded ds xs))"
  using assms
proof (induction xs arbitrary: env st ds)
  case Nil
  then show ?case by (simp add: forward.simps)
next
  case (Cons x xs)
  from Cons.prems(3) obtain d f ds' where d: "relay_decide hook (env 0) dir x (rl_filter st) = Some (d, f)"
    and ds: "decisions hook (\<lambda>i. env (Suc i)) dir xs f = Some ds'" "ds = d # ds'"
    by (auto split: option.splits)
  from forward_frame_ok [OF d] Cons.prems(2) obtain st1 where
    st1: "forward_frame hook (env 0) dir x st = Some (None, st1)" "rl_filter st1 = f"
    "net_out st1 = net_out st @ (if dir = Egress \<and> d = ForwardFrame then encode_frame x else [])"
    "vm_out st1 = vm_out st @ (if dir = Ingress \<and> d = ForwardFrame then encode_frame x else []) @
      (case d of RespondWith r \<Rightarrow> encode_frame r | _ \<Rightarrow> [])"
    "FramesForwarded st1 = FramesForwarded st + (if d = ForwardFrame then 1 else 0)"
    "FramesDropped st1 = FramesDropped st + (if d = ForwardFrame then 0 else 1)"
    "BytesForwarded st1 = BytesForwarded st + (if d = ForwardFrame then of_nat (length x) else 0)"
    by auto
  have "length (forwarded ds' xs) \<le> length xs"
    by (simp add: forwarded_def order.trans [OF length_filter_le])
  moreover from Cons.IH [of "\<lambda>i. env (Suc i)" st1 ds'] Cons.prems ds st1(2)
  obtain st' where "forward hook (\<lambda>i. env (Suc i)) ctxDone dir (encode_frames xs) st1 =
      Some (wrapError ctxDone ReadPrefixFailed, st')"
    "dir = Egress \<longrightarrow> net_out st' = net_out st1 @ encode_frames (forwarded ds' xs) \<and>
      vm_out st' = vm_out st1 @ encode_frames (responses ds')"
    "dir = Ingress \<longrightarrow> vm_out st' = vm_out st1 @ encode_frames (forwarded ds' xs) \<and>
      net_out st' = net_out st1"
    "FramesForwarded st' = FramesForwarded st1 + of_nat (length (forwarded ds' xs))"
    "FramesDropped st' = FramesDropped st1 + of_nat (length xs - length (forwarded ds' xs))"
    "BytesForwarded st' = BytesForwarded st1 + of_nat (frame_bytes (forwarded ds' xs))"
    by auto
  moreover have "dir = Ingress \<Longrightarrow> d \<noteq> RespondWith r" for r using d ingress_no_response by auto
  ultimately show ?case
    using Cons.prems(1) st1 ds(2)
    by (cases d; cases dir) (auto simp: forward_encoded Suc_diff_le)
qed

lemma forward_frame_total:
  "\<exists>r. relay_decide hook env dir frame (rl_filter st) = Some r \<Longrightarrow>
   \<exists>r. forward_frame hook env dir frame st = Some r"
  by (auto simp: forward_frame_def Let_def split: decision.splits prod.splits)

lemma forward_total_if:
  assumes "\<And>env frame f. \<exists>r. relay_decide hook env dir frame f = Some r"
  shows "\<exists>r. forward hook env ctxDone dir inp st = Some r"
proof (induction "length inp" arbitrary: env inp st rule: less_induct)
  case less
  show ?case
  proof (cases "\<exists>b0 b1 b2 b3 rest. inp = b0 # b1 # b2 # b3 # rest")
    case True
    then obtain b0 b1 b2 b3 rest where inp: "inp = b0 # b1 # b2 # b3 # rest" by blast
    let ?n = "be32 b0 b1 b2 b3"
    obtain e st' where f: "forward_frame hook (env 0) dir (take (unat ?n) rest) st = Some (e, st')"
      using forward_frame_total [OF assms] by fastforce
    have "\<exists>r. forward hook env ctxDone dir rest st = Some r"
      "\<exists>r. forward hook (\<lambda>i. env (Suc i)) ctxDone dir (drop (unat ?n) rest) st' = Some r"
      using less inp by simp_all
    then show ?thesis
      by (subst forward.simps) (simp add: inp f Let_def split: option.split)
  next
    case False
    then have "forward hook env ctxDone dir inp st = Some (wrapError ctxDone ReadPrefixFailed, st)"
      by (subst forward.simps) (auto split: list.splits)
    then show ?thesis ..
  qed
qed

section \<open>The locked writer\<close>

text \<open>
  The two goroutines write to the VM connection through \<open>writeVM\<close>: take the mutex, write
  the prefix, write the frame, release the mutex. Steps of the two interleave freely.
\<close>

datatype writer_pc = Outside | Locked bytes | PrefixWritten bytes

record writers =
  vmWriteMu :: "Direction option"
  writer_of :: "Direction \<Rightarrow> writer_pc"
  vm_stream :: bytes
  vm_frames :: "bytes list"

definition writers_init :: writers where
  "writers_init = \<lparr>vmWriteMu = None, writer_of = (\<lambda>_. Outside), vm_stream = [], vm_frames = []\<rparr>"

inductive writeVM_step :: "writers \<Rightarrow> writers \<Rightarrow> bool" where
  lock: "vmWriteMu s = None \<Longrightarrow> writer_of s i = Outside \<Longrightarrow>
    writeVM_step s (s\<lparr>vmWriteMu := Some i, writer_of := (writer_of s)(i := Locked frame)\<rparr>)"
| write_prefix: "writer_of s i = Locked frame \<Longrightarrow>
    writeVM_step s (s\<lparr>writer_of := (writer_of s)(i := PrefixWritten frame),
      vm_stream := vm_stream s @ put32 (of_nat (length frame))\<rparr>)"
| write_payload: "writer_of s i = PrefixWritten frame \<Longrightarrow>
    writeVM_step s (s\<lparr>vmWriteMu := None, writer_of := (writer_of s)(i := Outside),
      vm_stream := vm_stream s @ frame, vm_frames := vm_frames s @ [frame]\<rparr>)"

definition writers_inv :: "writers \<Rightarrow> bool" where
  "writers_inv s \<longleftrightarrow>
     (\<forall>i. writer_of s i \<noteq> Outside \<longrightarrow> vmWriteMu s = Some i) \<and>
     vm_stream s = encode_frames (vm_frames s) @
       (case vmWriteMu s of
          None \<Rightarrow> []
        | Some i \<Rightarrow>
            (case writer_of s i of PrefixWritten frame \<Rightarrow> put32 (of_nat (length frame)) | _ \<Rightarrow> []))"

lemma writers_inv_step: "writeVM_step s s' \<Longrightarrow> writers_inv s \<Longrightarrow> writers_inv s'"
proof (induction rule: writeVM_step.induct)
  case (lock s i frame)
  then show ?case by (auto simp: writers_inv_def split: if_splits)
next
  case (write_prefix s i frame)
  then have "vmWriteMu s = Some i" by (simp add: writers_inv_def)
  with write_prefix show ?case by (auto simp: writers_inv_def split: if_splits)
next
  case (write_payload s i frame)
  then have "vmWriteMu s = Some i" by (simp add: writers_inv_def)
  with write_payload show ?case
    by (auto simp: writers_inv_def encode_frame_def split: if_splits)
qed

lemma writers_inv_init: "writers_inv writers_init"
  by (simp add: writers_inv_def writers_init_def)

lemma writers_reachable_inv: "writeVM_step\<^sup>*\<^sup>* writers_init s \<Longrightarrow> writers_inv s"
  by (induction rule: rtranclp_induct) (auto intro: writers_inv_step writers_inv_init)

section \<open>Properties\<close>

text \<open>
  C1. Egress confinement. Take a relay with a Deny default, the static rules \<open>rules\<close> and
  the DNS interceptor, started with no dynamic rules, and any interleaving of frames from
  both sides with expiry ticks. Every IPv4 frame the relay forwards was admitted when it
  came, or belongs to a flow of which an earlier frame was forwarded because it was admitted.
  A frame is admitted when its first matching static rule allows it, or when it goes out, no
  static rule matches it, and an earlier DNS answer of the gateway for a name the policy
  allows gave its destination address, with a protocol and port that the policy permits.
\<close>

theorem egress_confinement:
  assumes "relay_run (Some (interceptor_hook unpack pack d))
      (NewFilterWithDynamic rules Deny (Some NewDynamicRules)) log f"
    and "i < length log" "log ! i = (dir, frame, ForwardFrame)"
    and "ParseHeaders frame = Some (Some h)"
  shows "admitted (interceptor_opens unpack d) rules (take i log) dir h \<or>
    flow_opened (interceptor_opens unpack d) rules (take i log) h"
  using icpt.relay_run_inv [OF assms(1) relay_inv_init] assms(2-4) by blast

text \<open>A run in which a DNS answer is snooped and a packet to the learned address goes out.\<close>

definition sample_env :: frame_env where
  "sample_env = \<lparr>env_t1 = 0, env_t2 = 0, env_t3 = 0, env_now = (\<lambda>_. 0), env_w1 = None, env_w2 = None\<rparr>"

definition sample_answer_frame :: bytes where
  "sample_answer_frame = response_frame sample_query [0xAB, 0xCD]"

definition sample_tcp_frame :: bytes where
  "sample_tcp_frame =
     [1, 2, 3, 4, 5, 6, 7, 8, 9, 10, 11, 12, 8, 0,
      0x45, 0, 0, 24, 0, 0, 0, 0, 64, 6, 0, 0, 192, 168, 127, 2, 93, 184, 216, 34,
      0x9C, 0x40, 0x01, 0xBB]"

lemma sample_tcp_parses: "ParseHeaders sample_tcp_frame = Some (Some sample_tcp)"
  by (simp add: ParseHeaders_def sample_tcp_frame_def sample_tcp_def ihl_of_def be16_def ip4_of_def
      byte_or_zero_def Let_def)

lemma sample_answer_parses:
  "ParseHeaders sample_answer_frame = Some (Some (reverse_hdr sample_header)) \<and>
   ExtractUDPPayload sample_answer_frame = Some (Inr [0xAB, 0xCD])"
proof -
  have "udp_query_frame sample_query"
    by (simp add: udp_query_frame_def sample_query_def ihl_of_def)
  from response_parses [OF sample_query_parses _ BuildResponseFrame_ok [OF this]]
  show ?thesis by (simp add: sample_answer_frame_def sample_header_def)
qed

lemma sample_learned_answer:
  "learned_rules (\<lambda>_. Some sample_response) sample_interceptor sample_answer_frame
     (reverse_hdr sample_header) =
   ([dns_rule [93, 184, 216, 34] 6 443, dns_rule [93, 184, 216, 34] 17 443], 30)"
proof -
  have "ExtractUDPPayload sample_answer_frame = ExtractUDPPayload sample_query"
    by (simp add: sample_answer_parses sample_payload)
  then have "learned_rules u d sample_answer_frame h = learned_rules u d sample_query h" for u d h
    by (simp add: learned_rules_def)
  then show ?thesis by (simp add: sample_learned)
qed

lemma sample_relay_run:
  "\<exists>f. relay_run (Some (interceptor_hook (\<lambda>_. Some sample_response) (\<lambda>_. None) sample_interceptor))
     (NewFilterWithDynamic [] Deny (Some NewDynamicRules))
     [(Ingress, sample_answer_frame, DropFrame), (Egress, sample_tcp_frame, ForwardFrame)] f"
proof -
  let ?hk = "interceptor_hook (\<lambda>_. Some sample_response) (\<lambda>_. None) sample_interceptor"
  let ?f0 = "NewFilterWithDynamic [] Deny (Some NewDynamicRules)"
  let ?f1 = "?f0\<lparr>filter_dynamic := Some sample_dynamic\<rparr>"
  have hdr: "Protocol sample_header = 17" "DstPort sample_header = 53" "Protocol sample_tcp = 6"
    by (simp_all add: sample_header_def sample_tcp_def)
  have "dns_stage (Some ?hk) (\<lambda>_. 0) Ingress sample_answer_frame (Some (reverse_hdr sample_header)) ?f0 =
      Some (None, ?f1)"
    by (simp add: dns_stage_def hdr interceptor_hook_def HandleIngress_eq sample_learned_answer
        sample_dynamic_def NewFilterWithDynamic_def)
  moreover have "Verdict 0 0 0 ?f1 Ingress (reverse_hdr sample_header) = (Deny, ?f1)"
    by (simp add: Verdict_eq Let_def rule_verdict_eq NewFilterWithDynamic_def ct.query_empty
        sample_dynamic_ingress)
  ultimately have d0: "relay_decide (Some ?hk) sample_env Ingress sample_answer_frame ?f0 =
      Some (DropFrame, ?f1)"
    using sample_answer_parses by (simp add: relay_decide_def sample_env_def)
  have "dns_stage (Some ?hk) (\<lambda>_. 0) Egress sample_tcp_frame (Some sample_tcp) ?f1 = Some (None, ?f1)"
    by (simp add: dns_stage_def hdr)
  moreover have "fst (Verdict 0 0 0 ?f1 Egress sample_tcp) = Allow"
    by (simp add: Verdict_eq Let_def rule_verdict_eq NewFilterWithDynamic_def sample_dynamic_match)
  moreover from this obtain f2 where "Verdict 0 0 0 ?f1 Egress sample_tcp = (Allow, f2)"
    by (metis prod.collapse)
  ultimately have d1: "relay_decide (Some ?hk) sample_env Egress sample_tcp_frame ?f1 =
      Some (ForwardFrame, f2)"
    using sample_tcp_parses by (simp add: relay_decide_def sample_env_def)
  from run_frame [OF run_frame [OF run_start d0] d1] show ?thesis by auto
qed

theorem egress_confinement_witness:
  "\<exists>log f. relay_run (Some (interceptor_hook (\<lambda>_. Some sample_response) (\<lambda>_. None) sample_interceptor))
       (NewFilterWithDynamic [] Deny (Some NewDynamicRules)) log f \<and>
     learned (interceptor_opens (\<lambda>_. Some sample_response) sample_interceptor) (take 1 log) sample_tcp"
proof -
  let ?log = "[(Ingress, sample_answer_frame, DropFrame), (Egress, sample_tcp_frame, ForwardFrame)]"
  let ?mo = "interceptor_opens (\<lambda>_. Some sample_response) sample_interceptor"
  obtain f where r: "relay_run (Some (interceptor_hook (\<lambda>_. Some sample_response) (\<lambda>_. None)
      sample_interceptor)) (NewFilterWithDynamic [] Deny (Some NewDynamicRules)) ?log f"
    using sample_relay_run by blast
  have "admitted ?mo [] (take 1 ?log) Egress sample_tcp \<or> flow_opened ?mo [] (take 1 ?log) sample_tcp"
    by (rule egress_confinement [OF r _ _ sample_tcp_parses]) simp_all
  then have "learned ?mo (take 1 ?log) sample_tcp"
    by (auto simp: admitted_def flow_opened_def)
  with r show ?thesis by blast
qed

text \<open>
  C15. The forwarding loop returns on every input: whatever bytes the peer sends, whatever
  the writes do, and whatever the state of the filter, \<open>forward\<close> with the DNS interceptor
  ends with an error value when the input ends, and no frame makes it panic.
\<close>

theorem forward_returns:
  "\<exists>err st'. forward (Some (interceptor_hook unpack pack d)) env ctxDone dir inp st = Some (err, st')"
  using forward_total_if [OF icpt.relay_decide_total] by auto

text \<open>
  C14. The forwarding loop is a filter on framed streams: given a sequence of frames of 1 to
  65535 bytes, each with its length prefix, and no write error, it writes to the other side
  exactly the frames whose decision is to forward, in order, each with its length prefix (and
  the crafted answers back to the VM), counts every frame once as forwarded or dropped, counts
  the forwarded bytes, modulo \<open>2^64\<close>, and ends at the end of the input.
\<close>

theorem forward_filters_stream:
  assumes "\<forall>x \<in> set xs. valid_frame x" "\<forall>i. env_w1 (env i) = None \<and> env_w2 (env i) = None"
    and "decisions hook env dir xs (rl_filter st) = Some ds"
  shows "\<exists>st'. forward hook env ctxDone dir (encode_frames xs) st =
      Some (wrapError ctxDone ReadPrefixFailed, st') \<and>
    (dir = Egress \<longrightarrow> net_out st' = net_out st @ encode_frames (forwarded ds xs) \<and>
      vm_out st' = vm_out st @ encode_frames (responses ds)) \<and>
    (dir = Ingress \<longrightarrow> vm_out st' = vm_out st @ encode_frames (forwarded ds xs) \<and>
      net_out st' = net_out st) \<and>
    FramesForwarded st' = FramesForwarded st + of_nat (length (forwarded ds xs)) \<and>
    FramesDropped st' = FramesDropped st + of_nat (length xs - length (forwarded ds xs)) \<and>
    BytesForwarded st' = BytesForwarded st + of_nat (frame_bytes (forwarded ds xs))"
  using assms by (rule forward_frames)

theorem forward_filters_stream_witness:
  "\<exists>st'. forward None (\<lambda>_. sample_env) False Egress (encode_frames [[1, 2, 3]]) (NewRelay (NewFilter [] Allow)) =
      Some (ReadPrefixFailed, st') \<and>
    net_out st' = encode_frames [[1, 2, 3]] \<and> FramesForwarded st' = 1 \<and> BytesForwarded st' = 3"
proof -
  have "decisions None (\<lambda>_. sample_env) Egress [[1, 2, 3]] (rl_filter (NewRelay (NewFilter [] Allow))) =
      Some [ForwardFrame]"
    by (simp add: relay_decide_def ParseHeaders_def dns_stage_def NewRelay_def NewFilter_def)
  from forward_filters_stream [OF _ _ this, of False] show ?thesis
    by (auto simp: valid_frame_def sample_env_def NewRelay_def wrapError_def encode_frame_def)
qed



text \<open>
  No protocol bypasses the policy: with a DNS hook or a Deny default, a frame that is
  not parsed as IPv4 is forwarded only when it is ARP or shorter than an Ethernet header.
\<close>

theorem non_ipv4_blocked:
  assumes "hook \<noteq> None \<or> defaultAction f = Deny" "ParseHeaders frame = Some None"
    and "relay_decide hook env dir frame f = Some (ForwardFrame, f')"
  shows "length frame < 14 \<or> be16 (frame ! 12) (frame ! 13) = 0x0806"
  using assms
  by (auto simp: relay_decide_def dns_stage_def numeral_eq_Suc split: option.splits if_splits)

theorem non_ipv4_blocked_witness:
  "\<exists>frame f'. relay_decide None sample_env Egress frame (NewFilter [] Deny) = Some (ForwardFrame, f') \<and>
     14 \<le> length frame \<and> be16 (frame ! 12) (frame ! 13) = 0x0806"
proof -
  let ?arp = "[0, 0, 0, 0, 0, 0, 0, 0, 0, 0, 0, 0, 8, 6] :: bytes"
  have n: "ParseHeaders ?arp = Some None"
    by (simp add: ParseHeaders_def be16_def)
  have d: "relay_decide None sample_env Egress ?arp (NewFilter [] Deny) = Some (ForwardFrame, NewFilter [] Deny)"
    by (simp add: relay_decide_def n dns_stage_def be16_def)
  have "length ?arp < 14 \<or> be16 (?arp ! 12) (?arp ! 13) = 0x0806"
    by (rule non_ipv4_blocked [OF _ n d]) (simp add: NewFilter_def)
  then show ?thesis using d by (intro exI [of _ ?arp] exI [of _ "NewFilter [] Deny"]) simp
qed

end
