(* ===== verification/GoPath.thy ===== *)
theory GoPath
  imports GoStrings
begin

text \<open>
  Package \<^verbatim>\<open>path/filepath\<close> on Unix (\<open>Clean\<close>, \<open>Join\<close>, \<open>Rel\<close>, \<open>Dir\<close>,
  \<open>Base\<close>, \<open>IsAbs\<close>) and \<^verbatim>\<open>internal/pathutil/contain.go\<close>, on strings as the
  sources use them. The lemmas read an absolute clean path as the list of its names.
\<close>

section \<open>Package path/filepath\<close>

abbreviation sep :: char where "sep \<equiv> CHR ''/''"

definition IsAbs :: "string \<Rightarrow> bool" where
  "IsAbs p \<longleftrightarrow> HasPrefix p ''/''"

text \<open>One element of a path: the names kept so far are on a stack, the last one first.\<close>

definition clean_step :: "bool \<Rightarrow> string \<Rightarrow> string list \<Rightarrow> string list" where
  "clean_step rooted c stack =
     (if c = '''' \<or> c = ''.'' then stack
      else if c = ''..'' then
        (case stack of
           [] \<Rightarrow> if rooted then [] else [''..'']
         | x # xs \<Rightarrow> if x = ''..'' then ''..'' # stack else xs)
      else c # stack)"

definition clean_elems :: "bool \<Rightarrow> string list \<Rightarrow> string list" where
  "clean_elems rooted cs = rev (fold (clean_step rooted) cs [])"

definition Clean :: "string \<Rightarrow> string" where
  "Clean p =
     (let cs = clean_elems (IsAbs p) (split_at sep p)
      in if IsAbs p then sep # join_with sep cs
         else if cs = [] then ''.'' else join_with sep cs)"

definition Join :: "string \<Rightarrow> string \<Rightarrow> string" where
  "Join a b = (if a \<noteq> [] then Clean (a @ sep # b) else if b \<noteq> [] then Clean b else [])"

text \<open>The elements of a clean path, as \<open>Rel\<close> walks over them.\<close>

definition rel_elems :: "string \<Rightarrow> string list" where
  "rel_elems p = (if p = [] \<or> p = ''/'' then []
     else split_at sep (if IsAbs p then drop 1 p else p))"

fun strip_common :: "string list \<Rightarrow> string list \<Rightarrow> string list \<times> string list" where
  "strip_common (b # bs) (t # ts) = (if b = t then strip_common bs ts else (b # bs, t # ts))"
| "strip_common bs ts = (bs, ts)"

definition Rel :: "string \<Rightarrow> string \<Rightarrow> unit + string" where
  "Rel basepath targpath =
     (let base = Clean basepath; targ = Clean targpath
      in if targ = base then Inr ''.''
         else let base = (if base = ''.'' then [] else base)
           in if IsAbs base \<noteq> IsAbs targ then Inl ()
              else let (bs, ts) = strip_common (rel_elems base) (rel_elems targ)
                in if bs \<noteq> [] \<and> hd bs = ''..'' then Inl ()
                   else Inr (join_with sep (replicate (length bs) ''..'' @ ts)))"

definition Dir :: "string \<Rightarrow> string" where
  "Dir p = Clean (rev (dropWhile (\<lambda>c. c \<noteq> sep) (rev p)))"

definition Base :: "string \<Rightarrow> string" where
  "Base p =
     (if p = [] then ''.''
      else let q = rev (dropWhile (\<lambda>c. c = sep) (rev p));
               b = rev (takeWhile (\<lambda>c. c \<noteq> sep) (rev q))
        in if b = [] then ''/'' else b)"

section \<open>internal/pathutil/contain.go\<close>

datatype path_error = RelFailed | PathTraversal string

definition Contains :: "string \<Rightarrow> string \<Rightarrow> path_error + string" where
  "Contains rootDir guestPath =
     (let cleaned = TrimPrefix (Clean guestPath) ''/''
      in if cleaned = ''.'' \<or> cleaned = [] then Inr (Clean rootDir)
         else let target = Join rootDir cleaned
           in case Rel rootDir target of
                Inl _ \<Rightarrow> Inl RelFailed
              | Inr rel \<Rightarrow>
                  if rel = ''..'' \<or> HasPrefix rel ''../'' then Inl (PathTraversal guestPath)
                  else Inr target)"

section \<open>Absolute clean paths as lists of names\<close>

definition proper :: "string \<Rightarrow> bool" where
  "proper c \<longleftrightarrow> c \<noteq> [] \<and> c \<noteq> ''.'' \<and> c \<noteq> ''..'' \<and> sep \<notin> set c"

definition abs_path :: "string list \<Rightarrow> string" where
  "abs_path cs = sep # join_with sep cs"

lemma IsAbs_abs_path [simp]: "IsAbs (abs_path cs)"
  by (simp add: IsAbs_def HasPrefix_def abs_path_def)

lemma fold_clean_proper:
  "\<forall>c \<in> set cs. proper c \<Longrightarrow> fold (clean_step r) cs st = rev cs @ st"
  by (induction cs arbitrary: st) (auto simp: clean_step_def proper_def)

lemma fold_clean_rooted_proper:
  "\<forall>c \<in> set st. proper c \<Longrightarrow> \<forall>c \<in> set cs. sep \<notin> set c \<Longrightarrow>
   \<forall>c \<in> set (fold (clean_step True) cs st). proper c"
proof (induction cs arbitrary: st)
  case (Cons c cs)
  have "\<forall>x \<in> set (clean_step True c st). proper x"
    using Cons.prems by (cases st) (auto simp: clean_step_def proper_def)
  then show ?case using Cons by simp
qed simp

lemma clean_step_empty [simp]: "clean_step r [] st = st"
  by (simp add: clean_step_def)

lemma split_abs_path:
  "\<forall>c \<in> set cs. proper c \<Longrightarrow> split_at sep (abs_path cs) = [] # (if cs = [] then [[]] else cs)"
  by (cases "cs = []") (auto simp: abs_path_def proper_def intro!: split_join)

lemma Clean_abs_path: "\<forall>c \<in> set cs. proper c \<Longrightarrow> Clean (abs_path cs) = abs_path cs"
  by (simp add: Clean_def Let_def split_abs_path clean_elems_def fold_clean_proper)
    (simp add: abs_path_def)

lemma Clean_rooted:
  assumes "IsAbs p"
  shows "\<exists>cs. (\<forall>c \<in> set cs. proper c) \<and> Clean p = abs_path cs"
proof (intro exI conjI)
  let ?cs = "clean_elems True (split_at sep p)"
  show "\<forall>c \<in> set ?cs. proper c"
    unfolding clean_elems_def using split_at_parts [of _ sep p]
    by (simp, intro fold_clean_rooted_proper) auto
  show "Clean p = abs_path ?cs" using assms by (simp add: Clean_def abs_path_def)
qed

lemma IsAbs_append: "IsAbs a \<Longrightarrow> IsAbs (a @ b)"
  by (auto simp: IsAbs_def HasPrefix_iff)

text \<open>Joining to an absolute path runs the elements of the second one on its names.\<close>

lemma Join_abs_path:
  assumes "\<forall>c \<in> set rc. proper c"
  shows "Join (abs_path rc) s = abs_path (rev (fold (clean_step True) (split_at sep s) (rev rc)))"
proof -
  have "split_at sep (abs_path rc @ sep # s) = split_at sep (abs_path rc) @ split_at sep s"
    by (rule split_at_app)
  moreover have "fold (clean_step True) (split_at sep (abs_path rc)) [] = rev rc"
    using assms by (simp add: split_abs_path fold_clean_proper)
  ultimately show ?thesis
    by (simp add: Join_def Clean_def Let_def clean_elems_def IsAbs_append abs_path_def [of rc, symmetric])
      (simp add: abs_path_def IsAbs_def HasPrefix_def)
qed

lemma split_abs_path_names:
  "\<forall>c \<in> set cs. proper c \<Longrightarrow> filter (\<lambda>c. c \<noteq> []) (split_at sep (abs_path cs)) = cs"
  by (simp add: split_abs_path) (simp add: filter_id_conv proper_def)

lemma abs_path_inj:
  assumes "\<forall>c \<in> set as. proper c" "\<forall>c \<in> set bs. proper c" "abs_path as = abs_path bs"
  shows "as = bs"
  by (metis split_abs_path_names [OF assms(1)] split_abs_path_names [OF assms(2)] assms(3))

lemma rel_elems_abs_path: "\<forall>c \<in> set cs. proper c \<Longrightarrow> rel_elems (abs_path cs) = cs"
proof (cases "cs = []")
  case False
  assume p: "\<forall>c \<in> set cs. proper c"
  have "abs_path cs \<noteq> ''/''" using abs_path_inj [of cs "[]"] p False by (auto simp: abs_path_def)
  moreover have "split_at sep (join_with sep cs) = cs"
    using p False by (intro split_join) (auto simp: proper_def)
  ultimately show ?thesis
    by (simp add: rel_elems_def) (simp add: abs_path_def)
qed (simp add: rel_elems_def abs_path_def)

lemma strip_common_append [simp]: "strip_common bs (bs @ ts) = ([], ts)"
  by (induction bs) (auto elim: strip_common.elims)

lemma strip_common_prefix: "strip_common bs ts = ([], us) \<Longrightarrow> ts = bs @ us"
  by (induction bs ts rule: strip_common.induct) (auto split: if_splits)

lemma strip_common_set:
  "strip_common bs ts = (bs', ts') \<Longrightarrow> set bs' \<subseteq> set bs \<and> set ts' \<subseteq> set ts"
  by (induction bs ts rule: strip_common.induct) (auto split: if_splits)

lemma Rel_abs_path:
  assumes "\<forall>c \<in> set rc. proper c" "\<forall>c \<in> set tc. proper c"
  shows "Rel (abs_path rc) (abs_path tc) = Inr (if tc = rc then ''.'' else
    join_with sep (replicate (length (fst (strip_common rc tc))) ''..'' @ snd (strip_common rc tc)))"
proof -
  obtain bs ts where s: "strip_common rc tc = (bs, ts)" by fastforce
  then have "bs \<noteq> [] \<Longrightarrow> hd bs \<noteq> ''..''"
    using strip_common_set [OF s] assms(1) by (metis hd_in_set proper_def subset_iff)
  moreover have "abs_path tc = abs_path rc \<longleftrightarrow> tc = rc" using abs_path_inj assms by blast
  moreover have "abs_path rc \<noteq> ''.''" by (simp add: abs_path_def)
  ultimately show ?thesis
    using s by (auto simp: Rel_def Clean_abs_path [OF assms(1)] Clean_abs_path [OF assms(2)]
        rel_elems_abs_path [OF assms(1)] rel_elems_abs_path [OF assms(2)])
qed

definition escapes :: "string \<Rightarrow> bool" where
  "escapes rel \<longleftrightarrow> rel = ''..'' \<or> HasPrefix rel ''../''"

lemma join_with_Cons: "join_with c (p # ps) = (if ps = [] then p else p @ c # join_with c ps)"
  by (cases ps) auto

lemma escapes_iff:
  assumes "\<forall>c \<in> set ts. proper c"
  shows "escapes (join_with sep (replicate n ''..'' @ ts)) \<longleftrightarrow> n \<noteq> 0"
proof (cases n)
  case 0
  have "\<not> escapes (join_with sep ts)"
  proof (cases ts)
    case (Cons t us)
    then have t: "t \<noteq> ''..''" "sep \<notin> set t" using assms by (auto simp: proper_def)
    show ?thesis
    proof (cases "us = []")
      case True
      then show ?thesis using t Cons by (auto simp: escapes_def HasPrefix_iff)
    next
      case False
      have "t @ sep # x \<noteq> ''..''" for x
      proof
        assume "t @ sep # x = ''..''"
        then have "sep \<in> set ''..''" by (metis in_set_conv_decomp)
        then show False by simp
      qed
      moreover have "t @ sep # x \<noteq> ''../'' @ y" for x y
      proof
        assume a: "t @ sep # x = ''../'' @ y"
        have "split_at sep (t @ sep # x) = t # split_at sep x"
          by (simp add: split_at_app split_at_no_sep t(2))
        moreover have "split_at sep (''..'' @ sep # y) = ''..'' # split_at sep y"
          by (subst split_at_app) simp
        ultimately show False using a t(1) by simp
      qed
      ultimately show ?thesis using Cons False by (auto simp: escapes_def HasPrefix_iff join_with_Cons)
    qed
  qed (simp add: escapes_def HasPrefix_def)
  then show ?thesis using 0 by simp
next
  case (Suc m)
  then show ?thesis by (simp add: escapes_def join_with_Cons HasPrefix_def)
qed

lemma Rel_inside:
  assumes "\<forall>c \<in> set rc. proper c" "\<forall>c \<in> set tc. proper c" "Rel (abs_path rc) (abs_path tc) = Inr rel"
  shows "escapes rel \<longleftrightarrow> \<not> (\<exists>us. tc = rc @ us)"
proof (cases "tc = rc")
  case True
  then have "rel = ''.''" using assms by (simp add: Rel_abs_path)
  then show ?thesis using True by (simp add: escapes_def HasPrefix_def)
next
  case False
  obtain bs ts where s: "strip_common rc tc = (bs, ts)" by fastforce
  have "escapes rel \<longleftrightarrow> bs \<noteq> []"
    using assms False s escapes_iff [of ts "length bs"] strip_common_set [OF s]
    by (simp add: Rel_abs_path subset_iff)
  moreover have "bs = [] \<longleftrightarrow> (\<exists>us. tc = rc @ us)"
    using s strip_common_prefix by (metis prod.inject strip_common_append)
  ultimately show ?thesis by simp
qed

lemma Rel_below:
  assumes "\<forall>c \<in> set rc. proper c" "\<forall>c \<in> set us. proper c" "us \<noteq> []"
  shows "Rel (abs_path rc) (abs_path (rc @ us)) = Inr (join_with sep us)"
  using assms by (subst Rel_abs_path) auto

text \<open>A path that \<open>Contains\<close> accepts is the root followed by proper names.\<close>

lemma Contains_inside:
  assumes "\<forall>c \<in> set rc. proper c" "Contains (abs_path rc) p = Inr target"
  shows "\<exists>us. (\<forall>c \<in> set us. proper c) \<and> target = abs_path (rc @ us)"
proof -
  let ?c = "TrimPrefix (Clean p) ''/''"
  show ?thesis
  proof (cases "?c = ''.'' \<or> ?c = []")
    case True
    then have "target = abs_path rc"
      using assms Clean_abs_path [OF assms(1)] by (auto simp: Contains_def Let_def)
    then show ?thesis by (intro exI [of _ "[]"]) simp
  next
    case False
    let ?tc = "rev (fold (clean_step True) (split_at sep ?c) (rev rc))"
    have tc: "Join (abs_path rc) ?c = abs_path ?tc" by (rule Join_abs_path [OF assms(1)])
    have p: "\<forall>c \<in> set ?tc. proper c"
      using fold_clean_rooted_proper [of "rev rc" "split_at sep ?c"] assms(1) split_at_parts by auto
    obtain rel where rel: "Rel (abs_path rc) (abs_path ?tc) = Inr rel"
      by (simp add: Rel_abs_path [OF assms(1) p])
    have "\<not> escapes rel" "target = abs_path ?tc"
      using assms(2) False tc rel by (auto simp: Contains_def Let_def escapes_def split: if_splits)
    then obtain us where "?tc = rc @ us" using Rel_inside [OF assms(1) p rel] by blast
    then show ?thesis using p \<open>target = abs_path ?tc\<close> by (intro exI [of _ us]) auto
  qed
qed

lemma Dir_abs_path:
  assumes "\<forall>c \<in> set cs. proper c" "proper c"
  shows "Dir (abs_path (cs @ [c])) = abs_path cs"
proof -
  have "abs_path (cs @ [c]) = (if cs = [] then [sep] else abs_path cs @ [sep]) @ c"
    by (auto simp: abs_path_def join_with_append)
  moreover have "dropWhile (\<lambda>x. x \<noteq> sep) (rev c @ xs) = dropWhile (\<lambda>x. x \<noteq> sep) xs" for xs
    by (intro dropWhile_append2) (use assms(2) in \<open>auto simp: proper_def\<close>)
  moreover have "Clean (abs_path cs @ [sep]) = abs_path cs"
  proof -
    have "split_at sep (abs_path cs @ [sep]) = split_at sep (abs_path cs) @ [[]]"
      using split_at_app [of sep "abs_path cs" "[]"] by simp
    then show ?thesis
      using assms(1)
      by (simp add: Clean_def Let_def IsAbs_append clean_elems_def split_abs_path fold_clean_proper)
        (simp add: abs_path_def)
  qed
  moreover have "Clean [sep] = abs_path []" using Clean_abs_path [of "[]"] by (simp add: abs_path_def)
  ultimately show ?thesis by (auto simp: Dir_def)
qed

lemma Join_names: "\<forall>c \<in> set cs. proper c \<Longrightarrow>
  Join (abs_path rc) (join_with sep cs) = abs_path (rc @ cs)" if "\<forall>c \<in> set rc. proper c" "cs \<noteq> []"
proof -
  assume p: "\<forall>c \<in> set cs. proper c"
  then have "split_at sep (join_with sep cs) = cs"
    using that(2) by (intro split_join) (auto simp: proper_def)
  then show ?thesis using that(1) p by (simp add: Join_abs_path fold_clean_proper)
qed

lemma Contains_abs:
  assumes "\<forall>c \<in> set rc. proper c" "\<forall>c \<in> set cs. proper c" "Clean p = abs_path cs"
  shows "Contains (abs_path rc) p = Inr (abs_path (rc @ cs))"
proof (cases "cs = []")
  case True
  then show ?thesis
    using assms Clean_abs_path [OF assms(1)]
    by (simp add: Contains_def Let_def abs_path_def [of "[]"] TrimPrefix_def HasPrefix_def)
next
  case False
  let ?c = "join_with sep cs"
  have t: "TrimPrefix (Clean p) ''/'' = ?c"
    by (simp add: assms(3) abs_path_def TrimPrefix_def HasPrefix_def)
  have sp: "split_at sep ?c = cs" using assms(2) False by (intro split_join) (auto simp: proper_def)
  have "?c \<noteq> ''.''"
  proof
    assume "?c = ''.''"
    with sp have "cs = [''.'']" by simp
    then show False using assms(2) by (simp add: proper_def)
  qed
  moreover have "?c \<noteq> []"
  proof
    assume "?c = []"
    with sp have "cs = [[]]" by simp
    then show False using assms(2) by (simp add: proper_def)
  qed
  moreover have "Rel (abs_path rc) (abs_path (rc @ cs)) = Inr ?c"
    using assms(1,2) False by (rule Rel_below)
  moreover have "\<not> escapes ?c"
    using escapes_iff [OF assms(2), of 0] by simp
  ultimately show ?thesis
    using Join_names [OF assms(1) False assms(2)]
    unfolding Contains_def Let_def t by (simp add: escapes_def)
qed

section \<open>Properties\<close>

text \<open>
  \<open>Contains\<close> confines: for an absolute clean root, every path it returns is the root
  followed by proper names, with no empty, dot or dot-dot element; and every absolute guest
  path is accepted and mapped to the root followed by its clean form.
\<close>

theorem Contains_confines:
  assumes "\<forall>c \<in> set rc. proper c"
  shows "(Contains (abs_path rc) p = Inr target \<longrightarrow>
      (\<exists>us. (\<forall>c \<in> set us. proper c) \<and> target = abs_path (rc @ us))) \<and>
    (IsAbs p \<longrightarrow> (\<exists>us. (\<forall>c \<in> set us. proper c) \<and> Clean p = abs_path us \<and>
      Contains (abs_path rc) p = Inr (abs_path (rc @ us))))"
  using Contains_inside [OF assms] Contains_abs [OF assms] Clean_rooted by metis

theorem Contains_confines_witness:
  "\<exists>us. Clean ''/a/../../b/./c'' = abs_path us \<and>
     Contains (abs_path [''var'', ''root'']) ''/a/../../b/./c'' = Inr (abs_path ([''var'', ''root''] @ us)) \<and>
     Contains (abs_path [''var'', ''root'']) ''../x'' = Inl (PathTraversal ''../x'')"
proof -
  have "\<forall>c \<in> set [''var'', ''root'']. proper c" by (simp add: proper_def)
  moreover have "IsAbs ''/a/../../b/./c''" by (simp add: IsAbs_def HasPrefix_def)
  moreover have "Contains (abs_path [''var'', ''root'']) ''../x'' = Inl (PathTraversal ''../x'')"
    by code_simp
  ultimately show ?thesis using Contains_confines by blast
qed

lemma clean_step_nonempty: "[] \<notin> set st \<Longrightarrow> [] \<notin> set (clean_step rooted c st)"
  by (cases st) (auto simp: clean_step_def)

lemma clean_elems_nonempty: "[] \<notin> set (clean_elems rooted cs)"
proof -
  have "[] \<notin> set (fold (clean_step rooted) cs acc)" if "[] \<notin> set acc" for acc
    using that by (induction cs arbitrary: acc) (simp_all add: clean_step_nonempty)
  then show ?thesis by (simp add: clean_elems_def)
qed

lemma Clean_nonempty: "Clean p \<noteq> []"
proof -
  have "join_with sep cs \<noteq> []" if "cs \<noteq> []" "[] \<notin> set cs" for cs
    using that by (cases "(sep, cs)" rule: join_with.cases) auto
  then show ?thesis using clean_elems_nonempty [of "IsAbs p" "split_at sep p"] by (cases "IsAbs p") (simp_all add: Clean_def Let_def)
qed

end
