(* ===== verification/Files.thy ===== *)
theory Files
  imports GoPath "HOL-Library.AList" "HOL-Library.List_Lexorder" "HOL-Library.Char_ord"
begin

text \<open>
  A Unix file system for the host-side operations of package \<^verbatim>\<open>os\<close> that the image code
  uses. Inodes are numbered; a directory maps names to inodes; path resolution follows
  symbolic links in every component but the last, and in the last one where the system call
  does. Hard links are entries that name the same inode.

  Errors that depend on more than the tree (permissions of the calling user, a full disk) are
  not part of the model: each of them makes an operation return an error without effect.
\<close>

section \<open>Inodes and path resolution\<close>

type_synonym ino = nat

datatype node_kind =
  File bytes
| Directory "(string \<times> ino) list" ino
| Symlink string
| Special

text \<open>
  A directory knows its parent, which \<^verbatim>\<open>..\<close> names; \<open>override_stat\<close> is the
  extended attribute \<^verbatim>\<open>user.containers.override_stat\<close>.
\<close>

record inode =
  kind :: node_kind
  perm :: u32
  owner :: "int \<times> int"
  override_stat :: "string option"

record fs =
  nodes :: "ino \<rightharpoonup> inode"
  next_ino :: ino

abbreviation root_ino :: ino where "root_ino \<equiv> 0"

datatype errno = ENOENT | ENOTDIR | ELOOP | EEXIST | EISDIR | ENOTEMPTY | EINVAL | EPERM

definition dir_entries :: "fs \<Rightarrow> ino \<Rightarrow> (string \<times> ino) list option" where
  "dir_entries s i =
     (case nodes s i of
        Some n \<Rightarrow> (case kind n of Directory es _ \<Rightarrow> Some es | _ \<Rightarrow> None)
      | None \<Rightarrow> None)"

definition parent_of :: "fs \<Rightarrow> ino \<Rightarrow> ino" where
  "parent_of s i =
     (case nodes s i of
        Some n \<Rightarrow> (case kind n of Directory _ p \<Rightarrow> p | _ \<Rightarrow> i)
      | None \<Rightarrow> i)"

definition link_target :: "fs \<Rightarrow> ino \<Rightarrow> string option" where
  "link_target s i =
     (case nodes s i of
        Some n \<Rightarrow> (case kind n of Symlink t \<Rightarrow> Some t | _ \<Rightarrow> None)
      | None \<Rightarrow> None)"

definition components :: "string \<Rightarrow> string list" where
  "components p = filter (\<lambda>c. c \<noteq> [] \<and> c \<noteq> ''.'') (split_at sep p)"

text \<open>
  The walk over all components, following every link; \<open>n\<close> is the number of links that may
  still be followed (40 in the kernel at the start), returned with the inode.
\<close>

function walk :: "nat \<Rightarrow> fs \<Rightarrow> ino \<Rightarrow> string list \<Rightarrow> errno + nat \<times> ino" where
  "walk n s cur [] = Inr (n, cur)"
| "walk n s cur (c # cs) =
     (case dir_entries s cur of
        None \<Rightarrow> Inl ENOTDIR
      | Some es \<Rightarrow>
          if c = ''..'' then walk n s (parent_of s cur) cs
          else case map_of es c of
            None \<Rightarrow> Inl ENOENT
          | Some i \<Rightarrow>
              (case link_target s i of
                 None \<Rightarrow> walk n s i cs
               | Some t \<Rightarrow>
                   if n = 0 then Inl ELOOP
                   else walk (n - 1) s (if IsAbs t then root_ino else cur) (components t @ cs)))"
  by pat_completeness auto
termination
  by (relation "measures [\<lambda>(n, s, cur, cs). n, \<lambda>(n, s, cur, cs). length cs]") auto

definition max_links :: nat where "max_links = 40"

text \<open>The directory and the name of the last component, which is not followed.\<close>

definition namei :: "fs \<Rightarrow> ino \<Rightarrow> string list \<Rightarrow> errno + ino \<times> string" where
  "namei s cur cs =
     (if cs = [] then Inl EINVAL
      else case walk max_links s cur (butlast cs) of
        Inl e \<Rightarrow> Inl e
      | Inr (_, d) \<Rightarrow> if dir_entries s d = None then Inl ENOTDIR else Inr (d, last cs))"

text \<open>\<^verbatim>\<open>lstat\<close>: the inode of a path, the last component not followed.\<close>

definition lookup_l :: "fs \<Rightarrow> string \<Rightarrow> errno + ino" where
  "lookup_l s p =
     (if components p = [] then Inr root_ino
      else case namei s root_ino (components p) of
        Inl e \<Rightarrow> Inl e
      | Inr (d, c) \<Rightarrow>
          if c = ''..'' then Inr (parent_of s d)
          else (case map_of (the (dir_entries s d)) c of None \<Rightarrow> Inl ENOENT | Some i \<Rightarrow> Inr i))"

section \<open>Operations of package os\<close>

definition Lstat :: "fs \<Rightarrow> string \<Rightarrow> errno + inode" where
  "Lstat s p =
     (case lookup_l s p of
        Inl e \<Rightarrow> Inl e
      | Inr i \<Rightarrow> (case nodes s i of None \<Rightarrow> Inl ENOENT | Some n \<Rightarrow> Inr n))"

definition is_symlink :: "inode \<Rightarrow> bool" where
  "is_symlink n = (case kind n of Symlink _ \<Rightarrow> True | _ \<Rightarrow> False)"

definition is_dir :: "inode \<Rightarrow> bool" where
  "is_dir n = (case kind n of Directory _ _ \<Rightarrow> True | _ \<Rightarrow> False)"

definition is_regular :: "inode \<Rightarrow> bool" where
  "is_regular n = (case kind n of File _ \<Rightarrow> True | _ \<Rightarrow> False)"

definition set_node :: "ino \<Rightarrow> inode \<Rightarrow> fs \<Rightarrow> fs" where
  "set_node i n s = s\<lparr>nodes := (nodes s)(i \<mapsto> n)\<rparr>"

definition update_dir :: "ino \<Rightarrow> ((string \<times> ino) list \<Rightarrow> (string \<times> ino) list) \<Rightarrow> fs \<Rightarrow> fs" where
  "update_dir d f s =
     (case nodes s d of
        Some n \<Rightarrow>
          (case kind n of
             Directory es p \<Rightarrow> set_node d (n\<lparr>kind := Directory (f es) p\<rparr>) s
           | _ \<Rightarrow> s)
      | None \<Rightarrow> s)"

text \<open>A new inode under a name of a directory.\<close>

definition add_node :: "ino \<Rightarrow> string \<Rightarrow> inode \<Rightarrow> fs \<Rightarrow> fs" where
  "add_node d c n s =
     (let i = next_ino s
      in update_dir d (AList.update c i) ((set_node i n s)\<lparr>next_ino := Suc i\<rparr>))"

definition new_inode :: "node_kind \<Rightarrow> u32 \<Rightarrow> inode" where
  "new_inode k m = \<lparr>kind = k, perm = m, owner = (0, 0), override_stat = None\<rparr>"

text \<open>The entry a call creates or replaces: the directory, the name and what is there now.\<close>

definition entry_at :: "fs \<Rightarrow> string \<Rightarrow> errno + ino \<times> string \<times> ino option" where
  "entry_at s p =
     (case namei s root_ino (components p) of
        Inl e \<Rightarrow> Inl e
      | Inr (d, c) \<Rightarrow>
          if c = ''..'' then Inl EEXIST else Inr (d, c, map_of (the (dir_entries s d)) c))"

definition Mkdir :: "fs \<Rightarrow> string \<Rightarrow> u32 \<Rightarrow> errno + fs" where
  "Mkdir s p mode =
     (case entry_at s p of
        Inl e \<Rightarrow> Inl e
      | Inr (d, c, Some i) \<Rightarrow> Inl EEXIST
      | Inr (d, c, None) \<Rightarrow> Inr (add_node d c (new_inode (Directory [] d) mode) s))"

definition os_Symlink :: "fs \<Rightarrow> string \<Rightarrow> string \<Rightarrow> errno + fs" where
  "os_Symlink s target p =
     (if target = [] then Inl ENOENT
      else case entry_at s p of
        Inl e \<Rightarrow> Inl e
      | Inr (d, c, Some i) \<Rightarrow> Inl EEXIST
      | Inr (d, c, None) \<Rightarrow> Inr (add_node d c (new_inode (Symlink target) 0x1FF) s))"

text \<open>\<^verbatim>\<open>os.Link\<close> does not follow a link in the last component of the source.\<close>

definition Link :: "fs \<Rightarrow> string \<Rightarrow> string \<Rightarrow> errno + fs" where
  "Link s src p =
     (case lookup_l s src of
        Inl e \<Rightarrow> Inl e
      | Inr i \<Rightarrow>
          if dir_entries s i \<noteq> None then Inl EPERM
          else case entry_at s p of
            Inl e \<Rightarrow> Inl e
          | Inr (d, c, Some j) \<Rightarrow> Inl EEXIST
          | Inr (d, c, None) \<Rightarrow> Inr (update_dir d (AList.update c i) s))"

text \<open>\<^verbatim>\<open>os.Remove\<close>: a file, a link, or an empty directory.\<close>

definition Remove :: "fs \<Rightarrow> string \<Rightarrow> errno + fs" where
  "Remove s p =
     (case entry_at s p of
        Inl e \<Rightarrow> Inl e
      | Inr (d, c, None) \<Rightarrow> Inl ENOENT
      | Inr (d, c, Some i) \<Rightarrow>
          (case dir_entries s i of
             Some (x # xs) \<Rightarrow> Inl ENOTEMPTY
           | _ \<Rightarrow> Inr (update_dir d (AList.delete c) s)))"

text \<open>
  \<^verbatim>\<open>os.RemoveAll\<close> removes the entry with everything below it and follows no link; a path
  that does not exist is no error. What was below is no longer reachable through the entry.
\<close>

definition RemoveAll :: "fs \<Rightarrow> string \<Rightarrow> errno + fs" where
  "RemoveAll s p =
     (case entry_at s p of
        Inl ENOENT \<Rightarrow> Inr s
      | Inl e \<Rightarrow> Inl e
      | Inr (d, c, None) \<Rightarrow> Inr s
      | Inr (d, c, Some i) \<Rightarrow> Inr (update_dir d (AList.delete c) s))"

text \<open>
  \<^verbatim>\<open>os.OpenFile\<close> with \<^verbatim>\<open>O_CREATE|O_WRONLY|O_TRUNC\<close>: the last component is
  followed; the result is the inode, empty, in the new state.
\<close>

function open_at :: "nat \<Rightarrow> fs \<Rightarrow> ino \<Rightarrow> string list \<Rightarrow> u32 \<Rightarrow> errno + ino \<times> fs" where
  "open_at n s cur cs mode =
     (case namei s cur cs of
        Inl e \<Rightarrow> Inl e
      | Inr (d, c) \<Rightarrow>
          if c = ''..'' then Inl EISDIR
          else case map_of (the (dir_entries s d)) c of
            None \<Rightarrow> Inr (next_ino s, add_node d c (new_inode (File []) mode) s)
          | Some i \<Rightarrow>
              (case nodes s i of
                 None \<Rightarrow> Inl ENOENT
               | Some nd \<Rightarrow>
                   (case kind nd of
                      File _ \<Rightarrow> Inr (i, set_node i (nd\<lparr>kind := File []\<rparr>) s)
                    | Directory _ _ \<Rightarrow> Inl EISDIR
                    | Special \<Rightarrow> Inr (i, s)
                    | Symlink t \<Rightarrow>
                        if n = 0 then Inl ELOOP
                        else open_at (n - 1) s (if IsAbs t then root_ino else d) (components t) mode)))"
  by pat_completeness auto
termination by (relation "measure (\<lambda>(n, s, cur, cs, mode). n)") auto

declare open_at.simps [simp del]

definition OpenTrunc :: "fs \<Rightarrow> string \<Rightarrow> u32 \<Rightarrow> errno + ino \<times> fs" where
  "OpenTrunc s p mode = open_at max_links s root_ino (components p) mode"

text \<open>Writing to an open file appends at its end; writing to a device changes no inode.\<close>

definition write_node :: "ino \<Rightarrow> bytes \<Rightarrow> fs \<Rightarrow> fs" where
  "write_node i data s =
     (case nodes s i of
        Some nd \<Rightarrow>
          (case kind nd of
             File old \<Rightarrow> set_node i (nd\<lparr>kind := File (old @ data)\<rparr>) s
           | _ \<Rightarrow> s)
      | None \<Rightarrow> s)"

text \<open>\<^verbatim>\<open>os.Chmod\<close> follows links; \<^verbatim>\<open>os.Lchown\<close> does not.\<close>

text \<open>\<^verbatim>\<open>os.WriteFile\<close>\<close>

definition WriteFile :: "fs \<Rightarrow> string \<Rightarrow> bytes \<Rightarrow> u32 \<Rightarrow> errno + fs" where
  "WriteFile s p data mode =
     (case OpenTrunc s p mode of Inl e \<Rightarrow> Inl e | Inr (f, s') \<Rightarrow> Inr (write_node f data s'))"

definition Chmod :: "fs \<Rightarrow> string \<Rightarrow> u32 \<Rightarrow> errno + fs" where
  "Chmod s p mode =
     (case walk max_links s root_ino (components p) of
        Inl e \<Rightarrow> Inl e
      | Inr (_, i) \<Rightarrow>
          (case nodes s i of
             None \<Rightarrow> Inl ENOENT
           | Some nd \<Rightarrow> Inr (set_node i (nd\<lparr>perm := mode\<rparr>) s)))"

definition Lchown :: "fs \<Rightarrow> string \<Rightarrow> int \<Rightarrow> int \<Rightarrow> errno + fs" where
  "Lchown s p uid gid =
     (case lookup_l s p of
        Inl e \<Rightarrow> Inl e
      | Inr i \<Rightarrow>
          (case nodes s i of
             None \<Rightarrow> Inl ENOENT
           | Some nd \<Rightarrow> Inr (set_node i (nd\<lparr>owner := (uid, gid)\<rparr>) s)))"

definition Lsetxattr :: "fs \<Rightarrow> string \<Rightarrow> string \<Rightarrow> errno + fs" where
  "Lsetxattr s p v =
     (case lookup_l s p of
        Inl e \<Rightarrow> Inl e
      | Inr i \<Rightarrow>
          (case nodes s i of
             None \<Rightarrow> Inl ENOENT
           | Some nd \<Rightarrow>
               if is_regular nd \<or> is_dir nd then Inr (set_node i (nd\<lparr>override_stat := Some v\<rparr>) s)
               else Inl EPERM))"

definition ReadDir :: "fs \<Rightarrow> string \<Rightarrow> errno + string list" where
  "ReadDir s p =
     (case walk max_links s root_ino (components p) of
        Inl e \<Rightarrow> Inl e
      | Inr (_, i) \<Rightarrow>
          (case dir_entries s i of
             None \<Rightarrow> Inl ENOTDIR
           | Some es \<Rightarrow> Inr (sort (map fst es))))"

end
