(* ===== verification/Extract.thy ===== *)
theory Extract
  imports Files
begin

text \<open>
  Extraction of tar archives into a directory: \<^verbatim>\<open>image/pull.go\<close>
  (\<open>extractTar\<close>, \<open>extractTarSharedLimit\<close> and what they call),
  \<^verbatim>\<open>image/tar_security.go\<close>, \<^verbatim>\<open>image/disk/decompress.go\<close> and the ownership
  attribute of \<^verbatim>\<open>internal/xattr\<close>. Every operation returns the new file system also
  when it fails: what was created before an error stays.

  The tar reader is a list of entries. Reading is metered: a meter says how the budget of
  bytes changes with what is read. The locale \<open>meter\<close> states what a meter promises.
\<close>

section \<open>internal/xattr\<close>

text \<open>\<^verbatim>\<open>os.FileMode\<close> and its bits.\<close>

type_synonym FileMode = u32

definition ModeDir :: FileMode where "ModeDir = 0x80000000"
definition ModeSymlink :: FileMode where "ModeSymlink = 0x08000000"
definition ModeDevice :: FileMode where "ModeDevice = 0x04000000"
definition ModeNamedPipe :: FileMode where "ModeNamedPipe = 0x02000000"
definition ModeSocket :: FileMode where "ModeSocket = 0x01000000"
definition ModeSetuid :: FileMode where "ModeSetuid = 0x00800000"
definition ModeSetgid :: FileMode where "ModeSetgid = 0x00400000"
definition ModeCharDevice :: FileMode where "ModeCharDevice = 0x00200000"
definition ModeSticky :: FileMode where "ModeSticky = 0x00100000"

definition Perm :: "FileMode \<Rightarrow> FileMode" where
  "Perm m = m AND 0x1FF"

definition has_bit :: "FileMode \<Rightarrow> FileMode \<Rightarrow> bool" where
  "has_bit m b \<longleftrightarrow> m AND b \<noteq> 0"

definition goFileModeToPosix :: "FileMode \<Rightarrow> u32" where
  "goFileModeToPosix m =
     (let mode = Perm m;
          mode = (if has_bit m ModeSetuid then mode OR 0x800 else mode);
          mode = (if has_bit m ModeSetgid then mode OR 0x400 else mode);
          mode = (if has_bit m ModeSticky then mode OR 0x200 else mode)
      in if has_bit m ModeDir then mode OR 0x4000
         else if has_bit m ModeSymlink then mode OR 0xA000
         else if has_bit m ModeNamedPipe then mode OR 0x1000
         else if has_bit m ModeSocket then mode OR 0xC000
         else if has_bit m ModeDevice then
           (if has_bit m ModeCharDevice then mode OR 0x2000 else mode OR 0x6000)
         else mode OR 0x8000)"

function octal :: "int \<Rightarrow> string" where
  "octal n = (if n < 8 then [char_of (48 + n)] else octal (n div 8) @ [char_of (48 + n mod 8)])"
  by pat_completeness auto
termination by (relation "measure nat") auto

declare octal.simps [simp del]

definition override_value :: "int \<Rightarrow> int \<Rightarrow> FileMode \<Rightarrow> string" where
  "override_value uid gid mode =
     decimal_int uid @ '':'' @ decimal_int gid @ '':0'' @ octal (uint (goFileModeToPosix mode))"

definition SetOverrideStat :: "string \<Rightarrow> int \<Rightarrow> int \<Rightarrow> FileMode \<Rightarrow> fs \<Rightarrow> fs" where
  "SetOverrideStat p uid gid mode s =
     (if has_bit mode (ModeSymlink OR ModeNamedPipe OR ModeSocket OR ModeDevice) then s
      else case Lsetxattr s p (override_value uid gid mode) of Inl e \<Rightarrow> s | Inr s' \<Rightarrow> s')"

section \<open>image/tar_security.go, image/pull.go: checks\<close>

datatype extract_error =
  InvalidTarget string | RelError | TraverseSymlink string | NotADirectory string
| StatError errno | OsError errno | WriteThroughSymlink string | OverwriteDirectory string
| SymlinkOutside string | ReplaceDirectory string | HardlinkOutside string
| HardlinkToSymlink string | HardlinkNonRegular string | CopyFailed | TarReadFailed
| TooManyEntries | TooLarge | Cancelled | EmptyArchive | PathError path_error
| MissingParent string | NonDirectory string

definition SanitizeTarPath :: "string \<Rightarrow> string \<Rightarrow> path_error + string" where
  "SanitizeTarPath dst entryName = Contains dst entryName"

text \<open>The loop over the components: \<open>cur\<close> is the path so far.\<close>

fun mkdir_parts :: "string \<Rightarrow> string list \<Rightarrow> FileMode \<Rightarrow> fs \<Rightarrow> extract_error option \<times> fs" where
  "mkdir_parts cur [] mode s = (None, s)"
| "mkdir_parts cur (p # ps) mode s =
     (if p = [] \<or> p = ''.'' then mkdir_parts cur ps mode s
      else let cur = Join cur p
        in case Lstat s cur of
             Inr info \<Rightarrow>
               if is_symlink info then (Some (TraverseSymlink cur), s)
               else if \<not> is_dir info then (Some (NotADirectory cur), s)
               else mkdir_parts cur ps mode s
           | Inl err \<Rightarrow>
               if err \<noteq> ENOENT then (Some (StatError err), s)
               else case Mkdir s cur mode of
                 Inl e \<Rightarrow> (Some (OsError e), s)
               | Inr s' \<Rightarrow> mkdir_parts cur ps mode s')"

definition mkdirAllNoSymlink ::
  "string \<Rightarrow> string \<Rightarrow> FileMode \<Rightarrow> fs \<Rightarrow> extract_error option \<times> fs" where
  "mkdirAllNoSymlink destDir targetDir mode s =
     (let base = Clean destDir; cleanTarget = Clean targetDir
      in if cleanTarget \<noteq> base \<and> \<not> HasPrefix cleanTarget (base @ ''/'')
         then (Some (InvalidTarget targetDir), s)
         else case Rel base cleanTarget of
           Inl _ \<Rightarrow> (Some RelError, s)
         | Inr rel \<Rightarrow>
             if rel = ''.'' then (None, s) else mkdir_parts base (split_at sep rel) mode s)"

definition validateNoSymlinkLeaf :: "string \<Rightarrow> fs \<Rightarrow> extract_error option" where
  "validateNoSymlinkLeaf target s =
     (case Lstat s target of
        Inr info \<Rightarrow>
          if is_symlink info then Some (WriteThroughSymlink target)
          else if is_dir info then Some (OverwriteDirectory target)
          else None
      | Inl err \<Rightarrow> if err = ENOENT then None else Some (StatError err))"

fun safe_parts :: "string \<Rightarrow> string list \<Rightarrow> fs \<Rightarrow> extract_error option" where
  "safe_parts cur [] s = None"
| "safe_parts cur (p # ps) s =
     (if p = [] \<or> p = ''.'' then safe_parts cur ps s
      else let cur = Join cur p
        in case Lstat s cur of
             Inl err \<Rightarrow> Some (if err = ENOENT then MissingParent cur else StatError err)
           | Inr info \<Rightarrow>
               if is_symlink info then Some (TraverseSymlink cur)
               else if \<not> is_dir info then Some (NonDirectory cur)
               else safe_parts cur ps s)"

definition SafeWalk :: "string \<Rightarrow> string \<Rightarrow> fs \<Rightarrow> extract_error + string" where
  "SafeWalk root rel s =
     (case SanitizeTarPath root rel of
        Inl e \<Rightarrow> Inl (PathError e)
      | Inr absPath \<Rightarrow>
          let cleanRoot = Clean root
          in if absPath = cleanRoot then Inr absPath
             else case Rel cleanRoot (Dir absPath) of
               Inl _ \<Rightarrow> Inl RelError
             | Inr relParent \<Rightarrow>
                 if relParent = ''.'' then Inr absPath
                 else case safe_parts cleanRoot (split_at sep relParent) s of
                   Some e \<Rightarrow> Inl e
                 | None \<Rightarrow> Inr absPath)"

section \<open>image/pull.go: tar entries\<close>

datatype Typeflag = TypeDir | TypeReg | TypeSymlink | TypeLink | TypeOther

record tar_header =
  hdr_Name :: string
  hdr_Linkname :: string
  hdr_Typeflag :: Typeflag
  hdr_Mode :: FileMode
  hdr_Uid :: int
  hdr_Gid :: int

text \<open>
  An entry of the archive: the padding before it, the size of its header records, and the
  contents as the chunks that successive reads deliver.
\<close>

record tar_entry =
  te_header :: tar_header
  te_pad :: nat
  te_head :: nat
  te_chunks :: "bytes list"

definition te_data :: "tar_entry \<Rightarrow> bytes" where
  "te_data e = concat (te_chunks e)"

text \<open>The test that a link target stays below the root, from a path it resolves to.\<close>

definition rel_leaves :: "string \<Rightarrow> string \<Rightarrow> bool" where
  "rel_leaves rootDir resolved =
     (case Rel rootDir resolved of Inl _ \<Rightarrow> True | Inr rel \<Rightarrow> HasPrefix rel ''..'')"

definition symlink_leaves :: "string \<Rightarrow> string \<Rightarrow> string \<Rightarrow> bool" where
  "symlink_leaves rootDir target linkTarget =
     (if IsAbs linkTarget then rel_leaves rootDir (Join rootDir linkTarget)
      else rel_leaves rootDir (Clean (Join (Dir target) linkTarget)))"

definition extractSymlink ::
  "tar_header \<Rightarrow> string \<Rightarrow> string \<Rightarrow> fs \<Rightarrow> extract_error option \<times> fs" where
  "extractSymlink hdr target rootDir s =
     (case mkdirAllNoSymlink rootDir (Dir target) 0x1ED s of
        (Some e, s) \<Rightarrow> (Some e, s)
      | (None, s) \<Rightarrow>
          if symlink_leaves rootDir target (hdr_Linkname hdr) then (Some (SymlinkOutside (hdr_Linkname hdr)), s)
          else let create = (\<lambda>s. case os_Symlink s (hdr_Linkname hdr) target of
                 Inl e \<Rightarrow> (Some (OsError e), s) | Inr s' \<Rightarrow> (None, s'))
            in case Lstat s target of
                 Inr info \<Rightarrow>
                   if is_dir info then (Some (ReplaceDirectory target), s)
                   else create (case Remove s target of Inl e \<Rightarrow> s | Inr s' \<Rightarrow> s')
               | Inl err \<Rightarrow> if err \<noteq> ENOENT then (Some (StatError err), s) else create s)"

definition extractHardlink ::
  "tar_header \<Rightarrow> string \<Rightarrow> string \<Rightarrow> fs \<Rightarrow> extract_error option \<times> fs" where
  "extractHardlink hdr target rootDir s =
     (case mkdirAllNoSymlink rootDir (Dir target) 0x1ED s of
        (Some e, s) \<Rightarrow> (Some e, s)
      | (None, s) \<Rightarrow>
          let linkSrc = Join rootDir (Clean (hdr_Linkname hdr))
          in if rel_leaves rootDir linkSrc then (Some (HardlinkOutside (hdr_Linkname hdr)), s)
             else case Lstat s linkSrc of
               Inl err \<Rightarrow> (Some (StatError err), s)
             | Inr info \<Rightarrow>
                 if is_symlink info then (Some (HardlinkToSymlink linkSrc), s)
                 else if \<not> is_regular info then (Some (HardlinkNonRegular linkSrc), s)
                 else case validateNoSymlinkLeaf target s of
                   Some e \<Rightarrow> (Some e, s)
                 | None \<Rightarrow>
                     let s = (case Remove s target of Inl e \<Rightarrow> s | Inr s' \<Rightarrow> s')
                     in case Link s linkSrc target of
                          Inl e \<Rightarrow> (Some (OsError e), s)
                        | Inr s' \<Rightarrow> (None, s'))"

text \<open>\<open>chown\<close> says whether the process may change ownership; a failure is ignored.\<close>

definition bestEffortLchown :: "bool \<Rightarrow> string \<Rightarrow> int \<Rightarrow> int \<Rightarrow> fs \<Rightarrow> fs" where
  "bestEffortLchown chown p uid gid s =
     (if \<not> chown then s else case Lchown s p uid gid of Inl e \<Rightarrow> s | Inr s' \<Rightarrow> s')"

definition make_directory ::
  "tar_header \<Rightarrow> string \<Rightarrow> string \<Rightarrow> fs \<Rightarrow> extract_error option \<times> fs" where
  "make_directory hdr target rootDir s =
     (let mode = Perm (hdr_Mode hdr) OR 0x1C0
      in case mkdirAllNoSymlink rootDir target mode s of
           (Some e, s) \<Rightarrow> (Some e, s)
         | (None, s) \<Rightarrow>
             (case Chmod s target mode of Inl e \<Rightarrow> (Some (OsError e), s) | Inr s' \<Rightarrow> (None, s')))"

section \<open>Meters\<close>

datatype 'm next_result = NextOk 'm | NextEOF | NextError

record 'm meter_ops =
  m_next :: "tar_entry \<Rightarrow> 'm \<Rightarrow> 'm next_result"
  m_copy :: "bytes list \<Rightarrow> 'm \<Rightarrow> bytes \<times> bool \<times> 'm"
  m_full :: "'m \<Rightarrow> bool"

definition maxExtractSize :: int where "maxExtractSize = 30 * 2 ^ 30"
definition maxExtractEntries :: int where "maxExtractEntries = 1000000"

text \<open>
  \<^verbatim>\<open>io.LimitedReader\<close> under \<^verbatim>\<open>tar.Reader\<close>: an end of input inside the padding or
  before a header is the end of the archive, an end inside a header or a file is an error.
\<close>

definition limited_reader :: "int meter_ops" where
  "limited_reader =
     \<lparr>m_next = \<lambda>e n. if n \<le> int (te_pad e) then NextEOF
        else if n < int (te_pad e + te_head e) then NextError
        else NextOk (n - int (te_pad e + te_head e)),
      m_copy = \<lambda>chunks n. let data = concat chunks in
        if int (length data) \<le> n then (data, True, n - int (length data))
        else (take (nat n) data, False, 0),
      m_full = \<lambda>n. n \<le> 0\<rparr>"

text \<open>
  \<^verbatim>\<open>atomicLimitReader\<close>: each read fails when the shared counter is used up, and
  otherwise takes what it delivers from the counter.
\<close>

fun atomic_chunks :: "bytes list \<Rightarrow> int \<Rightarrow> bytes \<times> bool \<times> int" where
  "atomic_chunks [] n = ([], True, n)"
| "atomic_chunks (c # cs) n =
     (if n \<le> 0 then ([], False, n)
      else let (data, ok, n') = atomic_chunks cs (n - int (length c)) in (c @ data, ok, n'))"

definition atomic_limit_reader :: "int meter_ops" where
  "atomic_limit_reader =
     \<lparr>m_next = \<lambda>e n. if n \<le> int (te_pad e) then NextError else NextOk (n - int (te_pad e + te_head e)),
      m_copy = atomic_chunks,
      m_full = \<lambda>n. n \<le> 0\<rparr>"

section \<open>The extraction loops\<close>

text \<open>The copy reads through the meter; what it delivers is written also when it ends in an error.\<close>

definition extractRegularFile ::
  "'m meter_ops \<Rightarrow> tar_entry \<Rightarrow> string \<Rightarrow> string \<Rightarrow> 'm \<Rightarrow> fs \<Rightarrow> extract_error option \<times> 'm \<times> fs" where
  "extractRegularFile M e target rootDir m s =
     (case mkdirAllNoSymlink rootDir (Dir target) 0x1ED s of
        (Some err, s) \<Rightarrow> (Some err, m, s)
      | (None, s) \<Rightarrow>
          (case validateNoSymlinkLeaf target s of
             Some err \<Rightarrow> (Some err, m, s)
           | None \<Rightarrow>
               (case OpenTrunc s target (Perm (hdr_Mode (te_header e)) OR 0x100) of
                  Inl err \<Rightarrow> (Some (OsError err), m, s)
                | Inr (f, s) \<Rightarrow>
                    let (data, ok, m) = m_copy M (te_chunks e) m
                    in (if ok then None else Some CopyFailed, m, write_node f data s))))"

definition extractTarEntry ::
  "'m meter_ops \<Rightarrow> bool \<Rightarrow> tar_entry \<Rightarrow> string \<Rightarrow> string \<Rightarrow> 'm \<Rightarrow> fs \<Rightarrow> extract_error option \<times> 'm \<times> fs"
  where
  "extractTarEntry M chown e target rootDir m s =
     (let hdr = te_header e;
          finish = (\<lambda>(err, m, s). case err of
              Some x \<Rightarrow> (Some x, m, s)
            | None \<Rightarrow>
                let s = bestEffortLchown chown target (hdr_Uid hdr) (hdr_Gid hdr) s
                in (None, m, SetOverrideStat target (hdr_Uid hdr) (hdr_Gid hdr) (hdr_Mode hdr) s))
      in case hdr_Typeflag hdr of
           TypeDir \<Rightarrow> (case make_directory hdr target rootDir s of (err, s) \<Rightarrow> finish (err, m, s))
         | TypeReg \<Rightarrow> finish (extractRegularFile M e target rootDir m s)
         | TypeSymlink \<Rightarrow> (case extractSymlink hdr target rootDir s of (err, s) \<Rightarrow> finish (err, m, s))
         | TypeLink \<Rightarrow> (case extractHardlink hdr target rootDir s of (err, s) \<Rightarrow> finish (err, m, s))
         | TypeOther \<Rightarrow> (None, m, s))"

text \<open>
  The loop that \<open>extractTar\<close> and \<open>extractTarSharedLimit\<close> share. \<open>cancelled i\<close> says
  whether the context is done when entry \<open>i\<close> is reached; \<open>clean\<close> whether the archive ends
  properly after its entries.
\<close>

fun extract_loop ::
  "'m meter_ops \<Rightarrow> (nat \<Rightarrow> bool) \<Rightarrow> bool \<Rightarrow> bool \<Rightarrow> string \<Rightarrow> nat \<Rightarrow> tar_entry list \<Rightarrow> 'm \<Rightarrow> fs \<Rightarrow>
   extract_error option \<times> 'm \<times> fs" where
  "extract_loop M cancelled clean chown dst count [] m s =
     (if cancelled count then (Some Cancelled, m, s)
      else if \<not> clean then (Some TarReadFailed, m, s) else (None, m, s))"
| "extract_loop M cancelled clean chown dst count (e # es) m s =
     (if cancelled count then (Some Cancelled, m, s)
      else case m_next M e m of
        NextEOF \<Rightarrow> (None, m, s)
      | NextError \<Rightarrow> (Some TarReadFailed, m, s)
      | NextOk m \<Rightarrow>
          if maxExtractEntries < int (count + 1) then (Some TooManyEntries, m, s)
          else case SanitizeTarPath dst (hdr_Name (te_header e)) of
            Inl _ \<Rightarrow> extract_loop M cancelled clean chown dst (count + 1) es m s
          | Inr target \<Rightarrow>
              (case extractTarEntry M chown e target dst m s of
                 (Some err, m, s) \<Rightarrow> (Some err, m, s)
               | (None, m, s) \<Rightarrow>
                   if m_full M m then (Some TooLarge, m, s)
                   else extract_loop M cancelled clean chown dst (count + 1) es m s))"

definition extractTar ::
  "(nat \<Rightarrow> bool) \<Rightarrow> bool \<Rightarrow> bool \<Rightarrow> string \<Rightarrow> tar_entry list \<Rightarrow> fs \<Rightarrow> extract_error option \<times> int \<times> fs" where
  "extractTar cancelled clean chown dst es s =
     extract_loop limited_reader cancelled clean chown dst 0 es maxExtractSize s"

definition extractTarSharedLimit ::
  "(nat \<Rightarrow> bool) \<Rightarrow> bool \<Rightarrow> bool \<Rightarrow> string \<Rightarrow> tar_entry list \<Rightarrow> int \<Rightarrow> fs \<Rightarrow>
   extract_error option \<times> int \<times> fs" where
  "extractTarSharedLimit cancelled clean chown dst es remaining s =
     extract_loop atomic_limit_reader cancelled clean chown dst 0 es remaining s"

end
