(* ===== verification/Confine.thy ===== *)
theory Confine
  imports Extract
begin

text \<open>
  The extraction of tar archives changes nothing outside the destination directory: path
  resolution below a directory, an invariant that separates inside from outside, and its
  preservation by every operation of the extraction.
\<close>

section \<open>Path resolution below a directory\<close>

lemma components_abs_path: "\<forall>c \<in> set cs. proper c \<Longrightarrow> components (abs_path cs) = cs"
  by (simp add: components_def split_abs_path) (auto simp: filter_id_conv proper_def)

lemma walk_append:
  "walk n s cur (xs @ ys) =
     (case walk n s cur xs of Inl e \<Rightarrow> Inl e | Inr (n', i) \<Rightarrow> walk n' s i ys)"
proof (induction n s cur xs rule: walk.induct)
  case (2 n s cur c cs)
  show ?case
  proof (cases "dir_entries s cur")
    case (Some es)
    then show ?thesis
      using 2 by (cases "c = ''..''"; cases "map_of es c"; cases "n = 0") (auto split: option.splits)
  qed simp
qed simp

text \<open>A path through real directories only.\<close>

fun dir_path :: "fs \<Rightarrow> ino \<Rightarrow> string list \<Rightarrow> ino option" where
  "dir_path s i [] = (if dir_entries s i = None then None else Some i)"
| "dir_path s i (c # cs) =
     (case dir_entries s i of
        None \<Rightarrow> None
      | Some es \<Rightarrow> (case map_of es c of None \<Rightarrow> None | Some j \<Rightarrow> dir_path s j cs))"

lemma dir_path_start: "dir_path s i cs = Some d \<Longrightarrow> dir_entries s i \<noteq> None"
  by (cases cs) (auto split: option.splits if_splits)

lemma dir_path_end: "dir_path s i cs = Some d \<Longrightarrow> dir_entries s d \<noteq> None"
  by (induction cs arbitrary: i) (auto split: option.splits if_splits)

lemma dir_not_link: "dir_entries s i \<noteq> None \<Longrightarrow> link_target s i = None"
  by (auto simp: dir_entries_def link_target_def split: option.splits node_kind.splits)

lemma walk_dir_path:
  assumes "dir_path s i cs = Some d" "\<forall>c \<in> set cs. proper c"
  shows "walk n s i cs = Inr (n, d)"
  using assms
proof (induction cs arbitrary: i)
  case (Cons c cs)
  from Cons.prems obtain es j where e: "dir_entries s i = Some es" "map_of es c = Some j"
    "dir_path s j cs = Some d" by (auto split: option.splits)
  then have "link_target s j = None" using dir_path_start dir_not_link by blast
  moreover have "c \<noteq> ''..''" using Cons.prems(2) by (simp add: proper_def)
  ultimately show ?case using Cons e by simp
qed (simp split: if_splits)

lemma dir_path_snoc:
  "dir_path s i (cs @ [c]) =
     (case dir_path s i cs of
        None \<Rightarrow> None
      | Some d \<Rightarrow> (case map_of (the (dir_entries s d)) c of
          None \<Rightarrow> None | Some j \<Rightarrow> if dir_entries s j = None then None else Some j))"
  by (induction cs arbitrary: i) (auto split: option.splits)

section \<open>Confinement to a directory\<close>

text \<open>
  \<open>Out\<close> is the set of inodes outside, \<open>R\<close> the root directory inside. The outside is as it
  was in \<open>s0\<close>, directories inside name only inodes inside, and new inodes are inside.
\<close>

definition same_outside :: "ino set \<Rightarrow> fs \<Rightarrow> fs \<Rightarrow> bool" where
  "same_outside Out s0 s \<longleftrightarrow> (\<forall>i \<in> Out. nodes s i = nodes s0 i)"

definition closed_inside :: "ino set \<Rightarrow> fs \<Rightarrow> bool" where
  "closed_inside Out s \<longleftrightarrow>
     (\<forall>i es. i \<notin> Out \<longrightarrow> dir_entries s i = Some es \<longrightarrow> snd ` set es \<inter> Out = {})"

text \<open>
  Inside, every entry has a proper name and names an inode that exists, none names \<open>R\<close>, and no
  directory has two entries: the directories form a tree.
\<close>

definition entry_of :: "fs \<Rightarrow> ino \<Rightarrow> string \<Rightarrow> ino option" where
  "entry_of s d c = (case dir_entries s d of None \<Rightarrow> None | Some es \<Rightarrow> map_of es c)"

definition tree_inside :: "ino set \<Rightarrow> ino \<Rightarrow> fs \<Rightarrow> bool" where
  "tree_inside Out R s \<longleftrightarrow>
     (\<forall>d c i. d \<notin> Out \<longrightarrow> entry_of s d c = Some i \<longrightarrow> proper c \<and> i < next_ino s \<and> i \<noteq> R \<and>
        (\<forall>d' c'. d' \<notin> Out \<longrightarrow> dir_entries s i \<noteq> None \<longrightarrow> entry_of s d' c' = Some i \<longrightarrow> d' = d \<and> c' = c))"

definition confined :: "ino set \<Rightarrow> ino \<Rightarrow> fs \<Rightarrow> fs \<Rightarrow> bool" where
  "confined Out R s0 s \<longleftrightarrow> same_outside Out s0 s \<and> closed_inside Out s \<and>
     tree_inside Out R s \<and> R \<notin> Out \<and> dir_entries s R \<noteq> None \<and> (\<forall>i \<in> Out. i < next_ino s) \<and>
     (\<forall>i. next_ino s \<le> i \<longrightarrow> nodes s i = None)"

text \<open>The path of the root leads to \<open>R\<close> whatever happens inside.\<close>

definition root_stable :: "ino set \<Rightarrow> string list \<Rightarrow> ino \<Rightarrow> fs \<Rightarrow> bool" where
  "root_stable Out rc R s0 \<longleftrightarrow>
     (\<forall>s. same_outside Out s0 s \<longrightarrow> dir_entries s R \<noteq> None \<longrightarrow>
        (\<exists>n. walk max_links s root_ino rc = Inr (n, R)) \<and> lookup_l s (abs_path rc) = Inr R)"

lemma dir_path_inside:
  "closed_inside Out s \<Longrightarrow> i \<notin> Out \<Longrightarrow> dir_path s i cs = Some d \<Longrightarrow> d \<notin> Out"
proof (induction cs arbitrary: i)
  case (Cons c cs)
  from Cons.prems obtain es j where e: "dir_entries s i = Some es" "map_of es c = Some j"
    "dir_path s j cs = Some d" by (auto split: option.splits)
  then have "j \<in> snd ` set es" by (metis image_eqI map_of_SomeD snd_conv)
  then have "j \<notin> Out" using Cons.prems(1,2) e(1) by (auto simp: closed_inside_def)
  then show ?case using Cons e by blast
qed (simp split: if_splits)

lemma entry_inside:
  assumes "closed_inside Out s" "d \<notin> Out" "dir_entries s d = Some es" "map_of es c = Some j"
  shows "j \<notin> Out"
  using assms by (metis closed_inside_def disjoint_iff image_eqI map_of_SomeD snd_conv)

lemma walk_below_root:
  assumes "confined Out R s0 s" "root_stable Out rc R s0" "dir_path s R us = Some d"
    and "\<forall>c \<in> set us. proper c"
  shows "\<exists>n. walk max_links s root_ino (rc @ us) = Inr (n, d)"
proof -
  obtain n where "walk max_links s root_ino rc = Inr (n, R)"
    using assms(1,2) unfolding confined_def root_stable_def by blast
  then show ?thesis using walk_dir_path [OF assms(3,4)] by (simp add: walk_append)
qed

text \<open>A name in a directory reached through real directories.\<close>

lemma components_below:
  "\<forall>c \<in> set rc. proper c \<Longrightarrow> \<forall>c \<in> set us. proper c \<Longrightarrow> proper c \<Longrightarrow>
   components (abs_path (rc @ us @ [c])) = (rc @ us) @ [c]"
  by (subst components_abs_path) auto

lemma namei_below_root:
  assumes "confined Out R s0 s" "root_stable Out rc R s0" "dir_path s R us = Some d"
    and "\<forall>c \<in> set rc. proper c" "\<forall>c \<in> set us. proper c" "proper c"
  shows "namei s root_ino (components (abs_path (rc @ us @ [c]))) = Inr (d, c)"
proof -
  show ?thesis
    unfolding components_below [OF assms(4-6)]
    using walk_below_root [OF assms(1-3,5)] dir_path_end [OF assms(3)]
    by (auto simp: namei_def simp del: append_assoc)
qed

lemma lookup_below_root:
  assumes "confined Out R s0 s" "root_stable Out rc R s0" "dir_path s R us = Some d"
    and "\<forall>c \<in> set rc. proper c" "\<forall>c \<in> set us. proper c" "proper c"
  shows "lookup_l s (abs_path (rc @ us @ [c])) =
      (case map_of (the (dir_entries s d)) c of None \<Rightarrow> Inl ENOENT | Some i \<Rightarrow> Inr i)"
    and "entry_at s (abs_path (rc @ us @ [c])) = Inr (d, c, map_of (the (dir_entries s d)) c)"
proof -
  have "components (abs_path (rc @ us @ [c])) \<noteq> []"
    by (simp add: components_below [OF assms(4-6)])
  moreover have "c \<noteq> ''..''" using assms(6) by (simp add: proper_def)
  ultimately show "lookup_l s (abs_path (rc @ us @ [c])) =
      (case map_of (the (dir_entries s d)) c of None \<Rightarrow> Inl ENOENT | Some i \<Rightarrow> Inr i)"
    and "entry_at s (abs_path (rc @ us @ [c])) = Inr (d, c, map_of (the (dir_entries s d)) c)"
    using namei_below_root [OF assms] by (simp_all add: lookup_l_def entry_at_def)
qed


section \<open>State changes inside\<close>

lemma dir_entries_set_node:
  "dir_entries (set_node i nd s) j =
     (if j = i then (case kind nd of Directory es _ \<Rightarrow> Some es | _ \<Rightarrow> None) else dir_entries s j)"
  by (simp add: dir_entries_def set_node_def split: node_kind.splits)

lemma nodes_set_node [simp]: "nodes (set_node i nd s) = (nodes s)(i \<mapsto> nd)"
  "next_ino (set_node i nd s) = next_ino s"
  by (simp_all add: set_node_def)

lemma dir_entries_next [simp]: "dir_entries (s\<lparr>next_ino := n\<rparr>) i = dir_entries s i"
  by (simp add: dir_entries_def)

lemma dir_entries_kind:
  "dir_entries s i = Some es \<longleftrightarrow> (\<exists>nd p. nodes s i = Some nd \<and> kind nd = Directory es p)"
  by (auto simp: dir_entries_def split: option.splits node_kind.splits)

lemma dir_entries_update_dir:
  "dir_entries (update_dir d f s) j = (if j = d then map_option f (dir_entries s d) else dir_entries s j)"
  by (auto simp: update_dir_def dir_entries_set_node split: option.splits node_kind.splits)
    (auto simp: dir_entries_def)

lemma update_dir_nodes:
  "i \<noteq> d \<Longrightarrow> nodes (update_dir d f s) i = nodes s i" "next_ino (update_dir d f s) = next_ino s"
  "nodes (update_dir d f s) i = None \<longleftrightarrow> nodes s i = None"
  by (auto simp: update_dir_def split: option.splits node_kind.splits)

lemma set_update_snd: "snd ` set (AList.update c i es) \<subseteq> insert i (snd ` set es)"
  by (induction es) auto

lemma set_delete_snd: "snd ` set (AList.delete c es) \<subseteq> snd ` set es"
  by (auto simp: AList.delete_eq)

lemma disjoint_subset: "A \<subseteq> B \<Longrightarrow> B \<inter> C = {} \<Longrightarrow> A \<inter> C = {}"
  by blast

lemma entry_of_cong: "(\<And>j. dir_entries t j = dir_entries s j) \<Longrightarrow> entry_of t = entry_of s"
  by (intro ext) (simp add: entry_of_def)

lemma tree_insideD:
  assumes "tree_inside Out R s" "d \<notin> Out" "entry_of s d c = Some i"
  shows "i < next_ino s" "i \<noteq> R"  "proper c"
    and "d' \<notin> Out \<Longrightarrow> dir_entries s i \<noteq> None \<Longrightarrow> entry_of s d' c' = Some i \<Longrightarrow> d' = d \<and> c' = c"
  using assms(1) [unfolded tree_inside_def, rule_format, OF assms(2,3)] by simp_all

lemma tree_insideI:
  assumes "\<And>d c i. d \<notin> Out \<Longrightarrow> entry_of s d c = Some i \<Longrightarrow> proper c \<and> i < next_ino s \<and> i \<noteq> R"
    and "\<And>d c i d' c'. d \<notin> Out \<Longrightarrow> entry_of s d c = Some i \<Longrightarrow> d' \<notin> Out \<Longrightarrow> dir_entries s i \<noteq> None \<Longrightarrow>
      entry_of s d' c' = Some i \<Longrightarrow> d' = d \<and> c' = c"
  shows "tree_inside Out R s"
  unfolding tree_inside_def
proof (intro allI impI conjI)
  fix d c i assume "d \<notin> Out" "entry_of s d c = Some i"
  then show "proper c" "i < next_ino s" "i \<noteq> R" using assms(1) [of d c i] by simp_all
  fix d' c' assume "d' \<notin> Out" "dir_entries s i \<noteq> None" "entry_of s d' c' = Some i"
  then show "d' = d" "c' = c"
    using assms(2) [OF \<open>d \<notin> Out\<close> \<open>entry_of s d c = Some i\<close>] by simp_all
qed

lemma tree_inside_cong:
  assumes "tree_inside Out R s" "\<And>j. dir_entries t j = dir_entries s j" "next_ino s \<le> next_ino t"
  shows "tree_inside Out R t"
  using tree_insideD [OF assms(1)] assms(3)
  by (intro tree_insideI) (simp_all add: entry_of_cong [OF assms(2)] assms(2), (meson less_le_trans)+)

lemma entry_of_delete:
  "entry_of (update_dir d (AList.delete c) s) d' c' = Some i \<longleftrightarrow>
     entry_of s d' c' = Some i \<and> \<not> (d' = d \<and> c' = c)"
  by (auto simp: entry_of_def dir_entries_update_dir delete_conv split: option.splits if_splits)

lemma entry_of_insert:
  "dir_entries s d \<noteq> None \<Longrightarrow> entry_of (update_dir d (AList.update c i) s) d' c' = Some j \<longleftrightarrow>
     (if d' = d \<and> c' = c then j = i else entry_of s d' c' = Some j)"
  by (auto simp: entry_of_def dir_entries_update_dir update_conv split: option.splits if_splits)

lemma dir_entries_delete_None [simp]:
  "dir_entries (update_dir d f s) i = None \<longleftrightarrow> dir_entries s i = None"
  by (simp add: dir_entries_update_dir)

lemma tree_delete: "tree_inside Out R s \<Longrightarrow> tree_inside Out R (update_dir d (AList.delete c) s)"
proof (rule tree_insideI; simp only: entry_of_delete dir_entries_delete_None update_dir_nodes)
  assume t: "tree_inside Out R s"
  {
    fix e x i assume "e \<notin> Out" "entry_of s e x = Some i \<and> \<not> (e = d \<and> x = c)"
    then show "proper x \<and> i < next_ino s \<and> i \<noteq> R" using tree_insideD(1-3) [OF t, of e x i] by simp
  next
    fix e x i e' x'
    assume "e \<notin> Out" "entry_of s e x = Some i \<and> \<not> (e = d \<and> x = c)" "e' \<notin> Out" "dir_entries s i \<noteq> None"
      "entry_of s e' x' = Some i \<and> \<not> (e' = d \<and> x' = c)"
    then show "e' = e \<and> x' = x" using tree_insideD(4) [OF t, of e x i e' x'] by simp
  }
qed

lemma tree_insert:
  assumes "tree_inside Out R s" "dir_entries s d \<noteq> None" "i < next_ino s" "i \<noteq> R" "proper c"
    and "dir_entries s i = None \<or> (\<forall>d' c'. d' \<notin> Out \<longrightarrow> entry_of s d' c' \<noteq> Some i)"
  shows "tree_inside Out R (update_dir d (AList.update c i) s)"
proof (rule tree_insideI; simp only: entry_of_insert [OF assms(2)] dir_entries_delete_None update_dir_nodes)
  fix d1 c1 j assume "d1 \<notin> Out" "if d1 = d \<and> c1 = c then j = i else entry_of s d1 c1 = Some j"
  then show "proper c1 \<and> j < next_ino s \<and> j \<noteq> R"
    using assms(3-5) tree_insideD(1-3) [OF assms(1), of d1 c1 j] by (simp split: if_splits)
next
  fix d1 c1 j d2 c2
  assume 1: "d1 \<notin> Out" "if d1 = d \<and> c1 = c then j = i else entry_of s d1 c1 = Some j"
    and 2: "d2 \<notin> Out" "if d2 = d \<and> c2 = c then j = i else entry_of s d2 c2 = Some j"
    and j: "dir_entries s j \<noteq> None"
  have no: "entry_of s e x \<noteq> Some i" if "e \<notin> Out" "j = i" for e x
    using assms(6) j that by (elim disjE) simp_all
  show "d2 = d1 \<and> c2 = c1"
  proof (cases "j = i")
    case True
    then show ?thesis using 1 2 no by (simp split: if_splits)
  next
    case False
    then show ?thesis
      using 1 2 j tree_insideD(4) [OF assms(1), of d1 c1 j d2 c2] by (simp split: if_splits)
  qed
qed

lemma confined_set_node:
  assumes "confined Out R s0 s" "i \<notin> Out" "nodes s i \<noteq> None"
    and "dir_entries (set_node i nd s) i = dir_entries s i"
  shows "confined Out R s0 (set_node i nd s)"
proof -
  have d: "dir_entries (set_node i nd s) j = dir_entries s j" for j
    using assms(4) by (cases "j = i") (simp_all add: dir_entries_set_node)
  then have "tree_inside Out R (set_node i nd s)"
    using assms(1) tree_inside_cong [of Out R s] by (simp add: confined_def)
  then show ?thesis
    using assms d by (auto simp: confined_def same_outside_def closed_inside_def)
qed

lemma confined_update_dir:
  assumes "confined Out R s0 s" "d \<notin> Out"
    and "\<And>es. dir_entries s d = Some es \<Longrightarrow> snd ` set (f es) \<inter> Out = {}"
    and "tree_inside Out R (update_dir d f s)"
  shows "confined Out R s0 (update_dir d f s)"
proof -
  have "d \<notin> Out \<Longrightarrow> i \<in> Out \<Longrightarrow> i \<noteq> d" for i by blast
  then show ?thesis
    using assms
    by (auto simp: confined_def same_outside_def closed_inside_def update_dir_nodes
        dir_entries_update_dir split: if_splits)
qed

lemma confined_fresh: "confined Out R s0 s \<Longrightarrow> next_ino s \<notin> Out \<and> next_ino s \<noteq> R \<and> nodes s (next_ino s) = None"
  by (auto simp: confined_def dir_entries_def)

lemma confined_delete:
  assumes "confined Out R s0 s" "d \<notin> Out"
  shows "confined Out R s0 (update_dir d (AList.delete c) s)"
proof (rule confined_update_dir [OF assms])
  fix es assume "dir_entries s d = Some es"
  then have "snd ` set es \<inter> Out = {}" using assms by (simp add: confined_def closed_inside_def)
  then show "snd ` set (AList.delete c es) \<inter> Out = {}" by (rule disjoint_subset [OF set_delete_snd])
qed (use assms(1) tree_delete in \<open>simp add: confined_def\<close>)

lemma confined_add_node:
  assumes "confined Out R s0 s" "d \<notin> Out" "d \<noteq> next_ino s" "dir_entries s d \<noteq> None" "proper c"
    and "case kind nd of Directory es _ \<Rightarrow> es = [] | _ \<Rightarrow> True"
  shows "confined Out R s0 (add_node d c nd s)"
proof -
  let ?i = "next_ino s"
  note fresh = confined_fresh [OF assms(1)]
  let ?t = "(set_node ?i nd s)\<lparr>next_ino := Suc ?i\<rparr>"
  have eq: "add_node d c nd s = update_dir d (AList.update c ?i) ?t"
    by (simp only: add_node_def Let_def)
  have de: "dir_entries ?t j = dir_entries s j" if "j \<noteq> ?i" for j
    using that by (simp add: dir_entries_set_node)
  have dn: "dir_entries ?t ?i = None \<or> dir_entries ?t ?i = Some []"
    using assms(6) by (cases "kind nd") (simp_all add: dir_entries_set_node)
  have tr: "tree_inside Out R s" using assms(1) by (simp add: confined_def)
  have old: "entry_of ?t e x = Some j \<longleftrightarrow> entry_of s e x = Some j \<and> e \<noteq> ?i" for e x j
  proof (cases "e = ?i")
    case True
    then show ?thesis using dn by (auto simp: entry_of_def)
  next
    case False
    then show ?thesis using de [OF False] by (simp add: entry_of_def)
  qed
  have lt: "proper x \<and> j < ?i \<and> j \<noteq> R" if "e \<notin> Out" "entry_of s e x = Some j" for e x j
    using tr that unfolding tree_inside_def by blast
  have tt: "tree_inside Out R ?t"
    unfolding tree_inside_def old
  proof (intro allI impI conjI)
    fix e x j assume e: "e \<notin> Out" "entry_of s e x = Some j \<and> e \<noteq> ?i"
    show "proper x" "j < next_ino ?t" "j \<noteq> R" using lt [OF e(1), of x j] e(2) by auto
    fix e' x' assume e': "e' \<notin> Out" "dir_entries ?t j \<noteq> None" "entry_of s e' x' = Some j \<and> e' \<noteq> ?i"
    have "j \<noteq> ?i" using lt [OF e(1)] e(2) by auto
    then have "dir_entries s j \<noteq> None" using e'(2) de by simp
    then show "e' = e" "x' = x" using tr e e' unfolding tree_inside_def by blast+
  qed
  have ct: "confined Out R s0 ?t"
    unfolding confined_def
  proof (intro conjI)
    show "same_outside Out s0 ?t"
      using assms(1) fresh by (auto simp: confined_def same_outside_def)
    show "closed_inside Out ?t"
      unfolding closed_inside_def
    proof (intro allI impI)
      fix j es assume j: "j \<notin> Out" "dir_entries ?t j = Some es"
      show "snd ` set es \<inter> Out = {}"
      proof (cases "j = ?i")
        case True
        then show ?thesis using j dn by simp
      next
        case False
        then show ?thesis using j de [OF False] assms(1) by (simp add: confined_def closed_inside_def)
      qed
    qed
    show "tree_inside Out R ?t" by (rule tt)
    show "R \<notin> Out" "dir_entries ?t R \<noteq> None"
      using assms(1) fresh de [of R] by (simp_all add: confined_def)
    show "\<forall>i \<in> Out. i < next_ino ?t" "\<forall>i. next_ino ?t \<le> i \<longrightarrow> nodes ?t i = None"
      using assms(1) by (auto simp: confined_def)
  qed
  have cl: "snd ` set (AList.update c ?i es) \<inter> Out = {}" if "dir_entries ?t d = Some es" for es
  proof -
    have "dir_entries s d = Some es" using that de [OF assms(3)] by simp
    then have "snd ` set es \<inter> Out = {}"
      using assms(1,2) by (simp add: confined_def closed_inside_def)
    then have "insert ?i (snd ` set es) \<inter> Out = {}" using fresh by simp
    then show ?thesis by (rule disjoint_subset [OF set_update_snd])
  qed
  have "entry_of ?t e x \<noteq> Some ?i" if "e \<notin> Out" for e x
    using lt [OF that, of x ?i] old by blast
  then have "tree_inside Out R (update_dir d (AList.update c ?i) ?t)"
    using assms(4,5) de [OF assms(3)] fresh by (intro tree_insert [OF tt]) simp_all
  then show ?thesis unfolding eq using cl by (intro confined_update_dir [OF ct assms(2)])
qed

text \<open>A change that keeps every path through real directories.\<close>

definition keeps_dirs :: "fs \<Rightarrow> fs \<Rightarrow> bool" where
  "keeps_dirs s s' \<longleftrightarrow>
     (\<forall>i es. dir_entries s i = Some es \<longrightarrow>
        (\<exists>es'. dir_entries s' i = Some es' \<and>
           (\<forall>c j. map_of es c = Some j \<longrightarrow> dir_entries s j \<noteq> None \<longrightarrow> map_of es' c = Some j)))"

lemma keeps_dirs_refl [simp]: "keeps_dirs s s"
  by (simp add: keeps_dirs_def)

lemma keeps_dirs_trans: "keeps_dirs s t \<Longrightarrow> keeps_dirs t u \<Longrightarrow> keeps_dirs s u"
proof -
  assume a: "keeps_dirs s t" and b: "keeps_dirs t u"
  show ?thesis
    unfolding keeps_dirs_def
  proof (intro allI impI)
    fix i es assume "dir_entries s i = Some es"
    then obtain es1 where 1: "dir_entries t i = Some es1"
      "\<forall>c j. map_of es c = Some j \<longrightarrow> dir_entries s j \<noteq> None \<longrightarrow> map_of es1 c = Some j"
      using a unfolding keeps_dirs_def by blast
    then obtain es2 where 2: "dir_entries u i = Some es2"
      "\<forall>c j. map_of es1 c = Some j \<longrightarrow> dir_entries t j \<noteq> None \<longrightarrow> map_of es2 c = Some j"
      using b unfolding keeps_dirs_def by blast
    have "dir_entries s j \<noteq> None \<Longrightarrow> dir_entries t j \<noteq> None" for j
      using a unfolding keeps_dirs_def by blast
    with 1 2 show "\<exists>es'. dir_entries u i = Some es' \<and>
        (\<forall>c j. map_of es c = Some j \<longrightarrow> dir_entries s j \<noteq> None \<longrightarrow> map_of es' c = Some j)"
      by blast
  qed
qed

lemma keeps_dirs_elim:
  assumes "keeps_dirs s s'" "dir_entries s i = Some es"
  obtains es' where "dir_entries s' i = Some es'"
    "\<And>c j. map_of es c = Some j \<Longrightarrow> dir_entries s j \<noteq> None \<Longrightarrow> map_of es' c = Some j"
  using assms unfolding keeps_dirs_def by meson

lemma dir_path_keeps: "keeps_dirs s s' \<Longrightarrow> dir_path s i cs = Some d \<Longrightarrow> dir_path s' i cs = Some d"
proof (induction cs arbitrary: i)
  case Nil
  then have d: "d = i" "dir_entries s i \<noteq> None" by (simp_all split: if_splits)
  then obtain es where "dir_entries s i = Some es" by blast
  with Nil.prems(1) obtain es' where "dir_entries s' i = Some es'" by (rule keeps_dirs_elim)
  then show ?case using d by simp
next
  case (Cons c cs)
  from Cons.prems obtain es j where e: "dir_entries s i = Some es" "map_of es c = Some j"
    "dir_path s j cs = Some d" by (auto split: option.splits)
  then have j: "dir_entries s j \<noteq> None" by (simp add: dir_path_start)
  from Cons.prems(1) e(1) obtain es' where k: "dir_entries s' i = Some es'"
    "\<And>c j. map_of es c = Some j \<Longrightarrow> dir_entries s j \<noteq> None \<Longrightarrow> map_of es' c = Some j"
    by (rule keeps_dirs_elim) blast
  have "dir_path s' j cs = Some d" by (rule Cons.IH [OF Cons.prems(1) e(3)])
  then show ?case using k(1) k(2) [OF e(2) j] by simp
qed

lemma keeps_dirs_set_node:
  "dir_entries (set_node i nd s) i = dir_entries s i \<Longrightarrow> keeps_dirs s (set_node i nd s)"
proof -
  assume a: "dir_entries (set_node i nd s) i = dir_entries s i"
  have "dir_entries (set_node i nd s) j = dir_entries s j" for j
    using a by (cases "j = i") (simp_all add: dir_entries_set_node)
  then show ?thesis by (simp add: keeps_dirs_def)
qed

lemma keeps_dirs_add_node:
  assumes "nodes s (next_ino s) = None" "dir_entries s d = Some es" "map_of es c = None"
  shows "keeps_dirs s (add_node d c nd s)"
proof -
  have n: "dir_entries s (next_ino s) = None" using assms(1) by (simp add: dir_entries_def)
  then have "d \<noteq> next_ino s" using assms(2) by auto
  then show ?thesis
    using assms(2,3) n
    by (auto simp: keeps_dirs_def add_node_def Let_def dir_entries_update_dir dir_entries_set_node
        update_conv split: if_splits)
qed

lemma keeps_dirs_delete:
  assumes "dir_entries s d = Some es" "map_of es c = Some i" "dir_entries s i = None"
  shows "keeps_dirs s (update_dir d (AList.delete c) s)"
  using assms by (auto simp: keeps_dirs_def dir_entries_update_dir delete_conv split: if_splits)

section \<open>Creating directories\<close>

lemma Join_one:
  assumes "\<forall>c \<in> set cs. proper c" "proper p"
  shows "Join (abs_path cs) p = abs_path (cs @ [p])"
  using Join_names [of cs "[p]"] assms by simp

lemma mkdir_step:
  assumes "proper p" "confined Out R s0 s" "dir_path s R us = Some d" "map_of (the (dir_entries s d)) p = None"
  shows "confined Out R s0 (add_node d p (new_inode (Directory [] d) mode) s) \<and>
    keeps_dirs s (add_node d p (new_inode (Directory [] d) mode) s) \<and>
    dir_path (add_node d p (new_inode (Directory [] d) mode) s) R (us @ [p]) = Some (next_ino s)"
proof -
  let ?nd = "new_inode (Directory [] d) mode" and ?i = "next_ino s"
  let ?t = "add_node d p ?nd s"
  note fresh = confined_fresh [OF assms(2)]
  obtain es where es: "dir_entries s d = Some es" using dir_path_end [OF assms(3)] by blast
  have ne: "d \<noteq> ?i" using es fresh by (auto simp: dir_entries_def)
  have "closed_inside Out s" "R \<notin> Out" using assms(2) by (simp_all add: confined_def)
  then have d: "d \<notin> Out" using dir_path_inside assms(3) by blast
  have "confined Out R s0 ?t"
    by (rule confined_add_node [OF assms(2) d ne]) (simp_all add: new_inode_def es assms(1))
  moreover have k: "keeps_dirs s ?t"
    using fresh es assms(4) by (intro keeps_dirs_add_node) simp_all
  moreover have "dir_entries ?t d = Some (AList.update p ?i es)" "dir_entries ?t ?i = Some []"
    using es ne by (simp_all add: add_node_def Let_def dir_entries_update_dir dir_entries_set_node new_inode_def)
  ultimately show ?thesis
    using dir_path_keeps [OF k assms(3)] by (simp add: dir_path_snoc update_conv)
qed

lemma mkdir_parts_inside:
  assumes "root_stable Out rc R s0" "\<forall>c \<in> set rc. proper c"
  shows "confined Out R s0 s \<Longrightarrow> \<forall>c \<in> set us. proper c \<Longrightarrow> \<forall>c \<in> set ps. proper c \<Longrightarrow>
    dir_path s R us = Some d \<Longrightarrow> mkdir_parts (abs_path (rc @ us)) ps mode s = (err, s') \<Longrightarrow>
    confined Out R s0 s' \<and> keeps_dirs s s' \<and> (err = None \<longrightarrow> dir_path s' R (us @ ps) \<noteq> None)"
proof (induction ps arbitrary: us d s)
  case (Cons p ps)
  have p: "proper p" "p \<noteq> []" "p \<noteq> ''.''" using Cons.prems(3) by (auto simp: proper_def)
  have join: "Join (abs_path (rc @ us)) p = abs_path (rc @ us @ [p])"
    using Join_one [of "rc @ us" p] assms(2) Cons.prems(2) p(1) by auto
  note look = lookup_below_root [OF Cons.prems(1) assms(1) Cons.prems(4) assms(2) Cons.prems(2) p(1)]
  have us': "\<forall>c \<in> set (us @ [p]). proper c" using Cons.prems(2) p(1) by simp
  have ps': "\<forall>c \<in> set ps. proper c" using Cons.prems(3) by simp
  show ?case
  proof (cases "map_of (the (dir_entries s d)) p")
    case None
    note st = mkdir_step [OF p(1) Cons.prems(1,4) None]
    let ?t = "add_node d p (new_inode (Directory [] d) mode) s"
    have "mkdir_parts (abs_path (rc @ us @ [p])) ps mode ?t = (err, s')"
      using Cons.prems(5) p look None by (simp add: Lstat_def Mkdir_def join)
    then have "confined Out R s0 s' \<and> keeps_dirs ?t s' \<and>
        (err = None \<longrightarrow> dir_path s' R ((us @ [p]) @ ps) \<noteq> None)"
      using Cons.IH [of ?t "us @ [p]"] st us' ps' by simp
    then show ?thesis using st keeps_dirs_trans [of s ?t s'] by simp
  next
    case (Some i)
    show ?thesis
    proof (cases "nodes s i")
      case None
      then show ?thesis
        using Cons.prems(1,5) p look Some by (auto simp: Lstat_def Mkdir_def join)
    next
      case (Some nd)
      show ?thesis
      proof (cases "is_dir nd")
        case True
        then have nl: "\<not> is_symlink nd" "dir_entries s i \<noteq> None"
          using Some by (auto simp: is_dir_def is_symlink_def dir_entries_def split: node_kind.splits)
        have "dir_path s R (us @ [p]) = Some i"
          using Cons.prems(4) \<open>map_of (the (dir_entries s d)) p = Some i\<close> nl(2)
          by (simp add: dir_path_snoc)
        moreover have "mkdir_parts (abs_path (rc @ us @ [p])) ps mode s = (err, s')"
          using Cons.prems(5) p look Some \<open>map_of (the (dir_entries s d)) p = Some i\<close> True nl
          by (simp add: Lstat_def join)
        ultimately show ?thesis
          using Cons.IH [of s "us @ [p]" i] Cons.prems(1) us' ps' by simp
      next
        case False
        then show ?thesis
          using Cons.prems(1,5) p look Some \<open>map_of (the (dir_entries s d)) p = Some i\<close>
          by (auto simp: Lstat_def join Let_def split: if_splits)
      qed
    qed
  qed
qed simp


lemma join_names_not_dot:
  assumes "\<forall>c \<in> set cs. proper c" "cs \<noteq> []"
  shows "join_with sep cs \<noteq> ''.''"
proof
  have "split_at sep (join_with sep cs) = cs"
    using assms by (intro split_join) (auto simp: proper_def)
  moreover assume "join_with sep cs = ''.''"
  ultimately have "cs = [''.'']" by simp
  then show False using assms(1) by (simp add: proper_def)
qed

lemma split_names: "\<forall>c \<in> set cs. proper c \<Longrightarrow> cs \<noteq> [] \<Longrightarrow> split_at sep (join_with sep cs) = cs"
  by (intro split_join) (auto simp: proper_def)

lemma mkdirAll_inside:
  assumes "root_stable Out rc R s0" "\<forall>c \<in> set rc. proper c" "confined Out R s0 s"
    and "\<forall>c \<in> set us. proper c" "mkdirAllNoSymlink (abs_path rc) (abs_path (rc @ us)) mode s = (err, s')"
  shows "confined Out R s0 s' \<and> keeps_dirs s s' \<and> (err = None \<longrightarrow> dir_path s' R us \<noteq> None)"
proof -
  have c: "Clean (abs_path rc) = abs_path rc" "Clean (abs_path (rc @ us)) = abs_path (rc @ us)"
    using assms(2,4) by (auto intro!: Clean_abs_path)
  have R: "dir_path s R [] = Some R" using assms(3) by (simp add: confined_def)
  show ?thesis
  proof (cases "us = []")
    case True
    have "Rel (abs_path rc) (abs_path rc) = Inr ''.''" by (simp add: Rel_def)
    then show ?thesis using assms(3,5) R True by (auto simp: mkdirAllNoSymlink_def c Let_def)
  next
    case False
    have r: "Rel (abs_path rc) (abs_path (rc @ us)) = Inr (join_with sep us)"
      by (rule Rel_below [OF assms(2,4) False])
    show ?thesis
    proof (cases "mkdir_parts (abs_path (rc @ [])) us mode s = (err, s')")
      case True
      then show ?thesis
        using mkdir_parts_inside [OF assms(1,2,3) _ assms(4) R] by simp
    next
      case False
      then have "err \<noteq> None \<and> s' = s"
        using assms(5) r join_names_not_dot [OF assms(4) \<open>us \<noteq> []\<close>] split_names [OF assms(4) \<open>us \<noteq> []\<close>]
        by (auto simp: mkdirAllNoSymlink_def c Let_def split: if_splits)
      then show ?thesis using assms(3) by auto
    qed
  qed
qed

section \<open>Operations on a name\<close>

text \<open>A path below the root whose parents are real directories.\<close>

definition parents_real :: "fs \<Rightarrow> ino \<Rightarrow> string list \<Rightarrow> bool" where
  "parents_real s R us \<longleftrightarrow> us = [] \<or> dir_path s R (butlast us) \<noteq> None"

lemma parents_real_keeps: "keeps_dirs s s' \<Longrightarrow> parents_real s R us \<Longrightarrow> parents_real s' R us"
  unfolding parents_real_def using dir_path_keeps by (metis not_Some_eq)

lemma lookup_inside:
  assumes "root_stable Out rc R s0" "\<forall>c \<in> set rc. proper c" "confined Out R s0 s"
    and "\<forall>c \<in> set us. proper c" "parents_real s R us" "lookup_l s (abs_path (rc @ us)) = Inr i"
  shows "i \<notin> Out"
proof (cases us rule: rev_cases)
  case Nil
  then have "i = R" using assms(1,3,6) by (auto simp: root_stable_def confined_def)
  then show ?thesis using assms(3) by (simp add: confined_def)
next
  case (snoc ws c)
  then obtain d where d: "dir_path s R ws = Some d" using assms(5) by (auto simp: parents_real_def)
  have p: "\<forall>c \<in> set ws. proper c" "proper c" using assms(4) snoc by auto
  have cl: "closed_inside Out s" "R \<notin> Out" using assms(3) by (simp_all add: confined_def)
  have "d \<notin> Out" by (rule dir_path_inside [OF cl d])
  obtain es where es: "dir_entries s d = Some es" using dir_path_end [OF d] by blast
  have "map_of es c = Some i"
    using assms(6) lookup_below_root(1) [OF assms(3,1) d assms(2) p] snoc es
    by (auto split: option.splits)
  then show ?thesis using entry_inside [OF cl(1) \<open>d \<notin> Out\<close> es] by blast
qed

text \<open>An update of attributes of the inode at such a path.\<close>

lemma set_attr_inside:
  assumes "confined Out R s0 s" "i \<notin> Out" "nodes s i = Some nd" "kind nd' = kind nd"
  shows "confined Out R s0 (set_node i nd' s) \<and> keeps_dirs s (set_node i nd' s)"
proof -
  have "dir_entries (set_node i nd' s) i = dir_entries s i"
    using assms(3,4) by (simp add: dir_entries_set_node dir_entries_def)
  then show ?thesis
    using confined_set_node [OF assms(1,2)] assms(3) keeps_dirs_set_node by simp
qed

lemma chown_inside:
  assumes "root_stable Out rc R s0" "\<forall>c \<in> set rc. proper c" "confined Out R s0 s"
    and "\<forall>c \<in> set us. proper c" "parents_real s R us"
  shows "confined Out R s0 (bestEffortLchown chown (abs_path (rc @ us)) uid gid s) \<and>
    keeps_dirs s (bestEffortLchown chown (abs_path (rc @ us)) uid gid s)"
  using assms(3) lookup_inside [OF assms] set_attr_inside [OF assms(3)]
  by (auto simp: bestEffortLchown_def Lchown_def split: sum.splits option.splits)

lemma override_inside:
  assumes "root_stable Out rc R s0" "\<forall>c \<in> set rc. proper c" "confined Out R s0 s"
    and "\<forall>c \<in> set us. proper c" "parents_real s R us"
  shows "confined Out R s0 (SetOverrideStat (abs_path (rc @ us)) uid gid mode s) \<and>
    keeps_dirs s (SetOverrideStat (abs_path (rc @ us)) uid gid mode s)"
  using assms(3) lookup_inside [OF assms] set_attr_inside [OF assms(3)]
  by (auto simp: SetOverrideStat_def Lsetxattr_def split: sum.splits option.splits if_splits)

lemma chmod_inside:
  assumes "root_stable Out rc R s0" "\<forall>c \<in> set rc. proper c" "confined Out R s0 s"
    and "\<forall>c \<in> set us. proper c" "dir_path s R us \<noteq> None" "Chmod s (abs_path (rc @ us)) mode = Inr s'"
  shows "confined Out R s0 s' \<and> keeps_dirs s s'"
proof -
  obtain d where d: "dir_path s R us = Some d" using assms(5) by blast
  have "closed_inside Out s" "R \<notin> Out" using assms(3) by (simp_all add: confined_def)
  then have "d \<notin> Out" using dir_path_inside d by blast
  moreover have "components (abs_path (rc @ us)) = rc @ us"
    using assms(2,4) by (intro components_abs_path) auto
  ultimately show ?thesis
    using assms(6) walk_below_root [OF assms(3,1) d assms(4)] set_attr_inside [OF assms(3)]
    by (auto simp: Chmod_def split: option.splits)
qed


text \<open>The facts about a name below the root that the operations on it share.\<close>

lemma name_inside:
  assumes "root_stable Out rc R s0" "\<forall>c \<in> set rc. proper c" "confined Out R s0 s"
    and "\<forall>c \<in> set us. proper c" "proper c" "dir_path s R us = Some d"
  obtains es where "d \<notin> Out" "dir_entries s d = Some es" "d \<noteq> next_ino s"
    "namei s root_ino (components (abs_path (rc @ us @ [c]))) = Inr (d, c)"
    "lookup_l s (abs_path (rc @ us @ [c])) = (case map_of es c of None \<Rightarrow> Inl ENOENT | Some i \<Rightarrow> Inr i)"
    "entry_at s (abs_path (rc @ us @ [c])) = Inr (d, c, map_of es c)"
    "\<And>i. map_of es c = Some i \<Longrightarrow> i \<notin> Out"
proof -
  have cl: "closed_inside Out s" "R \<notin> Out" using assms(3) by (simp_all add: confined_def)
  have d: "d \<notin> Out" by (rule dir_path_inside [OF cl assms(6)])
  obtain es where es: "dir_entries s d = Some es" using dir_path_end [OF assms(6)] by blast
  have "d \<noteq> next_ino s" using es confined_fresh [OF assms(3)] by (auto simp: dir_entries_def)
  then show thesis
    using that d es namei_below_root [OF assms(3,1,6,2,4,5)] lookup_below_root [OF assms(3,1,6,2,4,5)]
      entry_inside [OF cl(1) d es]
    by simp
qed

lemma create_inside:
  assumes "confined Out R s0 s" "d \<notin> Out" "d \<noteq> next_ino s" "dir_entries s d = Some es"
    and "map_of es c = None" "case kind nd of Directory xs _ \<Rightarrow> xs = [] | _ \<Rightarrow> True" "proper c"
  shows "confined Out R s0 (add_node d c nd s) \<and> keeps_dirs s (add_node d c nd s)"
  using confined_add_node [OF assms(1-3) _ assms(7,6)] assms(4) keeps_dirs_add_node [OF _ assms(4,5)]
    confined_fresh [OF assms(1)] by blast

lemma open_inside:
  assumes "root_stable Out rc R s0" "\<forall>c \<in> set rc. proper c" "confined Out R s0 s"
    and "\<forall>c \<in> set us. proper c" "proper c" "dir_path s R us = Some d"
    and "validateNoSymlinkLeaf (abs_path (rc @ us @ [c])) s = None"
    and "OpenTrunc s (abs_path (rc @ us @ [c])) mode = Inr (f, s')"
  shows "confined Out R s0 s' \<and> keeps_dirs s s' \<and> f \<notin> Out"
proof -
  have c: "c \<noteq> ''..''" using assms(5) by (simp add: proper_def)
  from name_inside [OF assms(1-6)] obtain es where n: "d \<notin> Out" "dir_entries s d = Some es"
    "d \<noteq> next_ino s" "namei s root_ino (components (abs_path (rc @ us @ [c]))) = Inr (d, c)"
    "lookup_l s (abs_path (rc @ us @ [c])) = (case map_of es c of None \<Rightarrow> Inl ENOENT | Some i \<Rightarrow> Inr i)"
    "\<And>i. map_of es c = Some i \<Longrightarrow> i \<notin> Out" by metis
  show ?thesis
  proof (cases "map_of es c")
    case None
    then have "f = next_ino s" "s' = add_node d c (new_inode (File []) mode) s"
      using assms(8) n(2,4) c by (auto simp: OpenTrunc_def open_at.simps [of max_links])
    then show ?thesis
      using create_inside [OF assms(3) n(1,3,2) None _ assms(5)] confined_fresh [OF assms(3)]
      by (simp add: new_inode_def)
  next
    case (Some i)
    have "i \<notin> Out" by (rule n(6) [OF Some])
    obtain nd where nd: "nodes s i = Some nd"
      using assms(8) n(2,4) c Some by (auto simp: OpenTrunc_def open_at.simps [of max_links] split: option.splits)
    then have "\<not> is_symlink nd"
      using assms(7) n(5) Some by (auto simp: validateNoSymlinkLeaf_def Lstat_def split: if_splits)
    then have "f = i \<and> (s' = s \<or> (\<exists>old. kind nd = File old \<and> s' = set_node i (nd\<lparr>kind := File []\<rparr>) s))"
      using assms(8) n(2,4) c Some nd
      by (auto simp: OpenTrunc_def open_at.simps [of max_links] is_symlink_def split: node_kind.splits)
    moreover have "confined Out R s0 (set_node i (nd\<lparr>kind := File []\<rparr>) s) \<and>
        keeps_dirs s (set_node i (nd\<lparr>kind := File []\<rparr>) s)" if "kind nd = File old" for old
    proof -
      have "dir_entries (set_node i (nd\<lparr>kind := File []\<rparr>) s) i = dir_entries s i"
        using nd that by (simp add: dir_entries_set_node dir_entries_def)
      then show ?thesis
        using confined_set_node [OF assms(3) \<open>i \<notin> Out\<close>] nd keeps_dirs_set_node by simp
    qed
    ultimately show ?thesis using assms(3) \<open>i \<notin> Out\<close> by auto
  qed
qed

lemma write_inside:
  assumes "confined Out R s0 s" "f \<notin> Out"
  shows "confined Out R s0 (write_node f data s) \<and> keeps_dirs s (write_node f data s)"
proof (cases "\<exists>nd old. nodes s f = Some nd \<and> kind nd = File old")
  case True
  then obtain nd old where nd: "nodes s f = Some nd" "kind nd = File old" by blast
  then have "dir_entries (set_node f (nd\<lparr>kind := File (old @ data)\<rparr>) s) f = dir_entries s f"
    by (simp add: dir_entries_set_node dir_entries_def)
  then show ?thesis
    using confined_set_node [OF assms] nd keeps_dirs_set_node by (simp add: write_node_def)
next
  case False
  then have "write_node f data s = s"
    by (auto simp: write_node_def split: option.splits node_kind.splits)
  then show ?thesis using assms(1) by simp
qed

lemma remove_inside:
  assumes "root_stable Out rc R s0" "\<forall>c \<in> set rc. proper c" "confined Out R s0 s"
    and "\<forall>c \<in> set us. proper c" "proper c" "dir_path s R us = Some d"
    and "\<And>nd. Lstat s (abs_path (rc @ us @ [c])) = Inr nd \<Longrightarrow> \<not> is_dir nd"
    and "Remove s (abs_path (rc @ us @ [c])) = Inr s'"
  shows "confined Out R s0 s' \<and> keeps_dirs s s'"
proof -
  from name_inside [OF assms(1-6)] obtain es where n: "d \<notin> Out" "dir_entries s d = Some es"
    "lookup_l s (abs_path (rc @ us @ [c])) = (case map_of es c of None \<Rightarrow> Inl ENOENT | Some i \<Rightarrow> Inr i)"
    "entry_at s (abs_path (rc @ us @ [c])) = Inr (d, c, map_of es c)" by metis
  obtain i where i: "map_of es c = Some i" "s' = update_dir d (AList.delete c) s"
    using assms(8) n(4) by (auto simp: Remove_def split: option.splits list.splits)
  have "dir_entries s i = None"
  proof (rule ccontr)
    assume "dir_entries s i \<noteq> None"
    then obtain nd where "nodes s i = Some nd" "is_dir nd"
      by (auto simp: dir_entries_def is_dir_def split: option.splits node_kind.splits)
    then show False using assms(7) [of nd] n(3) i(1) by (simp add: Lstat_def)
  qed
  then have "keeps_dirs s s'" using keeps_dirs_delete [OF n(2) i(1)] i(2) by simp
  moreover have "confined Out R s0 s'" unfolding i(2) by (rule confined_delete [OF assms(3) n(1)])
  ultimately show ?thesis by blast
qed

lemma symlink_inside:
  assumes "root_stable Out rc R s0" "\<forall>c \<in> set rc. proper c" "confined Out R s0 s"
    and "\<forall>c \<in> set us. proper c" "proper c" "dir_path s R us = Some d"
    and "os_Symlink s t (abs_path (rc @ us @ [c])) = Inr s'"
  shows "confined Out R s0 s' \<and> keeps_dirs s s'"
proof -
  from name_inside [OF assms(1-6)] obtain es where n: "d \<notin> Out" "dir_entries s d = Some es"
    "d \<noteq> next_ino s" "entry_at s (abs_path (rc @ us @ [c])) = Inr (d, c, map_of es c)" by metis
  then have "map_of es c = None" "s' = add_node d c (new_inode (Symlink t) 0x1FF) s"
    using assms(7) by (auto simp: os_Symlink_def split: option.splits if_splits)
  then show ?thesis using create_inside [OF assms(3) n(1,3,2) _ _ assms(5)] by (simp add: new_inode_def)
qed

lemma abs_path_shorter: "proper c \<Longrightarrow> length (abs_path ws) < length (abs_path (ws @ [c]))"
  by (cases "ws = []") (auto simp: abs_path_def join_with_append proper_def)

lemma mkdirAll_above:
  assumes "\<forall>c \<in> set rc. proper c" "rc \<noteq> []"
  shows "\<exists>e. mkdirAllNoSymlink (abs_path rc) (Dir (abs_path rc)) mode s = (Some e, s)"
proof -
  obtain ws c where rc: "rc = ws @ [c]" using assms(2) by (meson rev_exhaust)
  have p: "\<forall>c \<in> set ws. proper c" "proper c" using assms(1) rc by auto
  have "Dir (abs_path rc) = abs_path ws" using Dir_abs_path [OF p] rc by simp
  moreover have "Clean (abs_path rc) = abs_path rc" "Clean (abs_path ws) = abs_path ws"
    using assms(1) p(1) by (simp_all add: Clean_abs_path)
  moreover have "abs_path ws \<noteq> abs_path rc" "\<not> HasPrefix (abs_path ws) (abs_path rc @ ''/'')"
    using abs_path_shorter [OF p(2), of ws] rc
    by (auto simp: HasPrefix_def dest!: arg_cong [of _ _ length])
  ultimately show ?thesis by (simp add: mkdirAllNoSymlink_def Let_def)
qed

text \<open>The parent of an entry below the root is made of real directories.\<close>

lemma parent_inside:
  assumes "root_stable Out rc R s0" "\<forall>c \<in> set rc. proper c" "confined Out R s0 s" "rc \<noteq> []"
    and "\<forall>c \<in> set us. proper c" "mkdirAllNoSymlink (abs_path rc) (Dir (abs_path (rc @ us))) mode s = (err, s')"
  shows "confined Out R s0 s' \<and> keeps_dirs s s' \<and>
    (err = None \<longrightarrow> (\<exists>ws c d. us = ws @ [c] \<and> dir_path s' R ws = Some d))"
proof (cases us rule: rev_cases)
  case Nil
  then show ?thesis using mkdirAll_above [OF assms(2,4), of mode s] assms(3,6) by auto
next
  case (snoc ws c)
  have "Dir (abs_path (rc @ us)) = abs_path (rc @ ws)"
    using Dir_abs_path [of "rc @ ws" c] assms(2,5) snoc by auto
  then show ?thesis
    using mkdirAll_inside [OF assms(1-3), of ws mode err s'] assms(5,6) snoc by auto
qed

lemma regular_inside:
  assumes "root_stable Out rc R s0" "\<forall>c \<in> set rc. proper c" "confined Out R s0 s" "rc \<noteq> []"
    and "\<forall>c \<in> set us. proper c"
    and "extractRegularFile M e (abs_path (rc @ us)) (abs_path rc) m s = (err, m', s')"
  shows "confined Out R s0 s' \<and> keeps_dirs s s' \<and> (err = None \<longrightarrow> parents_real s' R us)"
proof -
  let ?t = "abs_path (rc @ us)"
  obtain e1 s1 where mk: "mkdirAllNoSymlink (abs_path rc) (Dir ?t) 0x1ED s = (e1, s1)"
    by (meson surj_pair)
  note s1 = parent_inside [OF assms(1-5) mk]
  show ?thesis
  proof (cases "e1 = None \<and> validateNoSymlinkLeaf ?t s1 = None \<and>
      (\<exists>r. OpenTrunc s1 ?t (Perm (hdr_Mode (te_header e)) OR 0x100) = Inr r)")
    case False
    then show ?thesis
      using assms(6) s1 mk
      by (auto simp: extractRegularFile_def split: option.splits sum.splits)
  next
    case True
    then obtain f s2 where ok: "e1 = None" "validateNoSymlinkLeaf ?t s1 = None"
      "OpenTrunc s1 ?t (Perm (hdr_Mode (te_header e)) OR 0x100) = Inr (f, s2)" by auto
    from s1 ok(1) obtain ws c d where us: "us = ws @ [c]" "dir_path s1 R ws = Some d" by blast
    have p: "\<forall>c \<in> set ws. proper c" "proper c" using assms(5) us(1) by auto
    have s2: "confined Out R s0 s2 \<and> keeps_dirs s1 s2 \<and> f \<notin> Out"
      using open_inside [OF assms(1,2) _ p us(2), where f = f and s' = s2] s1 ok us(1) by auto
    obtain data where s': "s' = write_node f data s2"
      using assms(6) mk ok by (auto simp: extractRegularFile_def Let_def split: prod.splits)
    have w: "confined Out R s0 s'" "keeps_dirs s2 s'" using write_inside [of Out R s0 s2 f data] s2 s' by auto
    then have k: "keeps_dirs s1 s'" using s2 keeps_dirs_trans by blast
    then show ?thesis
      using w s1 us keeps_dirs_trans parents_real_keeps [OF k, of R us] by (auto simp: parents_real_def)
  qed
qed

lemma symlink_entry_inside:
  assumes "root_stable Out rc R s0" "\<forall>c \<in> set rc. proper c" "confined Out R s0 s" "rc \<noteq> []"
    and "\<forall>c \<in> set us. proper c"
    and "extractSymlink hdr (abs_path (rc @ us)) (abs_path rc) s = (err, s')"
  shows "confined Out R s0 s' \<and> keeps_dirs s s' \<and> (err = None \<longrightarrow> parents_real s' R us)"
proof -
  let ?t = "abs_path (rc @ us)"
  obtain e1 s1 where mk: "mkdirAllNoSymlink (abs_path rc) (Dir ?t) 0x1ED s = (e1, s1)"
    by (meson surj_pair)
  note s1 = parent_inside [OF assms(1-5) mk]
  define rm where "rm = (case Lstat s1 ?t of Inr info \<Rightarrow> (case Remove s1 ?t of Inl e \<Rightarrow> s1 | Inr x \<Rightarrow> x) | Inl err \<Rightarrow> s1)"
  show ?thesis
  proof (cases "e1 = None \<and> \<not> symlink_leaves (abs_path rc) ?t (hdr_Linkname hdr) \<and>
      (\<forall>nd. Lstat s1 ?t = Inr nd \<longrightarrow> \<not> is_dir nd)")
    case False
    then have "s' = s1 \<and> err \<noteq> None"
      using assms(6) mk
      by (cases e1) (auto simp: extractSymlink_def Let_def split: if_splits)
    then show ?thesis using s1 by blast
  next
    case True
    then have ok: "e1 = None" "\<And>nd. Lstat s1 ?t = Inr nd \<Longrightarrow> \<not> is_dir nd" by auto
    from s1 ok(1) obtain ws c d where us: "us = ws @ [c]" "dir_path s1 R ws = Some d" by blast
    have p: "\<forall>c \<in> set ws. proper c" "proper c" using assms(5) us(1) by auto
    have r: "confined Out R s0 rm \<and> keeps_dirs s1 rm"
      using remove_inside [OF assms(1,2) _ p us(2)] s1 ok us(1)
      by (auto simp: rm_def split: sum.splits)
    then obtain d' where d': "dir_path rm R ws = Some d'" using dir_path_keeps us(2) by blast
    have "s' = s1 \<or> s' = rm \<or> os_Symlink rm (hdr_Linkname hdr) ?t = Inr s'"
    proof (cases "Lstat s1 ?t")
      case (Inl er)
      then show ?thesis
        using assms(6) mk True by (auto simp: extractSymlink_def Let_def rm_def split: sum.splits if_splits)
    next
      case (Inr nd)
      then show ?thesis
        using assms(6) mk True
        by (cases "os_Symlink rm (hdr_Linkname hdr) ?t") (auto simp: extractSymlink_def Let_def rm_def)
    qed
    then have "s' = s1 \<or> confined Out R s0 s' \<and> keeps_dirs rm s'"
      using symlink_inside [OF assms(1,2) _ p d', where s' = s'] r us(1) keeps_dirs_refl by auto
    then have k: "confined Out R s0 s' \<and> keeps_dirs s1 s'" using r s1 keeps_dirs_trans by auto
    then show ?thesis
      using s1 us keeps_dirs_trans parents_real_keeps [of s1 s' R us] by (auto simp: parents_real_def)
  qed
qed

lemma directory_inside:
  assumes "root_stable Out rc R s0" "\<forall>c \<in> set rc. proper c" "confined Out R s0 s"
    and "\<forall>c \<in> set us. proper c"
    and "make_directory hdr (abs_path (rc @ us)) (abs_path rc) s = (err, s')"
  shows "confined Out R s0 s' \<and> keeps_dirs s s' \<and> (err = None \<longrightarrow> parents_real s' R us)"
proof -
  let ?t = "abs_path (rc @ us)" and ?m = "Perm (hdr_Mode hdr) OR 0x1C0"
  obtain e1 s1 where mk: "mkdirAllNoSymlink (abs_path rc) ?t ?m s = (e1, s1)" by (meson surj_pair)
  note s1 = mkdirAll_inside [OF assms(1-4) mk]
  have par: "parents_real s1 R us" if "e1 = None"
    using s1 that by (cases us rule: rev_cases) (auto simp: parents_real_def dir_path_snoc split: option.splits)
  have "s' = s1 \<or> confined Out R s0 s' \<and> keeps_dirs s1 s'" if "e1 = None"
    using assms(5) mk that chmod_inside [OF assms(1,2) _ assms(4), of s1] s1
    by (auto simp: make_directory_def Let_def split: sum.splits)
  moreover have "s' = s1 \<and> err \<noteq> None" if "e1 \<noteq> None"
    using assms(5) mk that by (auto simp: make_directory_def Let_def)
  ultimately show ?thesis
    using s1 par keeps_dirs_trans parents_real_keeps [of s1 s' R us] by (cases "e1 = None") auto
qed

text \<open>An entry that is not a hard link stays inside.\<close>

lemma finish_inside:
  assumes "root_stable Out rc R s0" "\<forall>c \<in> set rc. proper c"
    and "\<forall>c \<in> set us. proper c" "confined Out R s0 s" "parents_real s R us"
  shows "confined Out R s0 (SetOverrideStat (abs_path (rc @ us)) uid gid mode
           (bestEffortLchown chown (abs_path (rc @ us)) u g s))"
  using chown_inside [OF assms(1,2,4,3,5), of chown u g] parents_real_keeps assms(5)
    override_inside [OF assms(1,2) _ assms(3)] by blast

lemma entry_stays_inside:
  assumes "root_stable Out rc R s0" "\<forall>c \<in> set rc. proper c" "confined Out R s0 s" "rc \<noteq> []"
    and "\<forall>c \<in> set us. proper c" "hdr_Typeflag (te_header e) \<noteq> TypeLink"
    and "extractTarEntry M chown e (abs_path (rc @ us)) (abs_path rc) m s = (err, m', s')"
  shows "confined Out R s0 s'"
proof -
  let ?t = "abs_path (rc @ us)" and ?r = "abs_path rc"
  have fin: "confined Out R s0 s'"
    if "confined Out R s0 s1 \<and> keeps_dirs s s1 \<and> (e1 = None \<longrightarrow> parents_real s1 R us)"
      and "s' = (case e1 of Some x \<Rightarrow> s1 | None \<Rightarrow>
        SetOverrideStat ?t (hdr_Uid (te_header e)) (hdr_Gid (te_header e)) (hdr_Mode (te_header e))
          (bestEffortLchown chown ?t (hdr_Uid (te_header e)) (hdr_Gid (te_header e)) s1))" for e1 s1
    using that finish_inside [OF assms(1,2,5), of s1] by (cases e1) auto
  show ?thesis
  proof (cases "hdr_Typeflag (te_header e)")
    case TypeDir
    obtain e1 s1 where r: "make_directory (te_header e) ?t ?r s = (e1, s1)" by (meson surj_pair)
    show ?thesis
      using fin [OF directory_inside [OF assms(1-3,5) r]] assms(7) r TypeDir
      by (cases e1) (auto simp: extractTarEntry_def Let_def)
  next
    case TypeReg
    obtain e1 m1 s1 where r: "extractRegularFile M e ?t ?r m s = (e1, m1, s1)" by (metis surj_pair)
    show ?thesis
      using fin [OF regular_inside [OF assms(1-5) r]] assms(7) r TypeReg
      by (cases e1) (auto simp: extractTarEntry_def Let_def)
  next
    case TypeSymlink
    obtain e1 s1 where r: "extractSymlink (te_header e) ?t ?r s = (e1, s1)" by (meson surj_pair)
    show ?thesis
      using fin [OF symlink_entry_inside [OF assms(1-5) r]] assms(7) r TypeSymlink
      by (cases e1) (auto simp: extractTarEntry_def Let_def)
  qed (use assms(3,6,7) in \<open>auto simp: extractTarEntry_def Let_def\<close>)
qed

lemma loop_stays_inside:
  assumes "root_stable Out rc R s0" "\<forall>c \<in> set rc. proper c" "rc \<noteq> []" "confined Out R s0 s"
    and "\<forall>e \<in> set es. hdr_Typeflag (te_header e) \<noteq> TypeLink"
    and "extract_loop M cancelled clean chown (abs_path rc) n es m s = (err, m', s')"
  shows "confined Out R s0 s'"
  using assms(4-6)
proof (induction es arbitrary: n m s)
  case Nil
  then show ?case by (auto split: if_splits)
next
  case (Cons e es)
  show ?case
  proof (cases "\<exists>m1 t. m_next M e m = NextOk m1 \<and> \<not> cancelled n \<and> \<not> maxExtractEntries < int (n + 1) \<and>
      SanitizeTarPath (abs_path rc) (hdr_Name (te_header e)) = Inr t")
    case True
    then obtain m1 t where ok: "m_next M e m = NextOk m1" "\<not> cancelled n" "\<not> maxExtractEntries < int (n + 1)"
      "SanitizeTarPath (abs_path rc) (hdr_Name (te_header e)) = Inr t" by blast
    obtain us where us: "\<forall>c \<in> set us. proper c" "t = abs_path (rc @ us)"
      using Contains_inside [OF assms(2)] ok(4) by (auto simp: SanitizeTarPath_def)
    obtain e1 m2 s1 where r: "extractTarEntry M chown e t (abs_path rc) m1 s = (e1, m2, s1)"
      by (metis surj_pair)
    have s1: "confined Out R s0 s1"
      using entry_stays_inside [OF assms(1,2) Cons.prems(1) assms(3) us(1)] r us(2) Cons.prems(2) by auto
    show ?thesis
      using Cons.prems(2,3) ok r s1 Cons.IH [OF s1] by (cases e1) (auto split: if_splits)
  next
    case False
    then show ?thesis
      using Cons.prems Cons.IH [OF Cons.prems(1)]
      by (auto split: if_splits next_result.splits sum.splits)
  qed
qed

section \<open>Properties of the extraction\<close>

text \<open>
  A destination: a directory \<open>R\<close> that the path \<open>rc\<close> names, with the inodes \<open>Out\<close> outside
  it. No entry inside leads outside, and the path of the destination does not pass through
  anything inside.
\<close>

definition destination :: "ino set \<Rightarrow> string list \<Rightarrow> ino \<Rightarrow> fs \<Rightarrow> bool" where
  "destination Out rc R s \<longleftrightarrow>
     rc \<noteq> [] \<and> (\<forall>c \<in> set rc. proper c) \<and> root_stable Out rc R s \<and> confined Out R s s"

lemma extract_loop_confined:
  assumes "destination Out rc R s" "\<forall>e \<in> set es. hdr_Typeflag (te_header e) \<noteq> TypeLink"
  shows "same_outside Out s (snd (snd (extract_loop M cancelled clean chown (abs_path rc) n es m s)))"
proof -
  obtain err m' s' where r: "extract_loop M cancelled clean chown (abs_path rc) n es m s = (err, m', s')"
    by (metis surj_pair)
  have "confined Out R s s'"
    using loop_stays_inside [OF _ _ _ _ assms(2) r] assms(1) by (auto simp: destination_def)
  then show ?thesis using r by (simp add: confined_def)
qed

text \<open>A host with a file outside the directory \<^verbatim>\<open>/dst\<close>, for the concrete runs below.\<close>

definition host_fs :: fs where
  "host_fs = \<lparr>nodes = map_of
     [(0, \<lparr>kind = Directory [(''secret'', 1), (''dst'', 2)] 0, perm = 0x1ED, owner = (0, 0), override_stat = None\<rparr>),
      (1, \<lparr>kind = File [1, 2, 3], perm = 0x180, owner = (0, 0), override_stat = None\<rparr>),
      (2, \<lparr>kind = Directory [] 0, perm = 0x1ED, owner = (0, 0), override_stat = None\<rparr>)],
     next_ino = 3\<rparr>"

definition entry :: "string \<Rightarrow> string \<Rightarrow> Typeflag \<Rightarrow> bytes \<Rightarrow> tar_entry" where
  "entry name link flag data =
     \<lparr>te_header = \<lparr>hdr_Name = name, hdr_Linkname = link, hdr_Typeflag = flag, hdr_Mode = 0x1A4,
        hdr_Uid = 0, hdr_Gid = 0\<rparr>, te_pad = 0, te_head = 512, te_chunks = [data]\<rparr>"

lemma host_destination: "destination {0, 1} [''dst''] 2 host_fs"
proof -
  have d: "dir_entries host_fs 0 = Some [(''secret'', 1), (''dst'', 2)]"
    "dir_entries host_fs 2 = Some []"
    by (simp_all add: dir_entries_def host_fs_def)
  have "root_stable {0, 1} [''dst''] 2 host_fs"
    unfolding root_stable_def
  proof (intro allI impI)
    fix s assume s: "same_outside {0, 1} host_fs s" "dir_entries s 2 \<noteq> None"
    then have n: "nodes s 0 = nodes host_fs 0" by (simp add: same_outside_def)
    then have e: "dir_entries s 0 = Some [(''secret'', 1), (''dst'', 2)]" using d by (simp add: dir_entries_def)
    have l: "link_target s 2 = None"
      using s(2) by (auto simp: link_target_def dir_entries_def split: option.splits node_kind.splits)
    have "components ''/dst'' = [''dst'']" by code_simp
    moreover have "abs_path [''dst''] = ''/dst''" by code_simp
    ultimately show "(\<exists>n. walk max_links s root_ino [''dst''] = Inr (n, 2)) \<and>
        lookup_l s (abs_path [''dst'']) = Inr 2"
      using e l by (simp add: lookup_l_def namei_def)
  qed
  moreover have "confined {0, 1} 2 host_fs host_fs"
  proof -
    have o: "dir_entries host_fs i = (if i = 2 then Some [] else None)" if "i \<notin> {0, 1}" for i
      using that by (auto simp: dir_entries_def host_fs_def)
    then have "entry_of host_fs d c = None" if "d \<notin> {0, 1}" for d c
      using that by (simp add: entry_of_def)
    then have "tree_inside {0, 1} 2 host_fs" unfolding tree_inside_def by (metis option.distinct(1))
    moreover have "closed_inside {0, 1} host_fs"
      unfolding closed_inside_def by (metis image_empty inf_bot_left list.set(1) o option.distinct(1) option.inject)
    moreover have "\<forall>i. 3 \<le> i \<longrightarrow> nodes host_fs i = None" "next_ino host_fs = 3"
      by (auto simp: host_fs_def)
    ultimately show ?thesis using d(2) by (simp add: confined_def same_outside_def)
  qed
  moreover have "proper ''dst''" by code_simp
  ultimately show ?thesis by (simp add: destination_def)
qed

text \<open>
  C3. Extracting an archive without hard-link entries changes nothing outside the destination
  directory, whatever names, symbolic links, contents, sizes and order its entries have, and
  whether or not the extraction ends in an error.
\<close>

theorem extractTar_confined:
  assumes "destination Out rc R s" "\<forall>e \<in> set es. hdr_Typeflag (te_header e) \<noteq> TypeLink" "i \<in> Out"
  shows "nodes (snd (snd (extractTar cancelled clean chown (abs_path rc) es s))) i = nodes s i \<and>
    nodes (snd (snd (extractTarSharedLimit cancelled clean chown (abs_path rc) es remaining s))) i = nodes s i"
  using extract_loop_confined [OF assms(1,2), of limited_reader cancelled clean chown 0 maxExtractSize]
    extract_loop_confined [OF assms(1,2), of atomic_limit_reader cancelled clean chown 0 remaining] assms(3)
  unfolding extractTar_def extractTarSharedLimit_def same_outside_def by blast

theorem extractTar_confined_witness:
  "nodes (snd (snd (extractTar (\<lambda>_. False) True True (abs_path [''dst''])
     [entry ''a'' ''/'' TypeSymlink [], entry ''a/secret'' [] TypeReg [9],
      entry ''../secret'' [] TypeReg [9]] host_fs))) 1 = nodes host_fs 1"
  using extractTar_confined [OF host_destination, of _ 1] by (simp add: entry_def)


end
