(* ===== verification/Budget.thy ===== *)
theory Budget
  imports Confine
begin

text \<open>
  Bounds on what an extraction writes. The locale \<open>meter\<close> is the contract of a metered
  reader; it is interpreted on both readers of \<^verbatim>\<open>image/pull.go\<close>, and the bounds follow
  from it.
\<close>

section \<open>Growth of the file system\<close>

text \<open>
  The bytes in files, counted per inode. Reading is metered, and \<open>left\<close> reads a meter: the
  laws bound what a read delivers by what it takes from the meter, and say how far a meter
  may be overdrawn when no header and no chunk is larger than \<open>B\<close>.
\<close>

definition node_size :: "inode option \<Rightarrow> nat" where
  "node_size n = (case n of Some nd \<Rightarrow> (case kind nd of File b \<Rightarrow> length b | _ \<Rightarrow> 0) | None \<Rightarrow> 0)"

definition fs_size :: "fs \<Rightarrow> nat" where
  "fs_size s = (\<Sum>i < next_ino s. node_size (nodes s i))"

definition fresh_inodes :: "fs \<Rightarrow> bool" where
  "fresh_inodes s \<longleftrightarrow> (\<forall>i. next_ino s \<le> i \<longrightarrow> nodes s i = None)"

definition grows :: "nat \<Rightarrow> fs \<Rightarrow> fs \<Rightarrow> bool" where
  "grows k s s' \<longleftrightarrow> (fresh_inodes s \<longrightarrow> fresh_inodes s' \<and> fs_size s' \<le> fs_size s + k)"

named_theorems growth \<open>bounds on the growth of the file system\<close>

lemma grows_refl [growth, simp]: "grows k s s"
  by (simp add: grows_def)

lemma grows_trans: "grows j s s' \<Longrightarrow> grows k s' s'' \<Longrightarrow> grows (j + k) s s''"
  by (auto simp: grows_def)

lemma grows_0_trans [trans]: "grows 0 s s' \<Longrightarrow> grows k s' s'' \<Longrightarrow> grows k s s''"
  using grows_trans [of 0 s s' k s''] by simp

lemma grows_set_node:
  assumes "nodes s i = Some nd" "node_size (Some nd') \<le> node_size (Some nd) + k"
  shows "grows k s (set_node i nd' s)"
  unfolding grows_def
proof (intro impI conjI)
  assume f: "fresh_inodes s"
  then have i: "i < next_ino s"
    using assms(1) unfolding fresh_inodes_def by (metis leI option.distinct(1))
  then show "fresh_inodes (set_node i nd' s)" using f by (auto simp: fresh_inodes_def set_node_def)
  let ?g = "\<lambda>j. node_size (nodes s j)" and ?h = "\<lambda>j. node_size (nodes (set_node i nd' s) j)"
  have "(\<Sum>j < next_ino s. ?h j) = ?h i + (\<Sum>j \<in> {..< next_ino s} - {i}. ?h j)"
    using i by (intro sum.remove) auto
  also have "(\<Sum>j \<in> {..< next_ino s} - {i}. ?h j) = (\<Sum>j \<in> {..< next_ino s} - {i}. ?g j)"
    by (rule sum.cong) (auto simp: set_node_def)
  also have "?h i + \<dots> \<le> (?g i + k) + \<dots>" using assms by (simp add: set_node_def)
  also have "\<dots> = fs_size s + k"
    using sum.remove [of "{..< next_ino s}" i ?g] i by (simp add: fs_size_def)
  finally show "fs_size (set_node i nd' s) \<le> fs_size s + k" by (simp add: fs_size_def set_node_def)
qed

lemma grows_update_dir [growth]: "grows 0 s (update_dir d f s)"
proof (cases "\<exists>nd es p. nodes s d = Some nd \<and> kind nd = Directory es p")
  case True
  then obtain nd es p where nd: "nodes s d = Some nd" "kind nd = Directory es p" by blast
  then have "grows 0 s (set_node d (nd\<lparr>kind := Directory (f es) p\<rparr>) s)"
    by (intro grows_set_node) (auto simp: node_size_def)
  then show ?thesis using nd by (simp add: update_dir_def)
next
  case False
  then have "update_dir d f s = s" by (auto simp: update_dir_def split: option.splits node_kind.splits)
  then show ?thesis by simp
qed

lemma grows_add_node:
  assumes "node_size (Some nd) = 0"
  shows "grows 0 s (add_node d c nd s)"
proof -
  let ?s = "(set_node (next_ino s) nd s)\<lparr>next_ino := Suc (next_ino s)\<rparr>"
  have "grows 0 s ?s"
    using assms by (auto simp: grows_def fresh_inodes_def fs_size_def set_node_def intro!: sum_mono)
  then show ?thesis
    using grows_0_trans grows_update_dir by (simp add: add_node_def Let_def)
qed

lemma grows_attr:
  assumes "nodes s i = Some nd" "kind nd' = kind nd"
  shows "grows 0 s (set_node i nd' s)"
  using assms by (intro grows_set_node) (auto simp: node_size_def)

lemma grows_Mkdir [growth]: "Mkdir s p mode = Inr s' \<Longrightarrow> grows 0 s s'"
  by (auto simp: Mkdir_def node_size_def new_inode_def intro!: grows_add_node split: sum.splits option.splits)

lemma grows_Symlink [growth]: "os_Symlink s t p = Inr s' \<Longrightarrow> grows 0 s s'"
  by (auto simp: os_Symlink_def node_size_def new_inode_def intro!: grows_add_node
    split: sum.splits option.splits if_splits)

lemma grows_Link [growth]: "Link s t p = Inr s' \<Longrightarrow> grows 0 s s'"
  by (auto simp: Link_def intro!: grows_update_dir split: sum.splits option.splits if_splits)

lemma grows_Remove [growth]: "Remove s p = Inr s' \<Longrightarrow> grows 0 s s'"
  by (auto simp: Remove_def intro!: grows_update_dir split: sum.splits option.splits list.splits)

lemma grows_Chmod [growth]: "Chmod s p m = Inr s' \<Longrightarrow> grows 0 s s'"
  by (auto simp: Chmod_def intro!: grows_attr split: sum.splits option.splits)

lemma grows_Lchown [growth]: "grows 0 s (bestEffortLchown chown p u g s)"
  by (auto simp: bestEffortLchown_def Lchown_def intro!: grows_attr split: sum.splits option.splits)

lemma grows_override [growth]: "grows 0 s (SetOverrideStat p u g m s)"
  by (auto simp: SetOverrideStat_def Lsetxattr_def intro!: grows_attr split: sum.splits option.splits if_splits)

lemma grows_write [growth]: "grows (length data) s (write_node f data s)"
  by (auto simp: write_node_def node_size_def intro!: grows_set_node split: option.splits node_kind.splits)

lemma grows_open [growth]: "open_at n s cur cs mode = Inr (f, s') \<Longrightarrow> grows 0 s s'"
proof (induction n s cur cs mode arbitrary: f s' rule: open_at.induct)
  case (1 n s cur cs mode)
  then show ?case
    by (subst (asm) open_at.simps)
      (auto simp: node_size_def new_inode_def intro!: grows_add_node grows_set_node
        split: sum.splits option.splits node_kind.splits if_splits)
qed

lemma grows_mkdir_parts: "grows 0 s (snd (mkdir_parts cur ps mode s))"
proof (induction cur ps mode s rule: mkdir_parts.induct)
  case (2 cur p ps mode s)
  then show ?case
    using grows_0_trans [OF grows_Mkdir] by (auto simp: Let_def split: sum.splits)
qed simp

lemma grows_mkdirAll [growth]: "grows 0 s (snd (mkdirAllNoSymlink d t mode s))"
  by (auto simp: mkdirAllNoSymlink_def Let_def grows_mkdir_parts split: sum.splits)


lemma grows_directory [growth]: "grows 0 s (snd (make_directory hdr t r s))"
  using grows_mkdirAll [of s r t "Perm (hdr_Mode hdr) OR 0x1C0"] grows_0_trans [OF _ grows_Chmod]
  by (auto simp: make_directory_def Let_def split: prod.splits option.splits sum.splits)

lemma grows_unlink [growth]: "grows 0 s (case Remove s p of Inl e \<Rightarrow> s | Inr s' \<Rightarrow> s')"
  by (auto simp: growth split: sum.splits)

lemma grows_extractSymlink [growth]: "grows 0 s (snd (extractSymlink hdr t r s))"
proof -
  obtain e s1 where mk: "mkdirAllNoSymlink r (Dir t) 0x1ED s = (e, s1)" by (meson surj_pair)
  then have g: "grows 0 s s1" using grows_mkdirAll [of s r "Dir t" "0x1ED"] by simp
  have c: "grows 0 s (snd (case os_Symlink x (hdr_Linkname hdr) t of
      Inl e \<Rightarrow> (Some (OsError e), x) | Inr s' \<Rightarrow> (None, s')))" if "grows 0 s1 x" for x
    using grows_0_trans [OF g that] grows_0_trans [OF _ grows_Symlink] by (auto split: sum.splits)
  show ?thesis
    using mk g c [OF grows_unlink, of t] c [OF grows_refl]
    by (auto simp: extractSymlink_def Let_def split: option.split sum.split)
qed

lemma grows_extractHardlink [growth]: "grows 0 s (snd (extractHardlink hdr t r s))"
proof -
  obtain e s1 where mk: "mkdirAllNoSymlink r (Dir t) 0x1ED s = (e, s1)" by (meson surj_pair)
  then have g: "grows 0 s s1" using grows_mkdirAll [of s r "Dir t" "0x1ED"] by simp
  have c: "grows 0 s (snd (case Link x l t of Inl e \<Rightarrow> (Some (OsError e), x) | Inr s' \<Rightarrow> (None, s')))"
    if "grows 0 s1 x" for x l
    using grows_0_trans [OF g that] grows_0_trans [OF _ grows_Link] by (auto split: sum.splits)
  show ?thesis
    using mk g c [OF grows_unlink, of t "Join r (Clean (hdr_Linkname hdr))"]
    by (auto simp: extractHardlink_def Let_def split: option.split sum.split)
qed

locale meter =
  fixes M :: "'m meter_ops" and left :: "'m \<Rightarrow> int" and B :: int
  assumes next_pays: "m_next M e m = NextOk m' \<Longrightarrow> left m' \<le> left m"
    and copy_pays: "m_copy M cs m = (data, ok, m') \<Longrightarrow> int (length data) \<le> left m - left m'"
    and next_floor: "m_next M e m = NextOk m' \<Longrightarrow> int (te_head e) \<le> B \<Longrightarrow> - B \<le> left m'"
    and copy_floor: "m_copy M cs m = (data, ok, m') \<Longrightarrow> \<forall>c \<in> set cs. int (length c) \<le> B \<Longrightarrow>
      - B \<le> left m \<Longrightarrow> - B \<le> left m'"
begin

lemma regular_pays:
  assumes "extractRegularFile M e t r m s = (err, m', s')"
  shows "left m' \<le> left m \<and> grows (nat (left m - left m')) s s'"
proof -
  obtain e1 s1 where mk: "mkdirAllNoSymlink r (Dir t) 0x1ED s = (e1, s1)" by (meson surj_pair)
  then have g: "grows 0 s s1" using grows_mkdirAll [of s r "Dir t" "0x1ED"] by simp
  show ?thesis
  proof (cases "\<exists>f s2. e1 = None \<and> validateNoSymlinkLeaf t s1 = None \<and>
      OpenTrunc s1 t (Perm (hdr_Mode (te_header e)) OR 0x100) = Inr (f, s2)")
    case True
    then obtain f s2 where o: "e1 = None" "validateNoSymlinkLeaf t s1 = None"
      "OpenTrunc s1 t (Perm (hdr_Mode (te_header e)) OR 0x100) = Inr (f, s2)" by blast
    obtain data ok m1 where cp: "m_copy M (te_chunks e) m = (data, ok, m1)" by (metis surj_pair)
    have r: "m' = m1" "s' = write_node f data s2"
      using assms mk o cp by (auto simp: extractRegularFile_def)
    have "grows 0 s s2" using g o(3) grows_0_trans grows_open by (metis OpenTrunc_def)
    then have "grows (length data) s s'" using r(2) grows_0_trans grows_write by blast
    then show ?thesis using copy_pays [OF cp] r(1) by (auto simp: grows_def)
  next
    case False
    then show ?thesis
      using assms mk g by (auto simp: extractRegularFile_def split: option.splits sum.splits)
  qed
qed

lemma entry_pays:
  assumes "extractTarEntry M chown e t r m s = (err, m', s')"
  shows "left m' \<le> left m \<and> grows (nat (left m - left m')) s s'"
proof -
  have fin: "grows k s (SetOverrideStat t a b c (bestEffortLchown chown t a b s1))" if "grows k s s1" for k s1 a b c
    using grows_trans [OF that grows_trans [OF grows_Lchown grows_override]] by simp
  obtain e1 m1 s1 where r: "extractRegularFile M e t r m s = (e1, m1, s1)" by (metis surj_pair)
  show ?thesis
    using assms grows_directory [of s "te_header e" t r] grows_extractSymlink [of s "te_header e" t r]
      grows_extractHardlink [of s "te_header e" t r] regular_pays [OF r] fin r
    by (cases "hdr_Typeflag (te_header e)")
      (auto simp: extractTarEntry_def Let_def split: prod.splits option.splits)
qed

lemma loop_pays:
  "extract_loop M cancelled clean chown dst n es m s = (err, m', s') \<Longrightarrow>
   left m' \<le> left m \<and> grows (nat (left m - left m')) s s'"
proof (induction es arbitrary: n m s)
  case (Cons e es)
  have step: "left m' \<le> left m \<and> grows (nat (left m - left m')) s s'"
    if "left m2 \<le> left m" "grows (nat (left m - left m2)) s s2"
      "left m' \<le> left m2 \<and> grows (nat (left m2 - left m')) s2 s'" for m2 s2
    using that by (auto simp: grows_def)
  show ?case
  proof (cases "\<exists>m1. m_next M e m = NextOk m1 \<and> \<not> cancelled n \<and> \<not> maxExtractEntries < int (n + 1)")
    case True
    then obtain m1 where ok: "m_next M e m = NextOk m1" "\<not> cancelled n" "\<not> maxExtractEntries < int (n + 1)" by blast
    have l: "left m1 \<le> left m" by (rule next_pays [OF ok(1)])
    show ?thesis
    proof (cases "SanitizeTarPath dst (hdr_Name (te_header e))")
      case (Inl p)
      then have "left m' \<le> left m1 \<and> grows (nat (left m1 - left m')) s s'"
        using Cons.prems ok Cons.IH by simp
      then show ?thesis using l by (auto simp: grows_def)
    next
      case (Inr t)
      obtain e1 m2 s1 where r: "extractTarEntry M chown e t dst m1 s = (e1, m2, s1)" by (metis surj_pair)
      have p: "left m2 \<le> left m1" "grows (nat (left m1 - left m2)) s s1" using entry_pays [OF r] by auto
      then have "grows (nat (left m - left m2)) s s1" using l by (auto simp: grows_def)
      note st = step [OF order_trans [OF p(1) l] this]
      show ?thesis
        using Cons.prems ok r Inr st Cons.IH [of "n + 1" m2 s1]
        by (cases e1) (auto split: if_splits)
    qed
  next
    case False
    then show ?thesis using Cons.prems next_pays by (auto split: if_splits next_result.splits)
  qed
qed (auto split: if_splits)

lemma entry_floor:
  assumes "extractTarEntry M chown e t r m s = (err, m', s')"
    and "\<forall>c \<in> set (te_chunks e). int (length c) \<le> B" "- B \<le> left m"
  shows "- B \<le> left m'"
proof -
  obtain data ok m1 where cp: "m_copy M (te_chunks e) m = (data, ok, m1)" by (metis surj_pair)
  have "m' = m \<or> m' = m1"
    using assms(1) cp
    by (cases "hdr_Typeflag (te_header e)")
      (auto simp: extractTarEntry_def Let_def extractRegularFile_def
        split: prod.splits option.splits sum.splits)
  then show ?thesis using copy_floor [OF cp assms(2,3)] assms(3) by blast
qed

lemma loop_floor:
  "extract_loop M cancelled clean chown dst n es m s = (err, m', s') \<Longrightarrow>
   \<forall>e \<in> set es. int (te_head e) \<le> B \<and> (\<forall>c \<in> set (te_chunks e). int (length c) \<le> B) \<Longrightarrow>
   - B \<le> left m \<Longrightarrow> - B \<le> left m'"
proof (induction es arbitrary: n m s)
  case (Cons e es)
  show ?case
  proof (cases "\<exists>m1. m_next M e m = NextOk m1 \<and> \<not> cancelled n \<and> \<not> maxExtractEntries < int (n + 1)")
    case True
    then obtain m1 where ok: "m_next M e m = NextOk m1" "\<not> cancelled n" "\<not> maxExtractEntries < int (n + 1)" by blast
    have l: "- B \<le> left m1" using next_floor [OF ok(1)] Cons.prems(2) by simp
    show ?thesis
    proof (cases "SanitizeTarPath dst (hdr_Name (te_header e))")
      case (Inl p)
      then show ?thesis using Cons.prems ok Cons.IH l by simp
    next
      case (Inr t)
      obtain e1 m2 s1 where r: "extractTarEntry M chown e t dst m1 s = (e1, m2, s1)" by (metis surj_pair)
      have "- B \<le> left m2" using entry_floor [OF r _ l] Cons.prems(2) by simp
      then show ?thesis
        using Cons.prems ok r Inr Cons.IH by (cases e1) (auto split: if_splits)
    qed
  next
    case False
    then show ?thesis using Cons.prems next_floor by (auto split: if_splits next_result.splits)
  qed
qed (auto split: if_splits)

end


interpretation lim: meter limited_reader "max 0" 0
  by unfold_locales (auto simp: limited_reader_def Let_def split: if_splits)

lemma atomic_chunks_pays:
  "atomic_chunks cs n = (data, ok, n') \<Longrightarrow> int (length data) = n - n'"
  by (induction cs n arbitrary: data ok n' rule: atomic_chunks.induct)
    (auto simp: Let_def split: if_splits prod.splits)

lemma atomic_chunks_floor:
  "atomic_chunks cs n = (data, ok, n') \<Longrightarrow> \<forall>c \<in> set cs. int (length c) \<le> B \<Longrightarrow> - B \<le> n \<Longrightarrow> - B \<le> n'"
  by (induction cs n arbitrary: data ok n' rule: atomic_chunks.induct)
    (force simp: Let_def split: if_splits prod.splits)+

interpretation shared: meter atomic_limit_reader "\<lambda>n. n" B for B
  by unfold_locales
    (auto simp: atomic_limit_reader_def atomic_chunks_pays atomic_chunks_floor split: if_splits)



text \<open>
  An extraction against a shared budget pays for every byte it writes: the files grow by at
  most what the counter loses. When no header and no read is larger than \<open>B\<close> bytes, the
  counter is overdrawn by at most \<open>B\<close>, so that the files grow by at most the budget and \<open>B\<close>.
\<close>

theorem extractTarSharedLimit_bounded:
  assumes "fresh_inodes s"
    and "extractTarSharedLimit cancelled clean chown dst es remaining s = (err, remaining', s')"
    and "\<forall>e \<in> set es. int (te_head e) \<le> B \<and> (\<forall>c \<in> set (te_chunks e). int (length c) \<le> B)"
    and "- B \<le> remaining"
  shows "int (fs_size s') \<le> int (fs_size s) + (remaining - remaining') \<and> - B \<le> remaining'"
proof -
  have r: "extract_loop atomic_limit_reader cancelled clean chown dst 0 es remaining s = (err, remaining', s')"
    using assms(2) by (simp add: extractTarSharedLimit_def)
  then have "remaining' \<le> remaining \<and> grows (nat (remaining - remaining')) s s'"
    by (rule shared.loop_pays)
  moreover have "- B \<le> remaining'" by (rule shared.loop_floor [OF r assms(3,4)])
  ultimately show ?thesis using assms(1) by (auto simp: grows_def)
qed

theorem extractTarSharedLimit_bounded_witness:
  "\<exists>err s'. extractTarSharedLimit (\<lambda>_. False) True True ''/dst''
      [entry ''f'' [] TypeReg [7, 8]] 513 host_fs = (err, -1, s') \<and>
    int (fs_size s') \<le> int (fs_size host_fs) + 514"
proof -
  let ?r = "extractTarSharedLimit (\<lambda>_. False) True True ''/dst'' [entry ''f'' [] TypeReg [7, 8]] 513 host_fs"
  have f: "fresh_inodes host_fs" by (auto simp: fresh_inodes_def host_fs_def map_of_Cons_code)
  have "fst (snd ?r) = -1" by code_simp
  then have r: "?r = (fst ?r, -1, snd (snd ?r))" by (metis prod.collapse)
  have "int (fs_size (snd (snd ?r))) \<le> int (fs_size host_fs) + (513 - (-1)) \<and> - 600 \<le> (-1 :: int)"
    by (rule extractTarSharedLimit_bounded [OF f r]) (simp_all add: entry_def)
  then show ?thesis using r by auto
qed

end
