(* ===== verification/Layers.thy ===== *)
theory Layers
  imports Confine
begin

text \<open>
  Composition of image layers: \<^verbatim>\<open>image/whiteout.go\<close> and \<open>applyLayerToDir\<close>,
  \<open>copyFileToDir\<close> and \<open>copyOwnership\<close> of \<^verbatim>\<open>image/pull.go\<close>, with the proof
  that applying a layer changes nothing outside the root directory.
\<close>


section \<open>image/whiteout.go\<close>

definition whiteoutPrefix :: string where "whiteoutPrefix = ''.wh.''"
definition opaqueWhiteout :: string where "opaqueWhiteout = ''.wh..wh..opq''"

definition isWhiteoutFile :: "string \<Rightarrow> bool" where
  "isWhiteoutFile name = HasPrefix (Base name) whiteoutPrefix"

definition isOpaqueWhiteout :: "string \<Rightarrow> bool" where
  "isOpaqueWhiteout name \<longleftrightarrow> Base name = opaqueWhiteout"

text \<open>The only error of \<open>SafeWalk\<close> that wraps \<^verbatim>\<open>fs.ErrNotExist\<close> is a missing parent.\<close>

definition not_exist :: "extract_error \<Rightarrow> bool" where
  "not_exist e = (case e of MissingParent _ \<Rightarrow> True | _ \<Rightarrow> False)"

definition applyWhiteout :: "string \<Rightarrow> string \<Rightarrow> fs \<Rightarrow> extract_error option \<times> fs" where
  "applyWhiteout rootDir name s =
     (let dirPart = Dir name;
          base = Base name;
          targetName = TrimPrefix base whiteoutPrefix;
          relPath = Join dirPart targetName
      in case SafeWalk rootDir relPath s of
           Inl err \<Rightarrow> if not_exist err then (None, s) else (Some err, s)
         | Inr fullPath \<Rightarrow>
             (case RemoveAll s fullPath of
                Inl e \<Rightarrow> (Some (OsError e), s)
              | Inr s' \<Rightarrow> (None, s')))"

fun remove_entries :: "string \<Rightarrow> string list \<Rightarrow> fs \<Rightarrow> extract_error option \<times> fs" where
  "remove_entries fullDir [] s = (None, s)"
| "remove_entries fullDir (n # ns) s =
     (case RemoveAll s (Join fullDir n) of
        Inl e \<Rightarrow> (Some (OsError e), s)
      | Inr s' \<Rightarrow> remove_entries fullDir ns s')"

definition applyOpaqueWhiteout :: "string \<Rightarrow> string \<Rightarrow> fs \<Rightarrow> extract_error option \<times> fs" where
  "applyOpaqueWhiteout rootDir dirPath s =
     (case SafeWalk rootDir dirPath s of
        Inl err \<Rightarrow> if not_exist err then (None, s) else (Some err, s)
      | Inr fullDir \<Rightarrow>
          (case Lstat s fullDir of
             Inl err \<Rightarrow> if err = ENOENT then (None, s) else (Some (StatError err), s)
           | Inr info \<Rightarrow>
               if is_symlink info then (Some (TraverseSymlink dirPath), s)
               else if \<not> is_dir info then (Some (NotADirectory dirPath), s)
               else case ReadDir s fullDir of
                 Inl e \<Rightarrow> (Some (OsError e), s)
               | Inr entries \<Rightarrow> remove_entries fullDir entries s))"

section \<open>image/pull.go: composing layers\<close>

text \<open>
  A cached layer directory as \<^verbatim>\<open>filepath.WalkDir\<close> reads it: the entries of a directory
  in the order of \<^verbatim>\<open>os.ReadDir\<close>. The layer lies outside the destination and does not
  change while it is applied.
\<close>

record layer_info =
  li_perm :: FileMode
  li_uid :: int
  li_gid :: int
  li_override :: "string option"

datatype layer_node =
  LDir layer_info "(string \<times> layer_node) list"
| LFile layer_info bytes
| LLink layer_info string
| LSpecial layer_info

fun node_info :: "layer_node \<Rightarrow> layer_info" where
  "node_info (LDir i _) = i" | "node_info (LFile i _) = i"
| "node_info (LLink i _) = i" | "node_info (LSpecial i) = i"

text \<open>\<^verbatim>\<open>CopyOverrideStat\<close> reads at most 256 bytes and skips an empty value.\<close>

definition CopyOverrideStat :: "string option \<Rightarrow> string \<Rightarrow> fs \<Rightarrow> fs" where
  "CopyOverrideStat v dst s =
     (case v of
        None \<Rightarrow> s
      | Some val \<Rightarrow>
          if val = [] \<or> 256 < length val then s
          else case Lsetxattr s dst val of Inl e \<Rightarrow> s | Inr s' \<Rightarrow> s')"

definition copyOwnership :: "bool \<Rightarrow> layer_info \<Rightarrow> string \<Rightarrow> fs \<Rightarrow> fs" where
  "copyOwnership chown src dst s =
     CopyOverrideStat (li_override src) dst (bestEffortLchown chown dst (li_uid src) (li_gid src) s)"

definition copyFileToDir ::
  "bytes \<Rightarrow> string \<Rightarrow> string \<Rightarrow> FileMode \<Rightarrow> fs \<Rightarrow> extract_error option \<times> fs" where
  "copyFileToDir src target rootDir mode s =
     (case mkdirAllNoSymlink rootDir (Dir target) 0x1ED s of
        (Some e, s) \<Rightarrow> (Some e, s)
      | (None, s) \<Rightarrow>
          (case validateNoSymlinkLeaf target s of
             Some e \<Rightarrow> (Some e, s)
           | None \<Rightarrow>
               (case OpenTrunc s target (mode OR 0x100) of
                  Inl e \<Rightarrow> (Some (OsError e), s)
                | Inr (f, s) \<Rightarrow> (None, write_node f src s))))"

text \<open>A symbolic link of the layer; the parent directory has been created with the entry before.\<close>

definition apply_link :: "string \<Rightarrow> string \<Rightarrow> string \<Rightarrow> fs \<Rightarrow> extract_error option \<times> fs" where
  "apply_link linkTarget target dst s =
     (if symlink_leaves dst target linkTarget then (Some (SymlinkOutside linkTarget), s)
      else let create = (\<lambda>s. case os_Symlink s linkTarget target of
             Inl e \<Rightarrow> (Some (OsError e), s) | Inr s' \<Rightarrow> (None, s'))
        in case Lstat s target of
             Inr existing \<Rightarrow>
               if is_dir existing then (Some (ReplaceDirectory target), s)
               else create (case Remove s target of Inl e \<Rightarrow> s | Inr s' \<Rightarrow> s')
           | Inl _ \<Rightarrow> create s)"

definition apply_dir :: "FileMode \<Rightarrow> string \<Rightarrow> string \<Rightarrow> fs \<Rightarrow> extract_error option \<times> fs" where
  "apply_dir pm target dst s =
     (let mode = pm OR 0x1C0
      in case mkdirAllNoSymlink dst target mode s of
           (Some e, s) \<Rightarrow> (Some e, s)
         | (None, s) \<Rightarrow>
             (case Chmod s target mode of Inl e \<Rightarrow> (Some (OsError e), s) | Inr s' \<Rightarrow> (None, s')))"

text \<open>What the callback of the walk does with one entry; \<open>rel\<close> is its path in the layer.\<close>

definition apply_entry ::
  "bool \<Rightarrow> string \<Rightarrow> string \<Rightarrow> layer_node \<Rightarrow> fs \<Rightarrow> extract_error option \<times> fs" where
  "apply_entry chown dst rel n s =
     (if isWhiteoutFile rel then
        (if isOpaqueWhiteout rel then applyOpaqueWhiteout dst (Dir rel) s else applyWhiteout dst rel s)
      else let target = Join dst rel;
               finish = (\<lambda>(e, s). case e of
                   Some x \<Rightarrow> (Some x, s)
                 | None \<Rightarrow> (None, copyOwnership chown (node_info n) target s))
        in case n of
             LLink _ linkTarget \<Rightarrow> finish (apply_link linkTarget target dst s)
           | LDir i _ \<Rightarrow> finish (apply_dir (li_perm i) target dst s)
           | LFile i data \<Rightarrow> finish (copyFileToDir data target dst (li_perm i) s)
           | LSpecial _ \<Rightarrow> (None, s))"

text \<open>
  The walk: the entry, then, unless a whiteout made the callback skip the directory, its
  contents; \<open>us\<close> are the names on the way to the entry.
\<close>

fun apply_node ::
    "bool \<Rightarrow> string \<Rightarrow> string list \<Rightarrow> layer_node \<Rightarrow> fs \<Rightarrow> extract_error option \<times> fs"
  and apply_nodes ::
    "bool \<Rightarrow> string \<Rightarrow> string list \<Rightarrow> (string \<times> layer_node) list \<Rightarrow> fs \<Rightarrow> extract_error option \<times> fs"
where
  "apply_node chown dst us n s =
     (case apply_entry chown dst (join_with sep us) n s of
        (Some e, s) \<Rightarrow> (Some e, s)
      | (None, s) \<Rightarrow>
          (case n of
             LDir _ es \<Rightarrow>
               if isWhiteoutFile (join_with sep us) then (None, s) else apply_nodes chown dst us es s
           | _ \<Rightarrow> (None, s)))"
| "apply_nodes chown dst us [] s = (None, s)"
| "apply_nodes chown dst us ((c, n) # es) s =
     (case apply_node chown dst (us @ [c]) n s of
        (Some e, s) \<Rightarrow> (Some e, s)
      | (None, s) \<Rightarrow> apply_nodes chown dst us es s)"

declare apply_node.simps [simp del]

definition applyLayerToDir ::
  "bool \<Rightarrow> layer_node \<Rightarrow> string \<Rightarrow> fs \<Rightarrow> extract_error option \<times> fs" where
  "applyLayerToDir chown layer dst s =
     (case layer of LDir _ es \<Rightarrow> apply_nodes chown dst [] es s | _ \<Rightarrow> (None, s))"

section \<open>Relative names\<close>

abbreviation rel_path :: "string list \<Rightarrow> string" where
  "rel_path us \<equiv> (if us = [] then ''.'' else join_with sep us)"

lemma join_names_head:
  assumes "\<forall>c \<in> set us. proper c" "us \<noteq> []"
  shows "join_with sep us \<noteq> []" "\<not> HasPrefix (join_with sep us) ''/''"
proof -
  obtain c cs where us: "us = c # cs" using assms(2) by (cases us) auto
  then obtain x xs where c: "c = x # xs" "x \<noteq> sep" using assms(1) by (cases c) (auto simp: proper_def)
  then have "\<exists>ys. join_with sep us = x # ys" using us by (cases cs) auto
  then show "join_with sep us \<noteq> []" "\<not> HasPrefix (join_with sep us) ''/''"
    using c(2) by (auto simp: HasPrefix_def)
qed

lemma Clean_names:
  assumes "\<forall>c \<in> set us. proper c" "us \<noteq> []"
  shows "Clean (join_with sep us) = join_with sep us"
  using join_names_head [OF assms] assms
  by (simp add: Clean_def IsAbs_def clean_elems_def split_names fold_clean_proper)

lemma Contains_names:
  assumes "\<forall>c \<in> set rc. proper c" "\<forall>c \<in> set us. proper c"
  shows "Contains (abs_path rc) (rel_path us) = Inr (abs_path (rc @ us))"
proof (cases "us = []")
  case True
  have "Clean ''.'' = ''.''" by code_simp
  then show ?thesis
    using True Clean_abs_path [OF assms(1)] by (simp add: Contains_def TrimPrefix_def HasPrefix_def)
next
  case False
  have "Contains (abs_path rc) (abs_path us) = Inr (abs_path (rc @ us))"
    by (rule Contains_abs [OF assms Clean_abs_path [OF assms(2)]])
  moreover have "TrimPrefix (Clean (abs_path us)) ''/'' = TrimPrefix (Clean (join_with sep us)) ''/''"
    using Clean_abs_path [OF assms(2)] Clean_names [OF assms(2) False] join_names_head [OF assms(2) False]
    by (simp add: TrimPrefix_def HasPrefix_def abs_path_def)
  ultimately show ?thesis
    using False by (auto simp: Contains_def Let_def split: sum.splits if_splits)
qed

lemma dropWhile_name: "proper c \<Longrightarrow> dropWhile (\<lambda>x. x \<noteq> sep) (rev c @ xs) = dropWhile (\<lambda>x. x \<noteq> sep) xs"
  by (intro dropWhile_append2) (auto simp: proper_def)

lemma Clean_trailing:
  assumes "\<forall>c \<in> set us. proper c" "us \<noteq> []"
  shows "Clean (join_with sep us @ [sep]) = join_with sep us"
proof -
  have "split_at sep (join_with sep us @ [sep]) = us @ [[]]"
    using split_at_app [of sep "join_with sep us" "[]"] split_names [OF assms] by simp
  moreover have "\<not> HasPrefix (join_with sep us @ [sep]) ''/''"
    using join_names_head [OF assms] by (cases "join_with sep us") (auto simp: HasPrefix_def)
  ultimately show ?thesis
    using assms by (simp add: Clean_def IsAbs_def clean_elems_def fold_clean_proper clean_step_def)
qed

lemma Dir_names:
  assumes "\<forall>c \<in> set us. proper c" "proper c"
  shows "Dir (join_with sep (us @ [c])) = rel_path us"
proof (cases "us = []")
  case True
  have dw: "dropWhile (\<lambda>x. x \<noteq> sep) (rev c) = []" using assms(2) by (auto simp: proper_def)
  have "Dir c = ''.''" unfolding Dir_def dw by code_simp
  then show ?thesis using True by simp
next
  case False
  then show ?thesis
    using dropWhile_name [OF assms(2), of "sep # rev (join_with sep us)"] Clean_trailing [OF assms(1) False]
    by (simp add: Dir_def join_with_append)
qed

lemma Base_names:
  assumes "proper c"
  shows "Base (join_with sep (us @ [c])) = c"
proof -
  obtain ys where j: "join_with sep (us @ [c]) = ys @ c" "ys = [] \<or> last ys = sep"
    by (cases "us = []") (auto simp: join_with_append)
  have "c \<noteq> []" "sep \<notin> set c" using assms by (auto simp: proper_def)
  then have "dropWhile (\<lambda>x. x = sep) (rev (ys @ c)) = rev c @ rev ys"
    by (cases c rule: rev_cases) auto
  moreover have "takeWhile (\<lambda>x. x \<noteq> sep) (rev c @ rev ys) = rev c"
  proof -
    have "takeWhile (\<lambda>x. x \<noteq> sep) (rev c @ rev ys) = rev c @ takeWhile (\<lambda>x. x \<noteq> sep) (rev ys)"
      using \<open>sep \<notin> set c\<close> by (intro takeWhile_append2) auto
    then show ?thesis using j(2) by (cases ys rule: rev_cases) auto
  qed
  ultimately show ?thesis using \<open>c \<noteq> []\<close> j(1) by (simp add: Base_def)
qed

lemma Join_rel_names:
  assumes "\<forall>c \<in> set us. proper c" "proper c"
  shows "Join (rel_path us) c = join_with sep (us @ [c])"
proof (cases "us = []")
  case True
  have "split_at sep c = [c]" "\<not> HasPrefix ([CHR ''.''] @ sep # c) ''/''"
    using assms(2) by (auto simp: proper_def split_at_no_sep HasPrefix_def)
  then have "split_at sep (''.'' @ sep # c) = [''.'', c]" using split_at_app [of sep "''.''" c] by simp
  then show ?thesis
    using True assms(2)
    by (simp add: Join_def Clean_def IsAbs_def HasPrefix_def clean_elems_def clean_step_def proper_def)
next
  case False
  have "\<forall>x \<in> set (us @ [c]). proper x" using assms by simp
  then show ?thesis
    using Clean_names [of "us @ [c]"] False join_names_head [OF assms(1) False]
    by (simp add: Join_def join_with_append)
qed


section \<open>Removal inside\<close>

lemma dir_path_entry:
  "dir_path s R (us @ [c]) = Some d \<Longrightarrow> \<exists>e. dir_path s R us = Some e \<and> entry_of s e c = Some d"
  using dir_path_end [of s R us] by (auto simp: dir_path_snoc entry_of_def split: option.splits if_splits)

text \<open>In a tree, a directory has one path.\<close>

lemma dir_path_inj:
  assumes "confined Out R s0 s" "dir_path s R us = Some d" "dir_path s R ws = Some d"
  shows "us = ws"
  using assms(2,3)
proof (induction us arbitrary: ws d rule: rev_induct)
  case Nil
  then have "d = R" by (simp split: if_splits)
  show ?case
  proof (cases ws rule: rev_cases)
    case (snoc ws' c)
    then obtain e where e: "dir_path s R ws' = Some e" "entry_of s e c = Some R"
      using Nil.prems(2) \<open>d = R\<close> dir_path_entry by blast
    then have "e \<notin> Out" using assms(1) dir_path_inside by (auto simp: confined_def)
    then show ?thesis using e(2) assms(1) tree_insideD(2) [of Out R s e c R] by (simp add: confined_def)
  qed simp
next
  case (snoc c us)
  have t: "tree_inside Out R s" using assms(1) by (simp add: confined_def)
  have out: "e \<notin> Out" if "dir_path s R vs = Some e" for vs e
    using assms(1) that dir_path_inside by (auto simp: confined_def)
  obtain e where e: "dir_path s R us = Some e" "entry_of s e c = Some d"
    using snoc.prems(1) dir_path_entry by blast
  have d: "dir_entries s d \<noteq> None" using dir_path_end [OF snoc.prems(1)] by simp
  show ?case
  proof (cases ws rule: rev_cases)
    case Nil
    then have "d = R" using snoc.prems(2) by (simp split: if_splits)
    then show ?thesis using e(2) out [OF e(1)] tree_insideD(2) [OF t] by blast
  next
    case (snoc ws' c')
    then obtain e' where e': "dir_path s R ws' = Some e'" "entry_of s e' c' = Some d"
      using snoc.prems(2) dir_path_entry by blast
    have "e' = e \<and> c' = c" using tree_insideD(4) [OF t out [OF e(1)] e(2) out [OF e'(1)] d e'(2)] .
    then show ?thesis using snoc.IH e(1) e'(1) snoc by blast
  qed
qed

text \<open>Removing a name from a directory keeps the path to the directory.\<close>

lemma dir_path_delete:
  assumes "confined Out R s0 s" "dir_path s R ws = Some d"
  shows "ws = vs @ zs \<Longrightarrow> dir_path (update_dir d (AList.delete c) s) R vs = dir_path s R vs"
proof (induction vs arbitrary: zs rule: rev_induct)
  case Nil
  then show ?case by simp
next
  case (snoc x vs)
  have IH: "dir_path (update_dir d (AList.delete c) s) R vs = dir_path s R vs"
    using snoc.IH [of "x # zs"] snoc.prems by simp
  show ?case
  proof (cases "dir_path s R vs")
    case None
    then show ?thesis using IH by (simp add: dir_path_snoc)
  next
    case (Some e)
    then have "e \<noteq> d" using dir_path_inj [OF assms(1) _ assms(2)] snoc.prems by auto
    then show ?thesis using IH Some
      by (auto simp: dir_path_snoc dir_entries_update_dir split: option.split)
  qed
qed

lemma RemoveAll_inside:
  assumes "root_stable Out rc R s0" "\<forall>c \<in> set rc. proper c" "confined Out R s0 s"
    and "\<forall>c \<in> set us. proper c" "proper c" "dir_path s R us = Some d"
    and "RemoveAll s (abs_path (rc @ us @ [c])) = Inr s'"
  shows "confined Out R s0 s' \<and> dir_path s' R us = Some d"
proof -
  from name_inside [OF assms(1-6)] obtain es where n: "d \<notin> Out"
    "entry_at s (abs_path (rc @ us @ [c])) = Inr (d, c, map_of es c)" by metis
  then have "s' = s \<or> s' = update_dir d (AList.delete c) s"
    using assms(7) by (auto simp: RemoveAll_def split: option.splits)
  then show ?thesis
    using confined_delete [OF assms(3) n(1)] dir_path_delete [OF assms(3,6), of us "[]"] assms(3,6) by auto
qed

lemma SafeWalk_path:
  assumes "\<forall>c \<in> set rc. proper c" "\<forall>c \<in> set us. proper c" "SafeWalk (abs_path rc) (rel_path us) s = Inr p"
  shows "p = abs_path (rc @ us)"
  using assms(3) Contains_names [OF assms(1,2)]
  by (auto simp: SafeWalk_def SanitizeTarPath_def Let_def simp del: if_not_P
      split: if_splits sum.splits option.splits)

lemma whiteout_inside:
  assumes "root_stable Out rc R s0" "\<forall>c \<in> set rc. proper c" "confined Out R s0 s"
    and "\<forall>c \<in> set us. proper c" "proper c" "proper (TrimPrefix c whiteoutPrefix)" "dir_path s R us = Some d"
    and "applyWhiteout (abs_path rc) (join_with sep (us @ [c])) s = (err, s')"
  shows "confined Out R s0 s' \<and> dir_path s' R us = Some d"
proof -
  let ?x = "TrimPrefix c whiteoutPrefix"
  have p: "Join (Dir (join_with sep (us @ [c]))) (TrimPrefix (Base (join_with sep (us @ [c]))) whiteoutPrefix) =
      rel_path (us @ [?x])"
    using Dir_names [OF assms(4,5)] Base_names [OF assms(5)] Join_rel_names [OF assms(4,6)] by simp
  have us: "\<forall>y \<in> set (us @ [?x]). proper y" using assms(4,6) by auto
  show ?thesis
  proof (cases "SafeWalk (abs_path rc) (rel_path (us @ [?x])) s")
    case (Inl e)
    then show ?thesis using assms(3,7,8) unfolding applyWhiteout_def Let_def p by (auto split: if_splits)
  next
    case (Inr f)
    have "f = abs_path (rc @ us @ [?x])" using SafeWalk_path [OF assms(2) us Inr] .
    then show ?thesis
      using assms(3,7,8) Inr RemoveAll_inside [OF assms(1-4,6,7), of s']
      unfolding applyWhiteout_def Let_def p by (auto split: sum.splits)
  qed
qed

lemma remove_entries_inside:
  assumes "root_stable Out rc R s0" "\<forall>c \<in> set rc. proper c" "\<forall>c \<in> set us. proper c"
  shows "confined Out R s0 s \<Longrightarrow> dir_path s R us = Some d \<Longrightarrow> \<forall>n \<in> set ns. proper n \<Longrightarrow>
    remove_entries (abs_path (rc @ us)) ns s = (err, s') \<Longrightarrow> confined Out R s0 s' \<and> dir_path s' R us = Some d"
proof (induction ns arbitrary: s)
  case (Cons n ns)
  have "\<forall>c \<in> set (rc @ us). proper c" using assms(2,3) by auto
  then have j: "Join (abs_path (rc @ us)) n = abs_path (rc @ us @ [n])"
    using Join_one [of "rc @ us" n] Cons.prems(3) by simp
  show ?case
  proof (cases "RemoveAll s (abs_path (rc @ us @ [n]))")
    case (Inl e)
    then show ?thesis using Cons.prems j by simp
  next
    case (Inr s1)
    have "proper n" using Cons.prems(3) by simp
    note r = RemoveAll_inside [OF assms(1,2) Cons.prems(1) assms(3) this Cons.prems(2) Inr]
    have "remove_entries (abs_path (rc @ us)) ns s1 = (err, s')" using Cons.prems(4) j Inr by simp
    then show ?thesis using Cons.IH [OF r [THEN conjunct1] r [THEN conjunct2]] Cons.prems(3) by simp
  qed
qed simp

lemma opaque_inside:
  assumes "root_stable Out rc R s0" "\<forall>c \<in> set rc. proper c" "confined Out R s0 s"
    and "\<forall>c \<in> set us. proper c" "dir_path s R us = Some d"
    and "applyOpaqueWhiteout (abs_path rc) (rel_path us) s = (err, s')"
  shows "confined Out R s0 s' \<and> dir_path s' R us = Some d"
proof -
  have comp: "components (abs_path (rc @ us)) = rc @ us" using assms(2,4) by (intro components_abs_path) auto
  have names: "\<forall>n \<in> set ns. proper n" if "ReadDir s (abs_path (rc @ us)) = Inr ns" for ns
  proof
    fix n assume "n \<in> set ns"
    obtain es where es: "dir_entries s d = Some es" using dir_path_end [OF assms(5)] by blast
    have "ns = sort (map fst es)"
      using that walk_below_root [OF assms(3,1,5,4)] es by (auto simp: ReadDir_def comp)
    then have "n \<in> fst ` set es" using \<open>n \<in> set ns\<close> by simp
    then obtain i where "map_of es n = Some i" by (metis domD dom_map_of_conv_image_fst)
    then have "entry_of s d n = Some i" using es by (simp add: entry_of_def)
    moreover have "d \<notin> Out" "tree_inside Out R s"
      using assms(3,5) dir_path_inside by (auto simp: confined_def)
    ultimately show "proper n" using tree_insideD(3) by blast
  qed
  show ?thesis
  proof (cases "SafeWalk (abs_path rc) (rel_path us) s")
    case (Inl e)
    then show ?thesis using assms(3,5,6) by (auto simp: applyOpaqueWhiteout_def split: if_splits)
  next
    case (Inr f)
    have f: "f = abs_path (rc @ us)" using SafeWalk_path [OF assms(2,4) Inr] .
    have "s' = s \<or> (\<exists>ns. ReadDir s f = Inr ns \<and> remove_entries f ns s = (err, s'))"
      using assms(6) Inr unfolding applyOpaqueWhiteout_def by (auto split: sum.splits if_splits)
    then show ?thesis
      using assms(3,5) names f remove_entries_inside [OF assms(1,2,4,3,5)] by blast
  qed
qed


section \<open>Applying a layer\<close>

text \<open>
  The names a layer may use: those of directory entries, and for a whiteout, a name to remove
  that is again the name of an entry.
\<close>

definition name_ok :: "string \<Rightarrow> bool" where
  "name_ok c \<longleftrightarrow> proper c \<and>
     (HasPrefix c whiteoutPrefix \<longrightarrow> c \<noteq> opaqueWhiteout \<longrightarrow> proper (TrimPrefix c whiteoutPrefix))"

fun layer_ok :: "layer_node \<Rightarrow> bool" and layers_ok :: "(string \<times> layer_node) list \<Rightarrow> bool" where
  "layer_ok (LDir _ es) = layers_ok es"
| "layer_ok _ = True"
| "layers_ok [] = True"
| "layers_ok ((c, n) # es) = (name_ok c \<and> layer_ok n \<and> layers_ok es)"

lemma ownership_inside:
  assumes "root_stable Out rc R s0" "\<forall>c \<in> set rc. proper c" "confined Out R s0 s"
    and "\<forall>c \<in> set us. proper c" "parents_real s R us"
  shows "confined Out R s0 (copyOwnership chown i (abs_path (rc @ us)) s) \<and>
    keeps_dirs s (copyOwnership chown i (abs_path (rc @ us)) s)"
proof -
  let ?s = "bestEffortLchown chown (abs_path (rc @ us)) (li_uid i) (li_gid i) s"
  have a: "confined Out R s0 ?s" "keeps_dirs s ?s" using chown_inside [OF assms] by auto
  then have p: "parents_real ?s R us" using assms(5) parents_real_keeps by blast
  have "confined Out R s0 (CopyOverrideStat v (abs_path (rc @ us)) ?s) \<and>
      keeps_dirs ?s (CopyOverrideStat v (abs_path (rc @ us)) ?s)" for v
    using a(1) lookup_inside [OF assms(1,2) a(1) assms(4) p] set_attr_inside [OF a(1)]
    by (auto simp: CopyOverrideStat_def Lsetxattr_def split: sum.splits option.splits if_splits)
  then show ?thesis using a(2) keeps_dirs_trans unfolding copyOwnership_def by blast
qed

lemma apply_dir_inside:
  assumes "root_stable Out rc R s0" "\<forall>c \<in> set rc. proper c" "confined Out R s0 s"
    and "\<forall>c \<in> set us. proper c" "apply_dir pm (abs_path (rc @ us)) (abs_path rc) s = (err, s')"
  shows "confined Out R s0 s' \<and> keeps_dirs s s' \<and> (err = None \<longrightarrow> dir_path s' R us \<noteq> None)"
proof -
  let ?t = "abs_path (rc @ us)"
  obtain e1 s1 where mk: "mkdirAllNoSymlink (abs_path rc) ?t (pm OR 0x1C0) s = (e1, s1)" by (meson surj_pair)
  note s1 = mkdirAll_inside [OF assms(1-4) mk]
  have "s' = s1 \<or> confined Out R s0 s' \<and> keeps_dirs s1 s'" if "e1 = None"
    using assms(5) mk that chmod_inside [OF assms(1,2) _ assms(4), of s1] s1
    by (auto simp: apply_dir_def Let_def split: sum.splits)
  moreover have "s' = s1 \<and> err \<noteq> None" if "e1 \<noteq> None"
    using assms(5) mk that by (auto simp: apply_dir_def Let_def)
  ultimately show ?thesis
    using s1 keeps_dirs_trans dir_path_keeps [of s1 s' R us] by (cases "e1 = None") auto
qed

lemma copyFile_inside:
  assumes "root_stable Out rc R s0" "\<forall>c \<in> set rc. proper c" "confined Out R s0 s" "rc \<noteq> []"
    and "\<forall>c \<in> set us. proper c" "copyFileToDir data (abs_path (rc @ us)) (abs_path rc) mode s = (err, s')"
  shows "confined Out R s0 s' \<and> keeps_dirs s s' \<and> (err = None \<longrightarrow> parents_real s' R us)"
proof -
  let ?t = "abs_path (rc @ us)"
  obtain e1 s1 where mk: "mkdirAllNoSymlink (abs_path rc) (Dir ?t) 0x1ED s = (e1, s1)" by (meson surj_pair)
  note s1 = parent_inside [OF assms(1-5) mk]
  show ?thesis
  proof (cases "e1 = None \<and> validateNoSymlinkLeaf ?t s1 = None \<and> (\<exists>r. OpenTrunc s1 ?t (mode OR 0x100) = Inr r)")
    case False
    then show ?thesis
      using assms(6) s1 mk by (auto simp: copyFileToDir_def split: option.splits sum.splits)
  next
    case True
    then obtain f s2 where ok: "e1 = None" "validateNoSymlinkLeaf ?t s1 = None"
      "OpenTrunc s1 ?t (mode OR 0x100) = Inr (f, s2)" by auto
    from s1 ok(1) obtain ws c d where us: "us = ws @ [c]" "dir_path s1 R ws = Some d" by blast
    have p: "\<forall>c \<in> set ws. proper c" "proper c" using assms(5) us(1) by auto
    have s2: "confined Out R s0 s2 \<and> keeps_dirs s1 s2 \<and> f \<notin> Out"
      using open_inside [OF assms(1,2) _ p us(2), where f = f and s' = s2] s1 ok us(1) by auto
    have "s' = write_node f data s2" using assms(6) mk ok by (auto simp: copyFileToDir_def)
    then have w: "confined Out R s0 s'" "keeps_dirs s2 s'" using write_inside [of Out R s0 s2 f data] s2 by auto
    then have k: "keeps_dirs s1 s'" using s2 keeps_dirs_trans by blast
    then show ?thesis
      using w s1 us keeps_dirs_trans parents_real_keeps [OF k, of R us] by (auto simp: parents_real_def)
  qed
qed

lemma apply_link_inside:
  assumes "root_stable Out rc R s0" "\<forall>c \<in> set rc. proper c" "confined Out R s0 s"
    and "\<forall>c \<in> set us. proper c" "proper c" "dir_path s R us = Some d"
    and "apply_link l (abs_path (rc @ us @ [c])) (abs_path rc) s = (err, s')"
  shows "confined Out R s0 s' \<and> keeps_dirs s s'"
proof -
  let ?t = "abs_path (rc @ us @ [c])"
  define rm where "rm = (case Lstat s ?t of Inr info \<Rightarrow> (case Remove s ?t of Inl e \<Rightarrow> s | Inr x \<Rightarrow> x) | Inl err \<Rightarrow> s)"
  show ?thesis
  proof (cases "symlink_leaves (abs_path rc) ?t l \<or> (\<exists>nd. Lstat s ?t = Inr nd \<and> is_dir nd)")
    case True
    then have "s' = s" using assms(7) by (auto simp: apply_link_def Let_def split: if_splits)
    then show ?thesis using assms(3) by simp
  next
    case False
    have r: "confined Out R s0 rm \<and> keeps_dirs s rm"
      using remove_inside [OF assms(1-6)] False assms(3) by (auto simp: rm_def split: sum.splits)
    then obtain d' where d': "dir_path rm R us = Some d'" using dir_path_keeps assms(6) by blast
    have "s' = rm \<or> os_Symlink rm l ?t = Inr s'"
      using assms(7) False
      by (cases "Lstat s ?t"; cases "os_Symlink rm l ?t") (auto simp: apply_link_def Let_def rm_def)
    then have "s' = rm \<or> confined Out R s0 s' \<and> keeps_dirs rm s'"
      using symlink_inside [OF assms(1,2) _ assms(4,5) d', where s' = s'] r by auto
    then show ?thesis using r keeps_dirs_trans by auto
  qed
qed

lemma apply_entry_inside:
  assumes "root_stable Out rc R s0" "\<forall>c \<in> set rc. proper c" "confined Out R s0 s" "rc \<noteq> []"
    and "\<forall>c \<in> set us. proper c" "name_ok c" "dir_path s R us = Some d"
    and "apply_entry chown (abs_path rc) (join_with sep (us @ [c])) n s = (err, s')"
  shows "confined Out R s0 s' \<and> dir_path s' R us \<noteq> None \<and>
    (\<forall>i es. err = None \<longrightarrow> \<not> HasPrefix c whiteoutPrefix \<longrightarrow> n = LDir i es \<longrightarrow> dir_path s' R (us @ [c]) \<noteq> None)"
proof -
  let ?rel = "join_with sep (us @ [c])" and ?t = "abs_path (rc @ us @ [c])"
  have c: "proper c" using assms(6) by (simp add: name_ok_def)
  have us: "\<forall>x \<in> set (us @ [c]). proper x" using assms(5) c by auto
  have b: "Base ?rel = c" "Dir ?rel = rel_path us" by (rule Base_names [OF c], rule Dir_names [OF assms(5) c])
  have t: "Join (abs_path rc) ?rel = ?t" using Join_names [OF assms(2) _ us] by simp
  have real: "parents_real x R (us @ [c]) \<longleftrightarrow> dir_path x R us \<noteq> None" for x by (simp add: parents_real_def)
  have fin: ?thesis
    if e: "confined Out R s0 s1 \<and> keeps_dirs s s1" "e1 = None \<longrightarrow> is_LDir n \<longrightarrow> dir_path s1 R (us @ [c]) \<noteq> None"
      "s' = (case e1 of Some x \<Rightarrow> s1 | None \<Rightarrow> copyOwnership chown (node_info n) ?t s1)" "err = e1"
      "\<And>i es. n = LDir i es \<Longrightarrow> is_LDir n" for e1 s1 is_LDir
  proof -
    have p: "dir_path s1 R us = Some d" using e(1) dir_path_keeps assms(7) by blast
    then have o: "confined Out R s0 (copyOwnership chown (node_info n) ?t s1) \<and>
        keeps_dirs s1 (copyOwnership chown (node_info n) ?t s1)"
      using ownership_inside [OF assms(1,2) _ us] e(1) real by simp
    show ?thesis
      using e p o dir_path_keeps [of s1 s' R] by (cases e1) auto
  qed
  show ?thesis
  proof (cases "HasPrefix c whiteoutPrefix")
    case True
    then have w: "isWhiteoutFile ?rel" by (simp add: isWhiteoutFile_def b)
    show ?thesis
    proof (cases "c = opaqueWhiteout")
      case o: True
      then have "applyOpaqueWhiteout (abs_path rc) (rel_path us) s = (err, s')"
        using assms(8) w unfolding apply_entry_def isOpaqueWhiteout_def b by simp
      then show ?thesis using opaque_inside [OF assms(1-3,5,7)] True by blast
    next
      case False
      then have "applyWhiteout (abs_path rc) ?rel s = (err, s')"
        using assms(8) w by (simp add: apply_entry_def isOpaqueWhiteout_def b)
      moreover have "proper (TrimPrefix c whiteoutPrefix)" using assms(6) True False by (simp add: name_ok_def)
      ultimately show ?thesis using whiteout_inside [OF assms(1-3,5) c _ assms(7)] True by blast
    qed
  next
    case False
    then have w: "\<not> isWhiteoutFile ?rel" by (simp add: isWhiteoutFile_def b)
    show ?thesis
    proof (cases n)
      case (LDir i es)
      obtain e1 s1 where r: "apply_dir (li_perm i) ?t (abs_path rc) s = (e1, s1)" by (meson surj_pair)
      then show ?thesis
        using apply_dir_inside [OF assms(1-3) us r] assms(8) w t LDir
        by (intro fin [of s1 e1 "\<lambda>_. True"]) (auto simp: apply_entry_def split: option.splits)
    next
      case (LFile i data)
      obtain e1 s1 where r: "copyFileToDir data ?t (abs_path rc) (li_perm i) s = (e1, s1)" by (meson surj_pair)
      then show ?thesis
        using copyFile_inside [OF assms(1-4) us r] assms(8) w t LFile
        by (intro fin [of s1 e1 "\<lambda>_. False"]) (auto simp: apply_entry_def split: option.splits)
    next
      case (LLink i l)
      obtain e1 s1 where r: "apply_link l ?t (abs_path rc) s = (e1, s1)" by (meson surj_pair)
      then show ?thesis
        using apply_link_inside [OF assms(1-3,5) c assms(7) r] assms(8) w t LLink
        by (intro fin [of s1 e1 "\<lambda>_. False"]) (auto simp: apply_entry_def split: option.splits)
    next
      case (LSpecial i)
      then show ?thesis using assms(3,7,8) w by (auto simp: apply_entry_def)
    qed
  qed
qed

lemma dir_path_prefix: "dir_path s R (us @ [c]) \<noteq> None \<Longrightarrow> dir_path s R us \<noteq> None"
  by (auto simp: dir_path_snoc split: option.splits)

lemma apply_nodes_inside:
  fixes dst :: string
  assumes "root_stable Out rc R s0" "\<forall>c \<in> set rc. proper c" "rc \<noteq> []"
  shows "dst = abs_path rc \<Longrightarrow> confined Out R s0 s \<Longrightarrow> us \<noteq> [] \<Longrightarrow> \<forall>c \<in> set (butlast us). proper c \<Longrightarrow>
      name_ok (last us) \<Longrightarrow> layer_ok n \<Longrightarrow> dir_path s R (butlast us) \<noteq> None \<Longrightarrow>
      apply_node chown dst us n s = (err, s') \<Longrightarrow> confined Out R s0 s' \<and> dir_path s' R (butlast us) \<noteq> None"
    and "dst = abs_path rc \<Longrightarrow> confined Out R s0 s \<Longrightarrow> \<forall>c \<in> set us. proper c \<Longrightarrow>
      layers_ok es \<Longrightarrow> dir_path s R us \<noteq> None \<Longrightarrow>
      apply_nodes chown dst us es s = (err, s') \<Longrightarrow> confined Out R s0 s' \<and> dir_path s' R us \<noteq> None"
proof (induction chown dst us n s and chown dst us es s arbitrary: err s' and err s'
    rule: apply_node_apply_nodes.induct)
  case (1 chown dst us n s)
  obtain ws c where us: "us = ws @ [c]" using 1(4) by (meson rev_exhaust)
  obtain d where d: "dir_path s R ws = Some d" using 1(8) us by auto
  have c: "name_ok c" "proper c" "\<forall>c \<in> set ws. proper c" using 1(5,6) us by (auto simp: name_ok_def)
  obtain e1 s1 where r: "apply_entry chown (abs_path rc) (join_with sep (ws @ [c])) n s = (e1, s1)"
    by (meson surj_pair)
  note e = apply_entry_inside [OF assms(1,2) 1(3) assms(3) c(3,1) d r]
  have w: "isWhiteoutFile (join_with sep us) = HasPrefix c whiteoutPrefix"
    using Base_names [OF c(2)] us by (simp add: isWhiteoutFile_def)
  show ?case
  proof (cases "\<exists>i es. e1 = None \<and> n = LDir i es \<and> \<not> HasPrefix c whiteoutPrefix")
    case False
    then have "s' = s1"
      using 1(9) 1(2) r us w by (auto simp: apply_node.simps split: option.splits layer_node.splits)
    then show ?thesis using e us by simp
  next
    case True
    then obtain i es where t: "e1 = None" "n = LDir i es" "\<not> HasPrefix c whiteoutPrefix" by blast
    have r1: "apply_entry chown dst (join_with sep us) n s = (None, s1)" using r 1(2) us t(1) by simp
    have an: "apply_nodes chown dst us es s1 = (err, s')"
      using 1(9) r1 t w by (simp add: apply_node.simps)
    have dp: "dir_path s1 R us \<noteq> None" using e t us by blast
    have ok: "layers_ok es" "\<forall>c \<in> set us. proper c" "\<not> isWhiteoutFile (join_with sep us)"
      using 1(7) t c us w by auto
    have "confined Out R s0 s' \<and> dir_path s' R us \<noteq> None"
      by (rule 1(1) [OF r1 [symmetric] refl t(2) ok(3) 1(2) e [THEN conjunct1] ok(2,1) dp an])
    then show ?thesis unfolding us butlast_snoc using dir_path_prefix by blast
  qed
next
  case (2 chown dst us s)
  then show ?case by simp
next
  case (3 chown dst us c n es s)
  obtain e1 s1 where r: "apply_node chown dst (us @ [c]) n s = (e1, s1)" by (meson surj_pair)
  have ok: "name_ok c" "layer_ok n" "layers_ok es" using 3(6) by simp_all
  have s1: "confined Out R s0 s1 \<and> dir_path s1 R us \<noteq> None"
    using 3(1) [OF 3(3,4) _ _ _ ok(2) _ r] 3(5,7) ok(1) by simp
  show ?case
  proof (cases e1)
    case None
    have "apply_nodes chown dst us es s1 = (err, s')" using 3(8) r None by simp
    then show ?thesis
      using 3(2) [OF r [symmetric] None 3(3) s1 [THEN conjunct1] 3(5) ok(3) s1 [THEN conjunct2]] by blast
  next
    case (Some e)
    then have "s' = s1" using 3(8) r by simp
    then show ?thesis using s1 by simp
  qed
qed


section \<open>Properties of layers\<close>

text \<open>
  C20. Applying a layer changes nothing outside the root directory, whatever directories, files,
  links and whiteouts it has and whether or not it ends in an error, provided every whiteout
  names an entry to remove.
\<close>

theorem applyLayerToDir_confined:
  assumes "destination Out rc R s" "layer_ok layer" "i \<in> Out"
  shows "nodes (snd (applyLayerToDir chown layer (abs_path rc) s)) i = nodes s i"
proof -
  have d: "root_stable Out rc R s" "\<forall>c \<in> set rc. proper c" "rc \<noteq> []" "confined Out R s s"
    using assms(1) by (simp_all add: destination_def)
  have R: "dir_path s R [] \<noteq> None" using d(4) by (simp add: confined_def)
  have "confined Out R s (snd (applyLayerToDir chown layer (abs_path rc) s))"
  proof (cases layer)
    case (LDir x es)
    obtain e s' where r: "apply_nodes chown (abs_path rc) [] es s = (e, s')" by (meson surj_pair)
    have "layers_ok es" using assms(2) LDir by simp
    then have "confined Out R s s'"
      using apply_nodes_inside(2) [OF d(1-3) refl d(4) _ _ R r] by simp
    then show ?thesis using r LDir by (simp add: applyLayerToDir_def)
  qed (use d(4) in \<open>simp_all add: applyLayerToDir_def\<close>)
  then show ?thesis using assms(3) by (simp add: confined_def same_outside_def)
qed

definition plain_info :: layer_info where
  "plain_info = \<lparr>li_perm = 0x1A4, li_uid = 0, li_gid = 0, li_override = None\<rparr>"

theorem applyLayerToDir_confined_witness:
  "nodes (snd (applyLayerToDir False
     (LDir plain_info [(''.wh.old'', LFile plain_info []), (''a'', LLink plain_info ''/''),
        (''b'', LDir plain_info [(''.wh..wh..opq'', LFile plain_info []), (''f'', LFile plain_info [7])])])
     (abs_path [''dst'']) host_fs)) 1 = nodes host_fs 1"
proof -
  have "name_ok ''.wh.old'' \<and> name_ok ''a'' \<and> name_ok ''b'' \<and> name_ok ''.wh..wh..opq'' \<and> name_ok ''f''"
    by code_simp
  then show ?thesis using applyLayerToDir_confined [OF host_destination, of _ 1] by simp
qed

text \<open>
  The condition on whiteouts is needed: a layer with an entry named
  \<^verbatim>\<open>.wh.\<close> removes the root directory from its parent.
\<close>

theorem empty_whiteout_removes_root:
  "case applyLayerToDir False (LDir plain_info [(''.wh.'', LFile plain_info [])]) ''/dst'' host_fs of
   (err, s') \<Rightarrow> err = None \<and> lookup_l host_fs ''/dst'' = Inr 2 \<and> lookup_l s' ''/dst'' = Inl ENOENT"
  by code_simp

text \<open>
  An opaque whiteout also removes entries of its own layer: those whose names sort before
  it, such as dot files, are gone after the layer has been applied.
\<close>

theorem opaque_whiteout_removes_own_layer:
  "case applyLayerToDir False
      (LDir plain_info [(''h'', LDir plain_info [(''.a'', LFile plain_info [7]),
         (''.wh..wh..opq'', LFile plain_info []), (''b'', LFile plain_info [8])])]) ''/dst'' host_fs of
   (err, s') \<Rightarrow> err = None \<and> lookup_l s' ''/dst/h/.a'' = Inl ENOENT \<and>
     (\<exists>nd. Lstat s' ''/dst/h/b'' = Inr nd \<and> kind nd = File [8])"
proof -
  have "case applyLayerToDir False
      (LDir plain_info [(''h'', LDir plain_info [(''.a'', LFile plain_info [7]),
         (''.wh..wh..opq'', LFile plain_info []), (''b'', LFile plain_info [8])])]) ''/dst'' host_fs of
     (err, s') \<Rightarrow> err = None \<and> lookup_l s' ''/dst/h/.a'' = Inl ENOENT \<and>
       (case Lstat s' ''/dst/h/b'' of Inl _ \<Rightarrow> False | Inr nd \<Rightarrow> kind nd = File [8])"
    by code_simp
  then show ?thesis by (auto split: prod.splits sum.splits)
qed

end
