(* ===== verification/Cache.thy ===== *)
theory Cache
  imports GoPath "HOL-Library.AList"
begin

text \<open>
  The image caches: \<^verbatim>\<open>image/cache.go\<close> and \<^verbatim>\<open>image/layer_cache.go\<close>. A cache is the
  contents of its directory, name by name; \<open>None\<close> is a directory that does not exist yet. The
  clock is an argument. \<open>can_remove\<close> says which removals succeed.
\<close>

section \<open>Strings\<close>

fun contains_str :: "string \<Rightarrow> string \<Rightarrow> bool" where
  "contains_str p [] = (p = [])"
| "contains_str p (c # cs) = (HasPrefix (c # cs) p \<or> contains_str p cs)"

text \<open>\<^verbatim>\<open>strings.Replace(s, a, b, 1)\<close> for single characters.\<close>

fun replace_first :: "char \<Rightarrow> char \<Rightarrow> string \<Rightarrow> string" where
  "replace_first a b [] = []"
| "replace_first a b (c # cs) = (if c = a then b # cs else c # replace_first a b cs)"

section \<open>The directories\<close>

record OCIConfig =
  Entrypoint :: "string list"
  Cmd :: "string list"
  Env :: "string list"
  WorkingDir :: string
  User :: string

text \<open>
  An entry: a file, or a directory with an extracted tree and the stored configuration file.
  A directory without either is empty.
\<close>

datatype 'r body = PlainFile | RootDir "'r option" "string option"

record 'r item =
  it_body :: "'r body"
  it_mtime :: int

definition is_dir_item :: "'r item \<Rightarrow> bool" where
  "is_dir_item i = (case it_body i of PlainFile \<Rightarrow> False | RootDir _ _ \<Rightarrow> True)"

definition is_empty_item :: "'r item \<Rightarrow> bool" where
  "is_empty_item i = (case it_body i of RootDir None None \<Rightarrow> True | _ \<Rightarrow> False)"

type_synonym 'r dir = "(string \<times> 'r item) list"

text \<open>The directories \<^verbatim>\<open>refs\<close> and \<^verbatim>\<open>layers\<close> are kept apart, with their times.\<close>

record 'r cachefs =
  entries :: "'r dir"
  refs :: "((string \<times> string) list \<times> int) option"
  layers :: "('r dir \<times> int) option"

type_synonym 'r cache = "'r cachefs option"

definition no_cachefs :: "'r cachefs" where
  "no_cachefs = \<lparr>entries = [], refs = None, layers = None\<rparr>"

text \<open>\<^verbatim>\<open>os.MkdirAll\<close> of the cache directory.\<close>

definition made :: "'r cache \<Rightarrow> 'r cachefs" where
  "made c = (case c of None \<Rightarrow> no_cachefs | Some d \<Rightarrow> d)"

text \<open>
  \<^verbatim>\<open>os.Rename\<close> of one entry over another name. \<open>replaces\<close>: the system replaces an empty
  directory (Linux), or refuses (Darwin).
\<close>

definition rename_entry :: "bool \<Rightarrow> string \<Rightarrow> string \<Rightarrow> 'r dir \<Rightarrow> 'r dir option" where
  "rename_entry replaces src dst es =
     (case map_of es src of
        None \<Rightarrow> None
      | Some i \<Rightarrow>
          (case map_of es dst of
             None \<Rightarrow> Some (AList.update dst i (AList.delete src es))
           | Some d \<Rightarrow>
               if replaces \<and> is_empty_item d then Some (AList.update dst i (AList.delete src es))
               else None))"

definition removeIfEmptyDir :: "string \<Rightarrow> 'r dir \<Rightarrow> bool \<times> 'r dir" where
  "removeIfEmptyDir name es =
     (case map_of es name of
        Some i \<Rightarrow> if is_empty_item i then (True, AList.delete name es) else (False, es)
      | None \<Rightarrow> (False, es))"

text \<open>The entries that are at least as young as the cutoff, and how many others are removed.\<close>

definition evict_dir :: "(string \<Rightarrow> bool) \<Rightarrow> int \<Rightarrow> 'r dir \<Rightarrow> nat \<times> 'r dir" where
  "evict_dir can_remove cutoff es =
     (let old = (\<lambda>(n, i). it_mtime i < cutoff \<and> can_remove n)
      in (length (filter old es), filter (\<lambda>e. \<not> old e) es))"

section \<open>image/layer_cache.go\<close>

text \<open>A layer cache is the directory \<^verbatim>\<open>layers\<close>, if it exists, with its time.\<close>

type_synonym 'r layer_cache = "('r dir \<times> int) option"

record Hash =
  Algorithm :: string
  Hex :: string

definition layer_name :: "Hash \<Rightarrow> string" where
  "layer_name diffID = Algorithm diffID @ ''-'' @ Hex diffID"

definition layer_pathFor :: "string \<Rightarrow> Hash \<Rightarrow> string" where
  "layer_pathFor baseDir diffID = Join baseDir (layer_name diffID)"

definition layer_Get :: "string \<Rightarrow> Hash \<Rightarrow> int \<Rightarrow> 'r layer_cache \<Rightarrow> string option \<times> 'r layer_cache" where
  "layer_Get baseDir diffID now lc =
     (case lc of
        None \<Rightarrow> (None, lc)
      | Some (es, t) \<Rightarrow>
          (case map_of es (layer_name diffID) of
             None \<Rightarrow> (None, lc)
           | Some i \<Rightarrow>
               if \<not> is_dir_item i then (None, lc)
               else (Some (layer_pathFor baseDir diffID),
                     Some (AList.update (layer_name diffID) (i\<lparr>it_mtime := now\<rparr>) es, t))))"

definition layer_Has :: "string \<Rightarrow> Hash \<Rightarrow> int \<Rightarrow> 'r layer_cache \<Rightarrow> bool \<times> 'r layer_cache" where
  "layer_Has baseDir diffID now lc = (case layer_Get baseDir diffID now lc of (p, lc) \<Rightarrow> (p \<noteq> None, lc))"

definition layer_made :: "int \<Rightarrow> 'r layer_cache \<Rightarrow> 'r dir \<times> int" where
  "layer_made now lc = (case lc of None \<Rightarrow> ([], now) | Some x \<Rightarrow> x)"

definition layer_Put :: "bool \<Rightarrow> Hash \<Rightarrow> string \<Rightarrow> int \<Rightarrow> 'r layer_cache \<Rightarrow> bool \<times> 'r layer_cache" where
  "layer_Put replaces diffID tempDir now lc =
     (case layer_made now lc of
        (es, t) \<Rightarrow>
          if map_of es (layer_name diffID) \<noteq> None then (True, Some (AList.delete tempDir es, now))
          else case rename_entry replaces tempDir (layer_name diffID) es of
            None \<Rightarrow> (False, Some (es, t))
          | Some es' \<Rightarrow> (True, Some (es', now)))"

text \<open>\<open>tmp\<close> is the unused name that \<^verbatim>\<open>os.MkdirTemp\<close> picks.\<close>

definition layer_TempDir :: "string \<Rightarrow> int \<Rightarrow> 'r layer_cache \<Rightarrow> 'r layer_cache" where
  "layer_TempDir tmp now lc =
     (case layer_made now lc of
        (es, t) \<Rightarrow> Some (AList.update tmp \<lparr>it_body = RootDir None None, it_mtime = now\<rparr> es, now))"

definition layer_Evict ::
  "(string \<Rightarrow> bool) \<Rightarrow> int \<Rightarrow> int \<Rightarrow> 'r layer_cache \<Rightarrow> nat \<times> 'r layer_cache" where
  "layer_Evict can_remove now maxAge lc =
     (case lc of
        None \<Rightarrow> (0, None)
      | Some (es, t) \<Rightarrow>
          (case evict_dir can_remove (now - maxAge) es of
             (n, es') \<Rightarrow> (n, Some (es', if n = 0 then t else now))))"

text \<open>\<open>tree_size\<close> is the size of the files in an entry.\<close>

definition layer_Size :: "('r item \<Rightarrow> int) \<Rightarrow> 'r layer_cache \<Rightarrow> int" where
  "layer_Size tree_size lc =
     (case lc of None \<Rightarrow> 0 | Some (es, _) \<Rightarrow> sum_list (map (\<lambda>(n, i). tree_size i) es))"

section \<open>image/cache.go: entries\<close>

definition entry_name :: "string \<Rightarrow> string" where
  "entry_name digest =
     (if CHR ''/'' \<in> set digest \<or> CHR 0x5C \<in> set digest \<or> contains_str ''..'' digest
      then ''invalid-digest''
      else replace_first (CHR '':'') (CHR ''-'') digest)"

definition pathFor :: "string \<Rightarrow> string \<Rightarrow> string" where
  "pathFor baseDir digest = Join baseDir (entry_name digest)"

definition isRootfsEntry :: "string \<Rightarrow> bool" where
  "isRootfsEntry name = HasPrefix name ''sha256-''"

definition dirNameToDigest :: "string \<Rightarrow> string" where
  "dirNameToDigest name = replace_first (CHR ''-'') (CHR '':'') name"

text \<open>
  Names that do not name an entry: the empty name and the dot are the cache directory itself,
  \<^verbatim>\<open>refs\<close> and \<^verbatim>\<open>layers\<close> the two directories beside the entries.
\<close>

definition special_dir :: "string \<Rightarrow> 'r cachefs \<Rightarrow> bool option" where
  "special_dir name d =
     (if name = [] \<or> name = ''.'' then Some True
      else if name = ''refs'' then Some (refs d \<noteq> None)
      else if name = ''layers'' then Some (layers d \<noteq> None)
      else None)"

definition cache_Get :: "string \<Rightarrow> string \<Rightarrow> int \<Rightarrow> 'r cache \<Rightarrow> string option \<times> 'r cache" where
  "cache_Get baseDir digest now c =
     (case c of
        None \<Rightarrow> (None, c)
      | Some d \<Rightarrow>
          (case special_dir (entry_name digest) d of
             Some present \<Rightarrow> (if present then Some (pathFor baseDir digest) else None, c)
           | None \<Rightarrow>
               (case map_of (entries d) (entry_name digest) of
                  None \<Rightarrow> (None, c)
                | Some i \<Rightarrow>
                    if \<not> is_dir_item i then (None, c)
                    else (Some (pathFor baseDir digest),
                          Some (d\<lparr>entries := AList.update (entry_name digest) (i\<lparr>it_mtime := now\<rparr>) (entries d)\<rparr>)))))"

definition cache_Has :: "string \<Rightarrow> string \<Rightarrow> int \<Rightarrow> 'r cache \<Rightarrow> bool \<times> 'r cache" where
  "cache_Has baseDir digest now c = (case cache_Get baseDir digest now c of (p, c) \<Rightarrow> (p \<noteq> None, c))"

text \<open>
  \<open>src\<close> is an entry of the cache directory, as \<open>TempDir\<close> makes it. A special directory is never
  empty here, since the source lies beside or below it.
\<close>

definition cache_Put :: "bool \<Rightarrow> string \<Rightarrow> string \<Rightarrow> 'r cache \<Rightarrow> bool \<times> 'r cache" where
  "cache_Put replaces digest src c =
     (let d = made c; dst = entry_name digest; es = entries d
      in case special_dir dst d of
           Some True \<Rightarrow> (True, Some (d\<lparr>entries := AList.delete src es\<rparr>))
         | Some False \<Rightarrow> (False, Some d)
         | None \<Rightarrow>
             (case rename_entry replaces src dst es of
                Some es' \<Rightarrow> (True, Some (d\<lparr>entries := es'\<rparr>))
              | None \<Rightarrow>
                  (case removeIfEmptyDir dst es of
                     (removed, es1) \<Rightarrow>
                       (case (if removed then rename_entry replaces src dst es1 else None) of
                          Some es' \<Rightarrow> (True, Some (d\<lparr>entries := es'\<rparr>))
                        | None \<Rightarrow>
                            (case map_of es1 dst of
                               Some i \<Rightarrow>
                                 if is_dir_item i then (True, Some (d\<lparr>entries := AList.delete src es1\<rparr>))
                                 else (False, Some (d\<lparr>entries := es1\<rparr>))
                             | None \<Rightarrow> (False, Some (d\<lparr>entries := es1\<rparr>)))))))"

definition cache_TempDir :: "string \<Rightarrow> int \<Rightarrow> 'r cache \<Rightarrow> 'r cache" where
  "cache_TempDir tmp now c =
     Some ((made c)\<lparr>entries := AList.update tmp \<lparr>it_body = RootDir None None, it_mtime = now\<rparr> (entries (made c))\<rparr>)"

text \<open>Every entry of the directory is examined, \<^verbatim>\<open>refs\<close> and \<^verbatim>\<open>layers\<close> included.\<close>

definition Evict :: "(string \<Rightarrow> bool) \<Rightarrow> int \<Rightarrow> int \<Rightarrow> 'r cache \<Rightarrow> nat \<times> 'r cache" where
  "Evict can_remove now maxAge c =
     (case c of
        None \<Rightarrow> (0, None)
      | Some d \<Rightarrow>
          let cutoff = now - maxAge;
              gone = (\<lambda>name x. case x of None \<Rightarrow> False | Some t \<Rightarrow> t < cutoff \<and> can_remove name);
              (n, es) = evict_dir can_remove cutoff (entries d);
              r = gone ''refs'' (map_option snd (refs d));
              l = gone ''layers'' (map_option snd (layers d));
              (k, ls) = layer_Evict can_remove now maxAge (if l then None else layers d)
          in (n + of_bool r + of_bool l + k,
              Some \<lparr>entries = es, refs = (if r then None else refs d), layers = ls\<rparr>))"

definition Purge :: "'r cache \<Rightarrow> 'r cache" where
  "Purge c = None"

section \<open>image/cache.go: the index of references\<close>

definition parseRefFile :: "string \<Rightarrow> string \<times> string" where
  "parseRefFile data =
     (let content = TrimSpace data
      in if content = [] then ([], [])
         else case cut_at (CHR 0x09) content of
           Some (imageRef, digest) \<Rightarrow> (imageRef, digest)
         | None \<Rightarrow> ([], content))"

text \<open>\<open>readable\<close>: the directory can be read; \<open>Inl\<close> is the error of \<open>liveDigests\<close>.\<close>

definition liveDigests :: "bool \<Rightarrow> 'r cachefs \<Rightarrow> unit + string list" where
  "liveDigests readable d =
     (case refs d of
        None \<Rightarrow> Inr []
      | Some (fs, _) \<Rightarrow>
          if \<not> readable then Inl ()
          else Inr (filter (\<lambda>x. x \<noteq> []) (map (\<lambda>(n, data). snd (parseRefFile data)) fs)))"

definition GC :: "(string \<Rightarrow> bool) \<Rightarrow> bool \<Rightarrow> 'r cache \<Rightarrow> (unit + nat) \<times> 'r cache" where
  "GC can_remove readable c =
     (case c of
        None \<Rightarrow> (Inr 0, None)
      | Some d \<Rightarrow>
          (case liveDigests readable d of
             Inl e \<Rightarrow> (Inl e, c)
           | Inr live \<Rightarrow>
               let dead = (\<lambda>(n, i). isRootfsEntry n \<and> dirNameToDigest n \<notin> set live \<and> can_remove n)
               in (Inr (length (filter dead (entries d))),
                   Some (d\<lparr>entries := filter (\<lambda>e. \<not> dead e) (entries d)\<rparr>))))"

definition add_ref :: "string \<times> string \<Rightarrow> (string \<times> string list) list \<Rightarrow> (string \<times> string list) list" where
  "add_ref f m =
     (case parseRefFile (snd f) of
        (imageRef, digest) \<Rightarrow>
          if digest = [] then m
          else if imageRef \<noteq> [] then
            AList.update digest ((case map_of m digest of None \<Rightarrow> [] | Some rs \<Rightarrow> rs) @ [imageRef]) m
          else if map_of m digest = None then AList.update digest [''(unknown image)''] m
          else m)"

definition buildRefMap :: "bool \<Rightarrow> 'r cachefs \<Rightarrow> (string \<times> string list) list" where
  "buildRefMap readable d =
     (case refs d of None \<Rightarrow> [] | Some (fs, _) \<Rightarrow> if readable then fold add_ref fs [] else [])"

record CacheEntry =
  ce_Digest :: string
  ce_Path :: string
  ce_Size :: int
  ce_ModTime :: int
  ce_Refs :: "string list"

definition cache_List :: "('r item \<Rightarrow> int) \<Rightarrow> bool \<Rightarrow> string \<Rightarrow> 'r cache \<Rightarrow> CacheEntry list" where
  "cache_List tree_size readable baseDir c =
     (case c of
        None \<Rightarrow> []
      | Some d \<Rightarrow>
          let refMap = buildRefMap readable d
          in map (\<lambda>(n, i). \<lparr>ce_Digest = dirNameToDigest n, ce_Path = Join baseDir n, ce_Size = tree_size i,
                ce_ModTime = it_mtime i,
                ce_Refs = (case map_of refMap (dirNameToDigest n) of None \<Rightarrow> [] | Some rs \<Rightarrow> rs)\<rparr>)
              (filter (\<lambda>(n, i). isRootfsEntry n) (entries d)))"

text \<open>
  \<open>hash\<close> is the file name of a reference, \<^verbatim>\<open>hex(sha256(ref))\<close>; \<open>enc\<close> and \<open>dec\<close> are
  \<^verbatim>\<open>json.Marshal\<close> and \<^verbatim>\<open>json.Unmarshal\<close> of a configuration. Configurations are
  kept with entries only, not with the special directories.
\<close>

definition getRef :: "(string \<Rightarrow> string) \<Rightarrow> string \<Rightarrow> 'r cache \<Rightarrow> string option" where
  "getRef hash imageRef c =
     (case c of
        None \<Rightarrow> None
      | Some d \<Rightarrow>
          (case refs d of
             None \<Rightarrow> None
           | Some (fs, _) \<Rightarrow>
               (case map_of fs (hash imageRef) of
                  None \<Rightarrow> None
                | Some data \<Rightarrow>
                    let digest = snd (parseRefFile data) in if digest = [] then None else Some digest)))"

definition putRef :: "(string \<Rightarrow> string) \<Rightarrow> string \<Rightarrow> string \<Rightarrow> int \<Rightarrow> 'r cache \<Rightarrow> 'r cache" where
  "putRef hash imageRef digest now c =
     (let d = made c;
          (fs, t) = (case refs d of None \<Rightarrow> ([], now) | Some x \<Rightarrow> x);
          t' = (if map_of fs (hash imageRef) = None then now else t)
      in Some (d\<lparr>refs := Some (AList.update (hash imageRef) (imageRef @ [CHR 0x09] @ digest @ [CHR 0x0A]) fs, t')\<rparr>))"

definition getConfig :: "(string \<Rightarrow> OCIConfig option) \<Rightarrow> string \<Rightarrow> 'r cache \<Rightarrow> OCIConfig option" where
  "getConfig dec digest c =
     (case c of
        None \<Rightarrow> None
      | Some d \<Rightarrow>
          (case map_of (entries d) (entry_name digest) of
             None \<Rightarrow> None
           | Some i \<Rightarrow> (case it_body i of RootDir _ (Some data) \<Rightarrow> dec data | _ \<Rightarrow> None)))"

definition putConfig ::
  "(OCIConfig \<Rightarrow> string) \<Rightarrow> string \<Rightarrow> OCIConfig option \<Rightarrow> int \<Rightarrow> 'r cache \<Rightarrow> 'r cache" where
  "putConfig enc digest cfg now c =
     (case (c, cfg) of
        (Some d, Some g) \<Rightarrow>
          (case map_of (entries d) (entry_name digest) of
             None \<Rightarrow> c
           | Some i \<Rightarrow>
               (case it_body i of
                  PlainFile \<Rightarrow> c
                | RootDir t old \<Rightarrow>
                    Some (d\<lparr>entries := AList.update (entry_name digest)
                      \<lparr>it_body = RootDir t (Some (enc g)),
                       it_mtime = (if old = None then now else it_mtime i)\<rparr> (entries d)\<rparr>)))
      | _ \<Rightarrow> c)"

record RootFS =
  rf_Path :: string
  rf_Config :: "OCIConfig option"
  FromCache :: bool

definition LookupRef ::
  "(string \<Rightarrow> string) \<Rightarrow> (string \<Rightarrow> OCIConfig option) \<Rightarrow> string \<Rightarrow> string \<Rightarrow> int \<Rightarrow> 'r cache \<Rightarrow>
   RootFS option \<times> 'r cache" where
  "LookupRef hash dec baseDir imageRef now c =
     (case getRef hash imageRef c of
        None \<Rightarrow> (None, c)
      | Some digest \<Rightarrow>
          let c = putRef hash imageRef digest now c
          in case cache_Get baseDir digest now c of
               (None, c) \<Rightarrow> (None, c)
             | (Some rootfsPath, c) \<Rightarrow>
                 (case getConfig dec digest c of
                    None \<Rightarrow> (None, c)
                  | Some cfg \<Rightarrow> (Some \<lparr>rf_Path = rootfsPath, rf_Config = Some cfg, FromCache = True\<rparr>, c)))"

definition StoreRef ::
  "(string \<Rightarrow> string) \<Rightarrow> (OCIConfig \<Rightarrow> string) \<Rightarrow> string \<Rightarrow> string \<Rightarrow> OCIConfig option \<Rightarrow> int \<Rightarrow>
   'r cache \<Rightarrow> 'r cache" where
  "StoreRef hash enc imageRef digest cfg now c =
     putConfig enc digest cfg now (putRef hash imageRef digest now c)"

section \<open>Names and references\<close>

lemma replace_first_none: "a \<notin> set s \<Longrightarrow> replace_first a b s = s"
  by (induction s) auto

lemma replace_first_app: "a \<notin> set s \<Longrightarrow> replace_first a b (s @ a # t) = s @ b # t"
  by (induction s) auto

text \<open>A digest of an image: an algorithm and hexadecimal digits.\<close>

definition hex_digits :: "char set" where
  "hex_digits = set ''0123456789abcdef''"

definition digest_ok :: "string \<Rightarrow> bool" where
  "digest_ok digest \<longleftrightarrow> HasPrefix digest ''sha256:'' \<and> digest \<noteq> ''sha256:'' \<and> set (drop 7 digest) \<subseteq> hex_digits"

lemma digest_cases:
  assumes "digest_ok digest"
  obtains h where "digest = ''sha256:'' @ h" "h \<noteq> []" "set h \<subseteq> hex_digits"
proof (rule that)
  obtain t where t: "digest = ''sha256:'' @ t" using assms by (auto simp: digest_ok_def HasPrefix_iff)
  then show "digest = ''sha256:'' @ drop 7 digest" by simp
  show "drop 7 digest \<noteq> []" "set (drop 7 digest) \<subseteq> hex_digits"
    using assms t by (auto simp: digest_ok_def)
qed

lemma contains_str_app: "\<forall>c \<in> set s. c \<noteq> CHR ''.'' \<Longrightarrow> \<not> contains_str ''..'' s"
  by (induction s) (auto simp: HasPrefix_def)

lemma entry_name_digest: "entry_name (''sha256:'' @ h) = ''sha256-'' @ h" if "set h \<subseteq> hex_digits"
proof -
  have "\<forall>c \<in> set (''sha256:'' @ h). c \<noteq> CHR ''.'' \<and> c \<noteq> CHR ''/'' \<and> c \<noteq> CHR 0x5C"
    using that by (auto simp: hex_digits_def)
  then have "\<not> contains_str ''..'' (''sha256:'' @ h)" "CHR ''/'' \<notin> set (''sha256:'' @ h)" "CHR 0x5C \<notin> set (''sha256:'' @ h)"
    using contains_str_app by blast+
  moreover have "replace_first (CHR '':'') (CHR ''-'') (''sha256:'' @ h) = ''sha256-'' @ h"
    using replace_first_app [of "CHR '':''" "''sha256''" "CHR ''-''" h] by simp
  ultimately show ?thesis by (simp only: entry_name_def) simp
qed

lemma dirNameToDigest_name: "dirNameToDigest (''sha256-'' @ h) = ''sha256:'' @ h"
  using replace_first_app [of "CHR ''-''" "''sha256''" "CHR '':''" h] by (simp add: dirNameToDigest_def)

lemma digest_round_trip: "digest_ok digest \<Longrightarrow> dirNameToDigest (entry_name digest) = digest"
  by (elim digest_cases) (simp only: entry_name_digest dirNameToDigest_name)

lemma entry_name_inj: "digest_ok a \<Longrightarrow> digest_ok b \<Longrightarrow> entry_name a = entry_name b \<Longrightarrow> a = b"
  by (metis digest_round_trip)

lemma digest_not_special: "digest_ok digest \<Longrightarrow> special_dir (entry_name digest) d = None"
  by (elim digest_cases) (simp only: entry_name_digest, simp add: special_dir_def)

lemma digest_rootfs: "digest_ok digest \<Longrightarrow> isRootfsEntry (entry_name digest)"
  by (elim digest_cases) (simp only: entry_name_digest, simp add: isRootfsEntry_def HasPrefix_def)

text \<open>An image reference, as the parser of references returns it: no blanks.\<close>

definition ref_ok :: "string \<Rightarrow> bool" where
  "ref_ok imageRef \<longleftrightarrow> imageRef \<noteq> [] \<and> (\<forall>c \<in> set imageRef. \<not> is_space c)"

lemma TrimSpace_line:
  assumes "a \<noteq> []" "\<not> is_space (hd a)" "b \<noteq> []" "\<not> is_space (last b)" "is_space x"
  shows "TrimSpace (a @ m @ b @ [x]) = a @ m @ b"
proof -
  have "dropWhile is_space (a @ m @ b @ [x]) = a @ m @ b @ [x]" using assms(1,2) by (cases a) auto
  moreover have "dropWhile is_space (rev (a @ m @ b @ [x])) = rev (a @ m @ b)"
    using assms(3-5) by (cases b rule: rev_cases) auto
  ultimately show ?thesis by (simp add: TrimSpace_def)
qed

lemma parse_ref_line:
  assumes "ref_ok r" "digest_ok g"
  shows "parseRefFile (r @ [CHR 0x09] @ g @ [CHR 0x0A]) = (r, g)"
proof -
  have sp: "is_space (CHR 0x09)" "is_space (CHR 0x0A)" by code_simp+
  obtain h where h: "g = ''sha256:'' @ h" "h \<noteq> []" "set h \<subseteq> hex_digits" using assms(2) by (rule digest_cases)
  have hx: "\<not> is_space c" if "c \<in> hex_digits" for c
    using that by (auto simp: hex_digits_def is_space_def)
  have "last h \<in> hex_digits" using h(2,3) last_in_set by blast
  then have "\<not> is_space (last g)" using h hx by simp
  moreover have "\<not> is_space (hd r)" "r \<noteq> []" "g \<noteq> []" using assms(1) h by (auto simp: ref_ok_def)
  ultimately have "TrimSpace (r @ [CHR 0x09] @ g @ [CHR 0x0A]) = r @ [CHR 0x09] @ g"
    using sp(2) by (intro TrimSpace_line)
  moreover have "cut_at (CHR 0x09) (r @ CHR 0x09 # g) = Some (r, g)"
    using assms(1) sp(1) by (intro cut_at_app) (auto simp: ref_ok_def)
  ultimately show ?thesis using \<open>r \<noteq> []\<close> by (simp add: parseRefFile_def)
qed

section \<open>Lookups\<close>

lemma getRef_putRef [simp]:
  assumes "ref_ok r" "digest_ok g"
  shows "getRef hash r (putRef hash r g now c) = Some g"
  using parse_ref_line [OF assms] assms(2)
  by (auto simp: getRef_def putRef_def Let_def update_conv digest_ok_def HasPrefix_def split: prod.splits option.splits)

lemma putRef_entries [simp]: "entries (the (putRef hash r g now c)) = entries (made c)"
  "putRef hash r g now c \<noteq> None"
  by (auto simp: putRef_def Let_def split: prod.splits)

lemma made_Some [simp]: "made (Some d) = d"
  by (simp add: made_def)

text \<open>What a lookup returns, by the entry of the digest.\<close>

lemma LookupRef_hit:
  assumes "getRef hash r c = Some g" "digest_ok g" "c = Some d"
    and "map_of (entries d) (entry_name g) = Some i" "it_body i = RootDir t (Some data)" "dec data = Some cfg"
  shows "fst (LookupRef hash dec base r now c) = Some \<lparr>rf_Path = pathFor base g, rf_Config = Some cfg, FromCache = True\<rparr>"
proof -
  obtain d' where d': "putRef hash r g now c = Some d'" using putRef_entries(2) by blast
  then have "entries d' = entries d" using putRef_entries(1) [of hash r g now c] assms(3) by simp
  then show ?thesis
    using assms d' digest_not_special [OF assms(2), of d']
    by (simp add: LookupRef_def cache_Get_def getConfig_def is_dir_item_def update_conv Let_def)
qed

lemma StoreRef_stored:
  assumes "digest_ok g" "map_of (entries d) (entry_name g) = Some i" "is_dir_item i"
  obtains d' j t where "StoreRef hash enc r g (Some cfg) now (Some d) = Some d'"
    "map_of (entries d') (entry_name g) = Some j" "it_body j = RootDir t (Some (enc cfg))"
    "refs d' = refs (the (putRef hash r g now (Some d)))"
proof -
  obtain d1 where d1: "putRef hash r g now (Some d) = Some d1" using putRef_entries(2) by blast
  then have e: "entries d1 = entries d" using putRef_entries(1) [of hash r g now "Some d"] by simp
  obtain t old where b: "it_body i = RootDir t old" using assms(3) by (auto simp: is_dir_item_def split: body.splits)
  show thesis
    using that d1 e b assms(2) by (simp add: StoreRef_def putConfig_def update_conv)
qed

lemma getRef_refs: "c \<noteq> None \<Longrightarrow> c' \<noteq> None \<Longrightarrow> refs (the c) = refs (the c') \<Longrightarrow> getRef hash r c = getRef hash r c'"
  by (auto simp: getRef_def)

lemma stored_lookup:
  assumes "ref_ok r" "digest_ok g" "map_of (entries d) (entry_name g) = Some i" "is_dir_item i"
    and "dec (enc cfg) = Some cfg"
  shows "fst (LookupRef hash dec base r later (StoreRef hash enc r g (Some cfg) now (Some d))) =
    Some \<lparr>rf_Path = pathFor base g, rf_Config = Some cfg, FromCache = True\<rparr>"
proof -
  obtain d' j t where s: "StoreRef hash enc r g (Some cfg) now (Some d) = Some d'"
    "map_of (entries d') (entry_name g) = Some j" "it_body j = RootDir t (Some (enc cfg))"
    "refs d' = refs (the (putRef hash r g now (Some d)))"
    using StoreRef_stored [OF assms(2-4)] .
  have "getRef hash r (Some d') = Some g"
    using getRef_putRef [OF assms(1,2), of hash now "Some d"] s(4)
      getRef_refs [of "Some d'" "putRef hash r g now (Some d)" hash r] by simp
  then show ?thesis using LookupRef_hit [of hash r "Some d'" g d' j t "enc cfg" dec cfg base later] s assms(2,5) by simp
qed

section \<open>Properties of the caches\<close>

text \<open>
  A reference stored for a digest whose tree is in the cache is found again: the lookup
  returns the path of the tree and the stored configuration, and says that the tree belongs
  to the cache. It needs only that decoding inverts the encoding of that configuration.
\<close>

theorem StoreRef_LookupRef:
  assumes "ref_ok r" "digest_ok g" "map_of (entries d) (entry_name g) = Some i" "is_dir_item i"
    and "dec (enc cfg) = Some cfg"
  shows "fst (LookupRef hash dec base r later (StoreRef hash enc r g (Some cfg) now (Some d))) =
    Some \<lparr>rf_Path = pathFor base g, rf_Config = Some cfg, FromCache = True\<rparr>"
  by (rule stored_lookup [OF assms(1-4), where dec = dec and enc = enc and cfg = cfg, OF assms(5)])

definition demo_config :: OCIConfig where
  "demo_config = \<lparr>Entrypoint = [''/init''], Cmd = [], Env = [''A=b''], WorkingDir = ''/'', User = []\<rparr>"

definition demo_cachefs :: "nat cachefs" where
  "demo_cachefs = \<lparr>entries = [(''sha256-ab'', \<lparr>it_body = RootDir (Some 1) None, it_mtime = 90\<rparr>)],
     refs = None, layers = None\<rparr>"

lemma demo_names: "entry_name ''sha256:ab'' = ''sha256-ab''" "digest_ok ''sha256:ab''" "ref_ok ''img''"
  by (code_simp, code_simp, code_simp)

theorem StoreRef_LookupRef_witness:
  "fst (LookupRef (\<lambda>r. r) (\<lambda>_. Some demo_config) ''/cache'' ''img'' 100
      (StoreRef (\<lambda>r. r) (\<lambda>_. ''json'') ''img'' ''sha256:ab'' (Some demo_config) 95 (Some demo_cachefs))) =
   Some \<lparr>rf_Path = pathFor ''/cache'' ''sha256:ab'', rf_Config = Some demo_config, FromCache = True\<rparr>"
proof (rule StoreRef_LookupRef [OF demo_names(3,2)])
  show "map_of (entries demo_cachefs) (entry_name ''sha256:ab'') = Some \<lparr>it_body = RootDir (Some 1) None, it_mtime = 90\<rparr>"
    by (simp add: demo_names(1) demo_cachefs_def)
qed (simp_all add: is_dir_item_def)

text \<open>
  The collector removes exactly the extracted images to which no reference points: an entry
  stays if and only if it is not the entry of an image or some reference file holds its digest.
  References and layers are untouched.
\<close>

theorem GC_exact:
  assumes "GC (\<lambda>_. True) True (Some d) = (Inr n, Some d')"
  shows "(\<forall>x i. (x, i) \<in> set (entries d') \<longleftrightarrow> (x, i) \<in> set (entries d) \<and>
      (\<not> isRootfsEntry x \<or> (\<exists>fs t f. refs d = Some (fs, t) \<and> f \<in> set fs \<and>
         snd (parseRefFile (snd f)) = dirNameToDigest x \<and> dirNameToDigest x \<noteq> []))) \<and>
    refs d' = refs d \<and> layers d' = layers d \<and> n + length (entries d') = length (entries d)"
proof -
  obtain live where live: "liveDigests True d = Inr live" using assms by (auto simp: GC_def split: sum.splits)
  then have "set live = {g. g \<noteq> [] \<and> (\<exists>fs t. refs d = Some (fs, t) \<and> g \<in> (\<lambda>f. snd (parseRefFile (snd f))) ` set fs)}"
  proof (cases "refs d")
    case (Some p)
    obtain fs t where p: "p = (fs, t)" by (cases p)
    have "live = filter (\<lambda>x. x \<noteq> []) (map (\<lambda>f. snd (parseRefFile (snd f))) fs)"
      using live Some p by (simp add: liveDigests_def case_prod_unfold)
    then show ?thesis by (simp only: set_filter set_map Some p) blast
  qed (use live in \<open>simp add: liveDigests_def\<close>)
  then have l: "g \<in> set live \<longleftrightarrow> g \<noteq> [] \<and> (\<exists>fs t f. refs d = Some (fs, t) \<and> f \<in> set fs \<and> snd (parseRefFile (snd f)) = g)" for g
    unfolding image_iff by (simp add: Bex_def) metis
  let ?dead = "\<lambda>e. isRootfsEntry (fst e) \<and> dirNameToDigest (fst e) \<notin> set live"
  have e: "entries d' = filter (\<lambda>e. \<not> ?dead e) (entries d)"
    "refs d' = refs d" "layers d' = layers d" "n = length (filter ?dead (entries d))"
    using assms live by (auto simp: GC_def Let_def case_prod_unfold)
  have "(x, i) \<in> set (entries d') \<longleftrightarrow> (x, i) \<in> set (entries d) \<and>
      (\<not> isRootfsEntry x \<or> (\<exists>fs t f. refs d = Some (fs, t) \<and> f \<in> set fs \<and>
         snd (parseRefFile (snd f)) = dirNameToDigest x \<and> dirNameToDigest x \<noteq> []))" for x i
    using l [of "dirNameToDigest x"] by (auto simp: e(1))
  moreover have "n + length (entries d') = length (entries d)"
    using sum_length_filter_compl [of ?dead "entries d"] by (simp add: e)
  ultimately show ?thesis using e by blast
qed

definition two_images :: "nat cachefs" where
  "two_images =
     \<lparr>entries = [(''sha256-ab'', \<lparr>it_body = RootDir (Some 1) None, it_mtime = 90\<rparr>),
        (''sha256-cd'', \<lparr>it_body = RootDir (Some 2) None, it_mtime = 90\<rparr>),
        (''tmp-rootfs-1'', \<lparr>it_body = RootDir None None, it_mtime = 90\<rparr>)],
      refs = Some ([(''f'', ''img'' @ [CHR 0x09] @ ''sha256:cd'' @ [CHR 0x0A])], 10), layers = None\<rparr>"

theorem GC_exact_witness:
  "\<exists>d'. GC (\<lambda>_. True) True (Some two_images) = (Inr 1, Some d') \<and> map fst (entries d') = [''sha256-cd'', ''tmp-rootfs-1''] \<and>
     refs d' = refs two_images \<and> 1 + length (entries d') = length (entries two_images)"
proof -
  let ?r = "GC (\<lambda>_. True) True (Some two_images)"
  have "fst ?r = Inr 1" "snd ?r \<noteq> None" "map fst (entries (the (snd ?r))) = [''sha256-cd'', ''tmp-rootfs-1'']"
    by (code_simp, code_simp, code_simp)
  then have r: "?r = (Inr 1, Some (the (snd ?r)))" by (simp add: prod_eq_iff)
  define d' where "d' = the (snd ?r)"
  have d': "?r = (Inr 1, Some d')" "map fst (entries d') = [''sha256-cd'', ''tmp-rootfs-1'']"
    unfolding d'_def by (rule r, code_simp)
  have "refs d' = refs two_images \<and> 1 + length (entries d') = length (entries two_images)"
    using GC_exact [OF d'(1), THEN conjunct2] by simp
  then show ?thesis using d' by (intro exI [of _ d']) simp
qed

text \<open>
  Eviction by age also removes the index of references when its directory is old, while the
  image it points to was used recently and stays: the next lookup misses, and the collector
  then removes the image.
\<close>

theorem Evict_drops_index:
  "case Evict (\<lambda>_. True) 100 20 (Some two_images) of
     (n, Some d) \<Rightarrow> n = 1 \<and> map_of (entries d) ''sha256-cd'' \<noteq> None \<and> refs d = None \<and>
       (case GC (\<lambda>_. True) True (Some d) of
          (Inr k, Some d') \<Rightarrow> k = 2 \<and> map_of (entries d') ''sha256-cd'' = None
        | _ \<Rightarrow> False)
   | _ \<Rightarrow> False"
  by code_simp

section \<open>Installing an entry\<close>

lemma cache_Put_result:
  assumes "digest_ok g" "src \<noteq> entry_name g" "map_of (entries d) src = Some i" "is_dir_item i"
    and "\<And>x. map_of (entries d) (entry_name g) = Some x \<Longrightarrow> is_dir_item x"
  shows "\<exists>d' j. cache_Put replaces g src (Some d) = (True, Some d') \<and>
    map_of (entries d') (entry_name g) = Some j \<and> map_of (entries d') src = None \<and>
    j = (case map_of (entries d) (entry_name g) of
           Some x \<Rightarrow> if is_empty_item x then i else x
         | None \<Rightarrow> i) \<and>
    (\<forall>x. x \<noteq> src \<longrightarrow> x \<noteq> entry_name g \<longrightarrow> map_of (entries d') x = map_of (entries d) x)"
proof -
  let ?n = "entry_name g"
  have sp: "special_dir ?n x = None" for x :: "'a cachefs" by (rule digest_not_special [OF assms(1)])
  show ?thesis
  proof (cases "map_of (entries d) ?n")
    case None
    then show ?thesis
      using assms(2,3) by (auto simp: cache_Put_def sp rename_entry_def update_conv delete_conv Let_def)
  next
    case (Some x)
    have dx: "is_dir_item x" by (rule assms(5) [OF Some])
    show ?thesis
    proof (cases "is_empty_item x")
      case True
      then show ?thesis
        using Some assms(2,3)
        by (cases replaces)
          (auto simp: cache_Put_def sp rename_entry_def removeIfEmptyDir_def update_conv delete_conv Let_def)
    next
      case False
      then show ?thesis
        using Some dx assms(2,3)
        by (auto simp: cache_Put_def sp rename_entry_def removeIfEmptyDir_def update_conv delete_conv Let_def)
    qed
  qed
qed

text \<open>
  Installing an extracted image: when it succeeds, the digest has a tree, the temporary
  directory is gone and every other entry is as before; a tree that was already there is kept,
  as a concurrent pull of the same digest has put it, and otherwise the tree is the one
  extracted. With the temporary directory present it always succeeds unless a file is in the way.
\<close>

theorem cache_Put_installs:
  assumes "digest_ok g" "src \<noteq> entry_name g" "map_of (entries d) src = Some i" "is_dir_item i"
    and "\<And>x. map_of (entries d) (entry_name g) = Some x \<Longrightarrow> is_dir_item x"
  shows "\<exists>d' j. cache_Put replaces g src (Some d) = (True, Some d') \<and>
    map_of (entries d') (entry_name g) = Some j \<and> map_of (entries d') src = None \<and>
    j = (case map_of (entries d) (entry_name g) of
           Some x \<Rightarrow> if is_empty_item x then i else x
         | None \<Rightarrow> i) \<and>
    (\<forall>x. x \<noteq> src \<longrightarrow> x \<noteq> entry_name g \<longrightarrow> map_of (entries d') x = map_of (entries d) x)"
  by (rule cache_Put_result [OF assms])

theorem cache_Put_installs_witness:
  "\<exists>d' j. cache_Put False ''sha256:ef'' ''tmp-rootfs-1'' (Some two_images) = (True, Some d') \<and>
    map_of (entries d') (entry_name ''sha256:ef'') = Some j \<and> map_of (entries d') ''tmp-rootfs-1'' = None"
proof -
  have n: "entry_name ''sha256:ef'' = ''sha256-ef''" "digest_ok ''sha256:ef''" by (code_simp, code_simp)
  show ?thesis
    using cache_Put_installs [OF n(2), of "''tmp-rootfs-1''" two_images _ False]
    by (auto simp: n(1) two_images_def is_dir_item_def)
qed

end
