(* ===== verification/Pull.thy ===== *)
theory Pull
  imports Budget Layers Cache
begin

text \<open>
  Pulling an image: \<open>PullWithFetcher\<close>, \<open>extractImage\<close>, \<open>extractImageLayered\<close> and
  \<open>extractLayerToCache\<close> of \<^verbatim>\<open>image/pull.go\<close>, with \<^verbatim>\<open>image/fetcher_fallback.go\<close> and
  the configuration files of \<^verbatim>\<open>image/config.go\<close>. Images come from a registry or daemon
  and are arguments: what the library returns for them, errors included.
\<close>

section \<open>image/fetcher_fallback.go\<close>

datatype fetch_error = NoFetchers | AllFailed "string list"

fun try_fetchers :: "(string \<Rightarrow> string + 'i) list \<Rightarrow> string \<Rightarrow> string list \<Rightarrow> fetch_error + 'i" where
  "try_fetchers [] ref errs = Inl (AllFailed errs)"
| "try_fetchers (f # fs) ref errs =
     (case f ref of Inr img \<Rightarrow> Inr img | Inl e \<Rightarrow> try_fetchers fs ref (errs @ [e]))"

definition fallback_Pull :: "(string \<Rightarrow> string + 'i) list \<Rightarrow> string \<Rightarrow> fetch_error + 'i" where
  "fallback_Pull fetchers ref = (if fetchers = [] then Inl NoFetchers else try_fetchers fetchers ref [])"

section \<open>Images\<close>

record config_file =
  cf_Config :: OCIConfig
  cf_DiffIDs :: "Hash list"

text \<open>
  What the methods of an image return. A \<open>None\<close> is an error; a configuration file may be nil.
  \<open>img_flat\<close> are the entries of the archive that flattens all layers.
\<close>

record image =
  img_Digest :: "string option"
  img_ConfigFile :: "config_file option option"
  img_Layers :: "tar_entry list option list option"
  img_flat :: "tar_entry list"

datatype pull_error =
  BadReference | FetchFailed fetch_error | DigestFailed | ConfigFailed | ExtractFailed extract_error
| LayersFailed | LayerCountMismatch | LayerExtraction | LayerMissing | CachePutFailed | Panicked

definition empty_config :: OCIConfig where
  "empty_config = \<lparr>Entrypoint = [], Cmd = [], Env = [], WorkingDir = [], User = []\<rparr>"

definition extractOCIConfig :: "image \<Rightarrow> OCIConfig option" where
  "extractOCIConfig img =
     (case img_ConfigFile img of
        None \<Rightarrow> None
      | Some None \<Rightarrow> Some empty_config
      | Some (Some cf) \<Rightarrow> Some (cf_Config cf))"

section \<open>Extraction into a fresh directory\<close>

text \<open>
  Extraction goes to a new directory, \<^verbatim>\<open>/d\<close> of a file system of its own, and is read back
  as a tree; a tree has fewer levels than inodes.
\<close>

definition scratch_fs :: fs where
  "scratch_fs = \<lparr>nodes = map_of
     [(0, \<lparr>kind = Directory [(''d'', 1)] 0, perm = 0x1ED, owner = (0, 0), override_stat = None\<rparr>),
      (1, \<lparr>kind = Directory [] 0, perm = 0x1C0, owner = (0, 0), override_stat = None\<rparr>)],
     next_ino = 2\<rparr>"

definition info_of :: "inode \<Rightarrow> layer_info" where
  "info_of nd = \<lparr>li_perm = perm nd, li_uid = fst (owner nd), li_gid = snd (owner nd), li_override = override_stat nd\<rparr>"

fun read_tree :: "nat \<Rightarrow> fs \<Rightarrow> ino \<Rightarrow> layer_node" where
  "read_tree 0 s i = LSpecial \<lparr>li_perm = 0, li_uid = 0, li_gid = 0, li_override = None\<rparr>"
| "read_tree (Suc n) s i =
     (case nodes s i of
        None \<Rightarrow> LSpecial \<lparr>li_perm = 0, li_uid = 0, li_gid = 0, li_override = None\<rparr>
      | Some nd \<Rightarrow>
          (case kind nd of
             Directory es _ \<Rightarrow> LDir (info_of nd) (map (\<lambda>(c, j). (c, read_tree n s j)) (sort_key fst es))
           | File b \<Rightarrow> LFile (info_of nd) b
           | Symlink t \<Rightarrow> LLink (info_of nd) t
           | Special \<Rightarrow> LSpecial (info_of nd)))"

definition scratch_tree :: "fs \<Rightarrow> layer_node" where
  "scratch_tree s = read_tree (next_ino s) s 1"

text \<open>The process may change owners or not, contexts are cancelled or not, archives end properly or not.\<close>

record env =
  en_chown :: bool
  en_cancelled :: "nat \<Rightarrow> bool"
  en_clean :: bool
  en_replaces :: bool

definition extractImage :: "env \<Rightarrow> image \<Rightarrow> extract_error + layer_node" where
  "extractImage v img =
     (case extractTar (en_cancelled v) (en_clean v) (en_chown v) ''/d'' (img_flat img) scratch_fs of
        (Some e, _, s) \<Rightarrow> Inl e
      | (None, _, s) \<Rightarrow> Inr (scratch_tree s))"

section \<open>Layered extraction\<close>

definition drop_layer :: "string \<Rightarrow> int \<Rightarrow> 'r layer_cache \<Rightarrow> 'r layer_cache" where
  "drop_layer tmp now lc = map_option (\<lambda>(es, t). (AList.delete tmp es, now)) lc"

definition fill_layer :: "string \<Rightarrow> 'r \<Rightarrow> int \<Rightarrow> 'r layer_cache \<Rightarrow> 'r layer_cache" where
  "fill_layer tmp tree now lc =
     map_option (\<lambda>(es, t). (AList.update tmp \<lparr>it_body = RootDir (Some tree) None, it_mtime = now\<rparr> es, t)) lc"

text \<open>The state of the workers: the shared budget and the layer cache.\<close>

definition extractLayerToCache ::
  "env \<Rightarrow> string \<Rightarrow> int \<Rightarrow> Hash \<Rightarrow> tar_entry list option \<Rightarrow> int \<times> layer_node layer_cache \<Rightarrow>
   bool \<times> int \<times> layer_node layer_cache" where
  "extractLayerToCache v tmp now diffID layer st =
     (case st of (remaining, lc) \<Rightarrow>
        let lc = layer_TempDir tmp now lc
        in case layer of
             None \<Rightarrow> (False, remaining, drop_layer tmp now lc)
           | Some es \<Rightarrow>
               (case extractTarSharedLimit (en_cancelled v) (en_clean v) (en_chown v) ''/d'' es remaining scratch_fs of
                  (Some e, remaining, s) \<Rightarrow> (False, remaining, drop_layer tmp now lc)
                | (None, remaining, s) \<Rightarrow>
                    (case layer_Put (en_replaces v) diffID tmp now (fill_layer tmp (scratch_tree s) now lc) of
                       (True, lc) \<Rightarrow> (True, remaining, lc)
                     | (False, lc) \<Rightarrow> (False, remaining, drop_layer tmp now lc))))"

text \<open>
  The workers run one after the other in the order given; the first failure ends the group.
\<close>

fun run_group :: "('k \<Rightarrow> 'v \<Rightarrow> 's \<Rightarrow> bool \<times> 's) \<Rightarrow> ('k \<times> 'v) list \<Rightarrow> 's \<Rightarrow> bool \<times> 's" where
  "run_group f [] st = (True, st)"
| "run_group f ((k, v) # kvs) st =
     (case f k v st of (False, st) \<Rightarrow> (False, st) | (True, st) \<Rightarrow> run_group f kvs st)"

text \<open>The layers that are not in the cache; the others are marked as used.\<close>

fun missing_layers ::
  "string \<Rightarrow> int \<Rightarrow> (Hash \<times> 'v) list \<Rightarrow> 'r layer_cache \<Rightarrow> (Hash \<times> 'v) list \<times> 'r layer_cache" where
  "missing_layers baseDir now [] lc = ([], lc)"
| "missing_layers baseDir now ((diffID, l) # ls) lc =
     (case layer_Has baseDir diffID now lc of
        (hit, lc) \<Rightarrow>
          (case missing_layers baseDir now ls lc of
             (todo, lc) \<Rightarrow> (if hit then todo else (diffID, l) # todo, lc)))"

definition layer_tree :: "Hash \<Rightarrow> layer_node layer_cache \<Rightarrow> layer_node" where
  "layer_tree diffID lc =
     (case lc of
        Some (es, _) \<Rightarrow>
          (case map_of es (layer_name diffID) of
             Some i \<Rightarrow> (case it_body i of RootDir (Some t) _ \<Rightarrow> t | _ \<Rightarrow> LDir plain_info [])
           | None \<Rightarrow> LDir plain_info [])
      | None \<Rightarrow> LDir plain_info [])"

fun apply_layers ::
  "env \<Rightarrow> string \<Rightarrow> int \<Rightarrow> Hash list \<Rightarrow> layer_node layer_cache \<Rightarrow> fs \<Rightarrow>
   pull_error option \<times> layer_node layer_cache \<times> fs" where
  "apply_layers v baseDir now [] lc s = (None, lc, s)"
| "apply_layers v baseDir now (diffID # ds) lc s =
     (case layer_Get baseDir diffID now lc of
        (None, lc) \<Rightarrow> (Some LayerMissing, lc, s)
      | (Some layerDir, lc) \<Rightarrow>
          (case applyLayerToDir (en_chown v) (layer_tree diffID lc) ''/d'' s of
             (Some e, s) \<Rightarrow> (Some (ExtractFailed e), lc, s)
           | (None, s) \<Rightarrow> apply_layers v baseDir now ds lc s))"

definition extractImageLayered ::
  "env \<Rightarrow> ((Hash \<times> tar_entry list option) list \<Rightarrow> (Hash \<times> tar_entry list option) list) \<Rightarrow> string \<Rightarrow> string \<Rightarrow>
   int \<Rightarrow> image \<Rightarrow> layer_node layer_cache \<Rightarrow> (pull_error + layer_node) \<times> layer_node layer_cache" where
  "extractImageLayered v schedule baseDir tmp now img lc =
     (case img_Layers img of
        None \<Rightarrow> (Inl LayersFailed, lc)
      | Some ls \<Rightarrow>
          (case img_ConfigFile img of
             None \<Rightarrow> (Inl ConfigFailed, lc)
           | Some None \<Rightarrow> (Inl Panicked, lc)
           | Some (Some cf) \<Rightarrow>
               if length ls \<noteq> length (cf_DiffIDs cf) then (Inl LayerCountMismatch, lc)
               else case missing_layers baseDir now (zip (cf_DiffIDs cf) ls) lc of
                 (todo, lc) \<Rightarrow>
                   (case run_group (extractLayerToCache v tmp now) (schedule todo) (maxExtractSize, lc) of
                      (False, _, lc) \<Rightarrow> (Inl LayerExtraction, lc)
                    | (True, _, lc) \<Rightarrow>
                        (case apply_layers v baseDir now (cf_DiffIDs cf) lc scratch_fs of
                           (Some e, lc, s) \<Rightarrow> (Inl e, lc)
                         | (None, lc, s) \<Rightarrow> (Inr (scratch_tree s), lc)))))"

section \<open>PullWithFetcher\<close>

text \<open>The root directory is made accessible and gets its ownership attribute.\<close>

definition fix_root :: "layer_node \<Rightarrow> layer_node" where
  "fix_root t =
     (case t of
        LDir i es \<Rightarrow> LDir (i\<lparr>li_perm := 0x1ED, li_override := Some (override_value 0 0 (ModeDir OR 0x1ED))\<rparr>) es
      | _ \<Rightarrow> t)"

text \<open>
  A pull with a cache, once the image is known and its digest is not in the cache: layered
  extraction, or flat extraction when that fails, into a temporary entry \<open>tmp\<close> that is
  installed under the digest.
\<close>

definition extract_cached ::
  "env \<Rightarrow> ((Hash \<times> tar_entry list option) list \<Rightarrow> (Hash \<times> tar_entry list option) list) \<Rightarrow> string \<Rightarrow> string \<Rightarrow>
   string \<Rightarrow> int \<Rightarrow> image \<Rightarrow> layer_node cache \<Rightarrow> (pull_error + layer_node) \<times> layer_node cache" where
  "extract_cached v schedule baseDir tmp ltmp now img c =
     (let c = cache_TempDir tmp now c; d = made c
      in case extractImageLayered v schedule (Join baseDir ''layers'') ltmp now img (layers d) of
           (Inr t, lc) \<Rightarrow> (Inr t, Some (d\<lparr>layers := lc\<rparr>))
         | (Inl Panicked, lc) \<Rightarrow> (Inl Panicked, Some (d\<lparr>layers := lc\<rparr>))
         | (Inl _, lc) \<Rightarrow>
             (case extractImage v img of
                Inr t \<Rightarrow> (Inr t, Some (d\<lparr>layers := lc\<rparr>))
              | Inl e \<Rightarrow>
                  (Inl (ExtractFailed e), Some (d\<lparr>layers := lc, entries := AList.delete tmp (entries d)\<rparr>))))"

definition fill_entry :: "string \<Rightarrow> 'r \<Rightarrow> int \<Rightarrow> 'r cache \<Rightarrow> 'r cache" where
  "fill_entry tmp tree now c =
     map_option (\<lambda>d. d\<lparr>entries := AList.update tmp \<lparr>it_body = RootDir (Some tree) None, it_mtime = now\<rparr> (entries d)\<rparr>) c"

definition drop_entry :: "string \<Rightarrow> 'r cache \<Rightarrow> 'r cache" where
  "drop_entry tmp c = map_option (\<lambda>d. d\<lparr>entries := AList.delete tmp (entries d)\<rparr>) c"

text \<open>The last part: extraction, and installation in the cache if there is one.\<close>

definition pull_extract ::
  "env \<Rightarrow> ((Hash \<times> tar_entry list option) list \<Rightarrow> (Hash \<times> tar_entry list option) list) \<Rightarrow>
   (string \<Rightarrow> string) \<Rightarrow> (OCIConfig \<Rightarrow> string) \<Rightarrow> string \<Rightarrow> string \<Rightarrow> string \<Rightarrow> string \<Rightarrow> int \<Rightarrow>
   string \<Rightarrow> string \<Rightarrow> image \<Rightarrow> OCIConfig \<Rightarrow> layer_node cache option \<Rightarrow>
   (pull_error + RootFS) \<times> layer_node cache option" where
  "pull_extract v schedule hash enc baseDir tmp ltmp tmpPath now ref digest img cfg cache =
     (case cache of
        None \<Rightarrow>
          (case extractImage v img of
             Inl e \<Rightarrow> (Inl (ExtractFailed e), None)
           | Inr t \<Rightarrow> (Inr \<lparr>rf_Path = tmpPath, rf_Config = Some cfg, FromCache = False\<rparr>, None))
      | Some c \<Rightarrow>
          (case extract_cached v schedule baseDir tmp ltmp now img c of
             (Inl e, c) \<Rightarrow> (Inl e, Some c)
           | (Inr t, c) \<Rightarrow>
               (case cache_Put (en_replaces v) digest tmp (fill_entry tmp (fix_root t) now c) of
                  (False, c) \<Rightarrow> (Inl CachePutFailed, Some (drop_entry tmp c))
                | (True, c) \<Rightarrow>
                    (case cache_Get baseDir digest now c of
                       (p, c) \<Rightarrow>
                         (Inr \<lparr>rf_Path = (case p of Some q \<Rightarrow> q | None \<Rightarrow> Join baseDir tmp),
                               rf_Config = Some cfg, FromCache = True\<rparr>,
                          Some (StoreRef hash enc ref digest (Some cfg) now c))))))"

text \<open>From the fetched image on: the digest may already be in the cache.\<close>

definition pull_image ::
  "env \<Rightarrow> ((Hash \<times> tar_entry list option) list \<Rightarrow> (Hash \<times> tar_entry list option) list) \<Rightarrow>
   (string \<Rightarrow> string) \<Rightarrow> (OCIConfig \<Rightarrow> string) \<Rightarrow> string \<Rightarrow> string \<Rightarrow> string \<Rightarrow> string \<Rightarrow> int \<Rightarrow>
   string \<Rightarrow> image \<Rightarrow> layer_node cache option \<Rightarrow> (pull_error + RootFS) \<times> layer_node cache option" where
  "pull_image v schedule hash enc baseDir tmp ltmp tmpPath now ref img cache =
     (case img_Digest img of
        None \<Rightarrow> (Inl DigestFailed, cache)
      | Some digest \<Rightarrow>
          (case (case cache of
                   None \<Rightarrow> (None, None)
                 | Some c \<Rightarrow> (case cache_Get baseDir digest now c of (p, c) \<Rightarrow> (p, Some c))) of
             (Some cachedPath, Some c) \<Rightarrow>
               (case extractOCIConfig img of
                  None \<Rightarrow> (Inl ConfigFailed, Some c)
                | Some cfg \<Rightarrow>
                    (Inr \<lparr>rf_Path = cachedPath, rf_Config = Some cfg, FromCache = True\<rparr>,
                     Some (StoreRef hash enc ref digest (Some cfg) now c)))
           | (_, cache) \<Rightarrow>
               (case extractOCIConfig img of
                  None \<Rightarrow> (Inl ConfigFailed, cache)
                | Some cfg \<Rightarrow>
                    pull_extract v schedule hash enc baseDir tmp ltmp tmpPath now ref digest img cfg cache)))"

text \<open>
  \<open>parse\<close> is \<^verbatim>\<open>name.ParseReference\<close>, \<open>fetch\<close> the fetcher, \<open>tmpPath\<close> the directory of a pull
  without a cache. The outer option of the cache is the nil pointer.
\<close>

definition PullWithFetcher ::
  "env \<Rightarrow> ((Hash \<times> tar_entry list option) list \<Rightarrow> (Hash \<times> tar_entry list option) list) \<Rightarrow>
   (string \<Rightarrow> string) \<Rightarrow> (OCIConfig \<Rightarrow> string) \<Rightarrow> (string \<Rightarrow> OCIConfig option) \<Rightarrow>
   (string \<Rightarrow> string option) \<Rightarrow> (string \<Rightarrow> fetch_error + image) \<Rightarrow>
   string \<Rightarrow> string \<Rightarrow> string \<Rightarrow> string \<Rightarrow> int \<Rightarrow> string \<Rightarrow> layer_node cache option \<Rightarrow>
   (pull_error + RootFS) \<times> layer_node cache option" where
  "PullWithFetcher v schedule hash enc dec parse fetch baseDir tmp ltmp tmpPath now imageRef cache =
     (case parse imageRef of
        None \<Rightarrow> (Inl BadReference, cache)
      | Some ref \<Rightarrow>
          (case (case cache of
                   None \<Rightarrow> (None, None)
                 | Some c \<Rightarrow> (case LookupRef hash dec baseDir ref now c of (r, c) \<Rightarrow> (r, Some c))) of
             (Some cached, cache) \<Rightarrow> (Inr cached, cache)
           | (None, cache) \<Rightarrow>
               (case fetch ref of
                  Inl e \<Rightarrow> (Inl (FetchFailed e), cache)
                | Inr img \<Rightarrow> pull_image v schedule hash enc baseDir tmp ltmp tmpPath now ref img cache)))"

section \<open>image/config.go: writing the configuration\<close>

text \<open>\<open>json\<close> are the encoded bytes.\<close>

definition krunConfigFile :: string where "krunConfigFile = ''.krun_config.json''"

definition WriteTo :: "bytes \<Rightarrow> string \<Rightarrow> fs \<Rightarrow> errno option \<times> fs" where
  "WriteTo json rootfsPath s =
     (case WriteFile s (Join rootfsPath krunConfigFile) json 0x1A4 of
        Inl e \<Rightarrow> (Some e, s)
      | Inr s' \<Rightarrow> (None, s'))"

section \<open>Groups of layers\<close>

text \<open>A cache whose entries stay and whose successful stores are hits.\<close>

locale content_cache =
  fixes hit :: "'k \<Rightarrow> 's \<Rightarrow> bool" and store :: "'k \<Rightarrow> 'v \<Rightarrow> 's \<Rightarrow> bool \<times> 's"
  assumes store_hit: "store k v s = (True, s') \<Longrightarrow> hit k s'"
    and store_keeps: "store k v s = (ok, s') \<Longrightarrow> hit j s \<Longrightarrow> hit j s'"
begin

lemma group_keeps: "run_group store kvs s = (ok, s') \<Longrightarrow> hit j s \<Longrightarrow> hit j s'"
proof (induction kvs arbitrary: s)
  case (Cons kv kvs)
  obtain k v where kv: "kv = (k, v)" by (cases kv)
  obtain b s1 where r: "store k v s = (b, s1)" by (cases "store k v s")
  have "hit j s1" by (rule store_keeps [OF r Cons.prems(2)])
  then show ?case using Cons.IH Cons.prems(1) kv r by (cases b) auto
qed simp

lemma group_hits: "run_group store kvs s = (True, s') \<Longrightarrow> (k, v) \<in> set kvs \<Longrightarrow> hit k s'"
proof (induction kvs arbitrary: s)
  case (Cons kv kvs)
  obtain k1 v1 where kv: "kv = (k1, v1)" by (cases kv)
  obtain b s1 where r: "store k1 v1 s = (b, s1)" by (cases "store k1 v1 s")
  have b: "b" "run_group store kvs s1 = (True, s')" using Cons.prems(1) kv r by (cases b; simp)+
  show ?case
  proof (cases "(k, v) = kv")
    case True
    then have "hit k s1" using store_hit r kv b(1) by simp
    then show ?thesis using group_keeps [OF b(2)] by blast
  next
    case False
    then show ?thesis using Cons.IH [OF b(2)] Cons.prems(2) by simp
  qed
qed simp

end

text \<open>A layer is in the cache when its name is taken.\<close>

definition has_layer :: "Hash \<Rightarrow> 'r layer_cache \<Rightarrow> bool" where
  "has_layer k lc \<longleftrightarrow> (\<exists>es t. lc = Some (es, t) \<and> map_of es (layer_name k) \<noteq> None)"

lemma has_layer_drop: "has_layer k (drop_layer tmp now lc) \<longleftrightarrow> has_layer k lc \<and> layer_name k \<noteq> tmp"
  by (auto simp: has_layer_def drop_layer_def delete_conv split: if_splits)

lemma has_layer_fill: "has_layer k lc \<Longrightarrow> has_layer k (fill_layer tmp t now lc)"
  by (auto simp: has_layer_def fill_layer_def update_conv)

lemma has_layer_tmp: "has_layer k lc \<Longrightarrow> has_layer k (layer_TempDir tmp now lc)"
  by (auto simp: has_layer_def layer_TempDir_def layer_made_def update_conv split: option.splits prod.splits)

lemma has_layer_Put:
  "layer_Put r d tmp now lc = (ok, lc') \<Longrightarrow> layer_name k \<noteq> tmp \<Longrightarrow> has_layer k lc \<Longrightarrow> has_layer k lc'"
  by (auto simp: layer_Put_def layer_made_def has_layer_def rename_entry_def update_conv delete_conv
    split: option.splits prod.splits if_splits)

lemma layer_Put_has: "layer_Put r d tmp now lc = (True, lc') \<Longrightarrow> layer_name d \<noteq> tmp \<Longrightarrow> has_layer d lc'"
  by (auto simp: layer_Put_def layer_made_def has_layer_def rename_entry_def update_conv delete_conv
    split: option.splits prod.splits if_splits)

interpretation lg: content_cache "\<lambda>k st. layer_name k \<noteq> tmp \<longrightarrow> has_layer k (snd st)" "extractLayerToCache v tmp now"
  for v tmp now
proof
  fix k es and s s' :: "int \<times> layer_node layer_cache"
  assume "extractLayerToCache v tmp now k es s = (True, s')"
  then show "layer_name k \<noteq> tmp \<longrightarrow> has_layer k (snd s')"
    using layer_Put_has by (fastforce simp: extractLayerToCache_def Let_def split: prod.splits option.splits bool.splits)
next
  fix k j es ok and s s' :: "int \<times> layer_node layer_cache"
  assume "extractLayerToCache v tmp now k es s = (ok, s')" "layer_name j \<noteq> tmp \<longrightarrow> has_layer j (snd s)"
  then show "layer_name j \<noteq> tmp \<longrightarrow> has_layer j (snd s')"
    using has_layer_Put [OF _ _ has_layer_fill [OF has_layer_tmp]] has_layer_tmp
    by (fastforce simp: extractLayerToCache_def Let_def has_layer_drop split: prod.splits option.splits bool.splits)
qed


text \<open>Only directories are kept as layers.\<close>

definition layers_are_dirs :: "'r layer_cache \<Rightarrow> bool" where
  "layers_are_dirs lc \<longleftrightarrow> (\<forall>es t n i. lc = Some (es, t) \<longrightarrow> map_of es n = Some i \<longrightarrow> is_dir_item i)"

lemma dirs_mtime [simp]: "is_dir_item (i\<lparr>it_mtime := t\<rparr>) = is_dir_item i"
  by (simp add: is_dir_item_def)

lemma dirs_Get:
  assumes "layers_are_dirs lc" "layer_Get b d now lc = (p, lc')"
  shows "layers_are_dirs lc' \<and> (p \<noteq> None \<longleftrightarrow> has_layer d lc) \<and> (\<forall>k. has_layer k lc \<longrightarrow> has_layer k lc')"
  using assms
  by (auto simp: layer_Get_def layers_are_dirs_def has_layer_def update_conv split: option.splits prod.splits if_splits)

lemma dirs_TempDir: "layers_are_dirs lc \<Longrightarrow> layers_are_dirs (layer_TempDir tmp now lc)"
  by (auto simp: layers_are_dirs_def layer_TempDir_def layer_made_def update_conv is_dir_item_def
    split: option.splits prod.splits if_splits)

lemma dirs_fill: "layers_are_dirs lc \<Longrightarrow> layers_are_dirs (fill_layer tmp t now lc)"
  by (auto simp: layers_are_dirs_def fill_layer_def update_conv is_dir_item_def split: if_splits)

lemma dirs_drop: "layers_are_dirs lc \<Longrightarrow> layers_are_dirs (drop_layer tmp now lc)"
  by (auto simp: layers_are_dirs_def drop_layer_def delete_conv split: if_splits)

lemma dirs_Put: "layers_are_dirs lc \<Longrightarrow> layer_Put r d tmp now lc = (ok, lc') \<Longrightarrow> layers_are_dirs lc'"
  by (auto simp: layer_Put_def layer_made_def layers_are_dirs_def rename_entry_def update_conv delete_conv
    split: option.splits prod.splits if_splits)

lemma dirs_extract:
  assumes "layers_are_dirs (snd st)" "extractLayerToCache v tmp now k es st = (ok, st')"
  shows "layers_are_dirs (snd st')"
proof -
  obtain m lc where st: "st = (m, lc)" by (cases st)
  let ?lc = "layer_TempDir tmp now lc"
  have 1: "layers_are_dirs ?lc" using assms(1) st dirs_TempDir by simp
  have 2: "layers_are_dirs (drop_layer tmp now ?lc)" by (rule dirs_drop [OF 1])
  have 3: "layers_are_dirs lc'" "layers_are_dirs (drop_layer tmp now lc')"
    if "layer_Put r d tmp now (fill_layer tmp t now ?lc) = (b, lc')" for r d t b lc'
    using dirs_Put [OF dirs_fill [OF 1] that] dirs_drop by auto
  show ?thesis
    using assms(2) 2 3 unfolding st
    by (auto simp: extractLayerToCache_def Let_def split: prod.splits option.splits bool.splits)
qed

lemma dirs_group:
  "layers_are_dirs (snd st) \<Longrightarrow> run_group (extractLayerToCache v tmp now) kvs st = (ok, st') \<Longrightarrow>
   layers_are_dirs (snd st')"
proof (induction kvs arbitrary: st)
  case (Cons kv kvs)
  obtain k es where kv: "kv = (k, es)" by (cases kv)
  obtain b st1 where r: "extractLayerToCache v tmp now k es st = (b, st1)"
    by (cases "extractLayerToCache v tmp now k es st")
  show ?case
    using Cons.IH [OF dirs_extract [OF Cons.prems(1) r]] dirs_extract [OF Cons.prems(1) r] Cons.prems(2) kv r
    by (cases b) auto
qed simp

lemma missing_layers_cover:
  "layers_are_dirs lc \<Longrightarrow> missing_layers b now ls lc = (todo, lc') \<Longrightarrow>
   layers_are_dirs lc' \<and> (\<forall>k. has_layer k lc \<longrightarrow> has_layer k lc') \<and>
   (\<forall>(d, l) \<in> set ls. has_layer d lc' \<or> (d, l) \<in> set todo)"
proof (induction ls arbitrary: lc todo lc')
  case (Cons dl ls)
  obtain d l where dl: "dl = (d, l)" by (cases dl)
  obtain p lc1 where g: "layer_Get b d now lc = (p, lc1)" by (cases "layer_Get b d now lc")
  obtain todo1 lc2 where m: "missing_layers b now ls lc1 = (todo1, lc2)" by (cases "missing_layers b now ls lc1")
  note 1 = dirs_Get [OF Cons.prems(1) g]
  note 2 = Cons.IH [OF 1 [THEN conjunct1] m]
  have "todo = (if p \<noteq> None then todo1 else (d, l) # todo1)" "lc' = lc2"
    using Cons.prems(2) dl g m by (auto simp: layer_Has_def split: if_splits)
  then show ?case using 1 2 dl by auto
qed simp

lemma apply_layers_found:
  "layers_are_dirs lc \<Longrightarrow> \<forall>d \<in> set ds. has_layer d lc \<Longrightarrow>
   fst (apply_layers v b now ds lc s) \<noteq> Some LayerMissing"
proof (induction ds arbitrary: lc s)
  case (Cons d ds)
  obtain p lc1 where g: "layer_Get b d now lc = (p, lc1)" by (cases "layer_Get b d now lc")
  note 1 = dirs_Get [OF Cons.prems(1) g]
  then obtain q where q: "p = Some q" using Cons.prems(2) by auto
  obtain e s1 where a: "applyLayerToDir (en_chown v) (layer_tree d lc1) ''/d'' s = (e, s1)"
    by (cases "applyLayerToDir (en_chown v) (layer_tree d lc1) ''/d'' s")
  show ?case
    using 1 Cons.prems(2) Cons.IH [of lc1 s1] g q a by (cases e) auto
qed simp

section \<open>Properties of pulling\<close>

text \<open>
  Layered extraction never ends with a layer missing from the cache: when the extraction of
  the layers that were not cached has succeeded, in any order, every layer of the image is
  found. The temporary directories have names of their own and the cache holds directories.
\<close>

theorem layered_never_missing:
  assumes "layers_are_dirs lc" "\<And>xs. set (schedule xs) = set xs"
    and "\<And>cf. img_ConfigFile img = Some (Some cf) \<Longrightarrow> \<forall>d \<in> set (cf_DiffIDs cf). layer_name d \<noteq> tmp"
  shows "fst (extractImageLayered v schedule b tmp now img lc) \<noteq> Inl LayerMissing"
proof (cases "\<exists>ls cf. img_Layers img = Some ls \<and> img_ConfigFile img = Some (Some cf) \<and> length ls = length (cf_DiffIDs cf)")
  case True
  then obtain ls cf where i: "img_Layers img = Some ls" "img_ConfigFile img = Some (Some cf)"
    "length ls = length (cf_DiffIDs cf)" by blast
  obtain todo lc1 where m: "missing_layers b now (zip (cf_DiffIDs cf) ls) lc = (todo, lc1)"
    by (cases "missing_layers b now (zip (cf_DiffIDs cf) ls) lc")
  obtain ok rem lc2 where g: "run_group (extractLayerToCache v tmp now) (schedule todo) (maxExtractSize, lc1) = (ok, rem, lc2)"
    by (cases "run_group (extractLayerToCache v tmp now) (schedule todo) (maxExtractSize, lc1)") auto
  note 1 = missing_layers_cover [OF assms(1) m]
  have "fst (apply_layers v b now (cf_DiffIDs cf) lc2 scratch_fs) \<noteq> Some LayerMissing" if "ok"
  proof (rule apply_layers_found)
    show "layers_are_dirs lc2" using dirs_group [of "(maxExtractSize, lc1)"] g 1 by fastforce
    show "\<forall>d \<in> set (cf_DiffIDs cf). has_layer d lc2"
    proof
      fix d assume d: "d \<in> set (cf_DiffIDs cf)"
      then obtain n where n: "n < length ls" "cf_DiffIDs cf ! n = d" using i(3) by (metis in_set_conv_nth)
      then have "(d, ls ! n) \<in> set (zip (cf_DiffIDs cf) ls)" using i(3) by (auto simp: set_zip)
      then have "has_layer d lc1 \<or> (d, ls ! n) \<in> set (schedule todo)" using 1 assms(2) by auto
      moreover have "layer_name d \<noteq> tmp" using assms(3) [OF i(2)] d by blast
      ultimately show "has_layer d lc2"
        using lg.group_keeps [OF g, of d] lg.group_hits [of v tmp now "schedule todo" _ _ d "ls ! n"] g that by auto
    qed
  qed
  then show ?thesis
    using i m g by (auto simp: extractImageLayered_def split: bool.splits prod.splits option.splits)
next
  case False
  then show ?thesis by (auto simp: extractImageLayered_def split: option.splits)
qed

definition demo_image :: image where
  "demo_image = \<lparr>img_Digest = Some ''sha256:ab'',
     img_ConfigFile = Some (Some \<lparr>cf_Config = demo_config, cf_DiffIDs = [\<lparr>Algorithm = ''sha256'', Hex = ''1f''\<rparr>]\<rparr>),
     img_Layers = Some [Some [entry ''f'' [] TypeReg [7]]], img_flat = [entry ''f'' [] TypeReg [7]]\<rparr>"

definition demo_env :: env where
  "demo_env = \<lparr>en_chown = False, en_cancelled = \<lambda>_. False, en_clean = True, en_replaces = True\<rparr>"

theorem layered_never_missing_witness:
  "fst (extractImageLayered demo_env (\<lambda>x. x) ''/c/layers'' ''tmp-layer-1'' 5 demo_image None) \<noteq> Inl LayerMissing"
  by (rule layered_never_missing) (auto simp: layers_are_dirs_def demo_image_def layer_name_def)

text \<open>
  The flag of the result is exact: a pull with a cache, if it succeeds, returns a tree that
  belongs to the cache and says so, and a pull without a cache returns a private one. No caller
  can mistake a shared tree for its own.
\<close>

theorem Pull_FromCache:
  assumes "PullWithFetcher v schedule hash enc dec parse fetch base tmp ltmp tmpPath now r cache = (Inr rf, cache')"
  shows "(FromCache rf \<longleftrightarrow> cache \<noteq> None) \<and> (cache' \<noteq> None \<longleftrightarrow> cache \<noteq> None)"
proof -
  have ex: "(FromCache rf \<longleftrightarrow> c \<noteq> None) \<and> (cache' \<noteq> None \<longleftrightarrow> c \<noteq> None)"
    if "pull_extract v schedule hash enc base tmp ltmp tmpPath now ref g img cfg c = (Inr rf, cache')" for ref g img cfg c
    using that by (auto simp: pull_extract_def split: option.splits sum.splits prod.splits bool.splits)
  have im: "(FromCache rf \<longleftrightarrow> c \<noteq> None) \<and> (cache' \<noteq> None \<longleftrightarrow> c \<noteq> None)"
    if "pull_image v schedule hash enc base tmp ltmp tmpPath now ref img c = (Inr rf, cache')" for ref img c
    using that ex by (cases c) (fastforce simp: pull_image_def split: option.splits prod.splits)+
  have lk: "FromCache x" if "LookupRef hash dec base ref now c = (Some x, c')" for ref c x c'
    using that by (auto simp: LookupRef_def Let_def split: option.splits prod.splits)
  show ?thesis
    using assms im lk
    by (cases cache) (fastforce simp: PullWithFetcher_def split: option.splits sum.splits prod.splits)+
qed

theorem Pull_FromCache_witness:
  "\<exists>rf cache'. PullWithFetcher demo_env (\<lambda>x. x) (\<lambda>r. r) (\<lambda>_. ''json'') (\<lambda>_. Some demo_config) Some
     (\<lambda>_. Inr demo_image) ''/c'' ''tmp-rootfs-1'' ''tmp-layer-1'' ''/tmp/x'' 5 ''img'' None = (Inr rf, cache') \<and> \<not> FromCache rf"
proof -
  let ?p = "PullWithFetcher demo_env (\<lambda>x. x) (\<lambda>r. r) (\<lambda>_. ''json'') (\<lambda>_. Some demo_config) Some
     (\<lambda>_. Inr demo_image) ''/c'' ''tmp-rootfs-1'' ''tmp-layer-1'' ''/tmp/x'' 5 ''img'' None"
  have "\<not> isl (fst ?p)" by code_simp
  then obtain rf where "?p = (Inr rf, snd ?p)" by (metis isl_def prod.collapse sum.exhaust)
  then show ?thesis using Pull_FromCache by blast
qed

section \<open>A second pull\<close>

text \<open>No file is in the way of an entry.\<close>

definition no_file_at :: "string \<Rightarrow> 'r cache \<Rightarrow> bool" where
  "no_file_at n c \<longleftrightarrow> (\<forall>d x. c = Some d \<longrightarrow> map_of (entries d) n = Some x \<longrightarrow> is_dir_item x)"

lemma no_file_putRef: "no_file_at n c \<Longrightarrow> no_file_at n (putRef hash r g now c)"
  by (auto simp: no_file_at_def putRef_def made_def no_cachefs_def Let_def split: prod.splits option.splits)

lemma no_file_Get: "no_file_at n c \<Longrightarrow> cache_Get b g now c = (p, c') \<Longrightarrow> no_file_at n c'"
  by (auto simp: no_file_at_def cache_Get_def update_conv split: option.splits if_splits)

lemma no_file_LookupRef: "no_file_at n c \<Longrightarrow> LookupRef hash dec b r now c = (p, c') \<Longrightarrow> no_file_at n c'"
  using no_file_Get [OF no_file_putRef]
  by (auto simp: LookupRef_def Let_def split: option.splits prod.splits)

lemma Get_hit_entry:
  assumes "digest_ok g" "cache_Get b g now c = (Some p, c')"
  obtains d i where "c' = Some d" "map_of (entries d) (entry_name g) = Some i" "is_dir_item i" "p = pathFor b g"
  using assms(2) digest_not_special [OF assms(1), where 'a = 'a] that
  by (auto simp: cache_Get_def update_conv split: option.splits if_splits)

lemma Get_entry_hit:
  assumes "digest_ok g" "map_of (entries d) (entry_name g) = Some i" "is_dir_item i"
  shows "\<exists>d' j. cache_Get b g now (Some d) = (Some (pathFor b g), Some d') \<and>
    map_of (entries d') (entry_name g) = Some j \<and> is_dir_item j"
  using assms(2,3) digest_not_special [OF assms(1), of d] by (simp add: cache_Get_def update_conv)

lemma extract_cached_tmp:
  assumes "extract_cached v schedule b tmp ltmp now img c = (Inr t, c')" "n \<noteq> tmp" "no_file_at n c"
  obtains d where "c' = Some d" "map_of (entries d) n = (case c of None \<Rightarrow> None | Some e \<Rightarrow> map_of (entries e) n)"
  using assms
  by (auto simp: extract_cached_def cache_TempDir_def made_def no_cachefs_def Let_def update_conv
      split: prod.splits sum.splits pull_error.splits option.splits)

lemma pull_extract_stored:
  assumes "pull_extract v schedule hash enc b tmp ltmp tmpPath now ref g img cfg (Some c) = (Inr rf, Some c')"
    and "digest_ok g" "tmp \<noteq> entry_name g" "no_file_at (entry_name g) c"
  obtains d i where "c' = StoreRef hash enc ref g (Some cfg) now (Some d)"
    "map_of (entries d) (entry_name g) = Some i" "is_dir_item i"
    "rf = \<lparr>rf_Path = pathFor b g, rf_Config = Some cfg, FromCache = True\<rparr>"
proof -
  let ?n = "entry_name g"
  obtain t c1 where x: "extract_cached v schedule b tmp ltmp now img c = (Inr t, c1)"
    using assms(1) by (auto simp: pull_extract_def split: prod.splits sum.splits)
  obtain d1 where d1: "c1 = Some d1" "map_of (entries d1) ?n = (case c of None \<Rightarrow> None | Some e \<Rightarrow> map_of (entries e) ?n)"
    using extract_cached_tmp [OF x _ assms(4)] assms(3) by metis
  let ?i = "\<lparr>it_body = RootDir (Some (fix_root t)) None, it_mtime = now\<rparr>"
  let ?d2 = "d1\<lparr>entries := AList.update tmp ?i (entries d1)\<rparr>"
  have f: "fill_entry tmp (fix_root t) now c1 = Some ?d2" using d1(1) by (simp add: fill_entry_def)
  have "map_of (entries ?d2) ?n = map_of (entries d1) ?n" using assms(3) by (simp add: update_conv)
  moreover have "is_dir_item y" if "map_of (entries d1) ?n = Some y" for y
    using that d1(2) assms(4) by (auto simp: no_file_at_def split: option.splits)
  ultimately obtain d3 j where d3: "cache_Put (en_replaces v) g tmp (Some ?d2) = (True, Some d3)"
    "map_of (entries d3) ?n = Some j" "is_dir_item j"
    using cache_Put_result [OF assms(2,3), of ?d2 ?i "en_replaces v"]
    by (auto simp: update_conv is_dir_item_def split: option.splits if_splits)
  obtain d4 k where d4: "cache_Get b g now (Some d3) = (Some (pathFor b g), Some d4)"
    "map_of (entries d4) ?n = Some k" "is_dir_item k"
    using Get_entry_hit [OF assms(2) d3(2,3)] by blast
  show thesis
    using that [OF _ d4(2,3)] assms(1) x f d3(1) d4(1) by (simp add: pull_extract_def)
qed

lemma pull_image_stored:
  assumes "pull_image v schedule hash enc b tmp ltmp tmpPath now ref img (Some c) = (Inr rf, Some c')"
    and "img_Digest img = Some g" "extractOCIConfig img = Some cfg"
    and "digest_ok g" "tmp \<noteq> entry_name g" "no_file_at (entry_name g) c"
  obtains d i where "c' = StoreRef hash enc ref g (Some cfg) now (Some d)"
    "map_of (entries d) (entry_name g) = Some i" "is_dir_item i"
    "rf = \<lparr>rf_Path = pathFor b g, rf_Config = Some cfg, FromCache = True\<rparr>"
proof -
  obtain p c1 where get: "cache_Get b g now c = (p, c1)" by (cases "cache_Get b g now c")
  show thesis
  proof (cases p)
    case None
    have "pull_extract v schedule hash enc b tmp ltmp tmpPath now ref g img cfg (Some c1) = (Inr rf, Some c')"
      using assms(1-3) get None by (simp add: pull_image_def)
    from pull_extract_stored [OF this assms(4,5) no_file_Get [OF assms(6) get]] that show thesis by metis
  next
    case (Some q)
    obtain d i where d: "c1 = Some d" "map_of (entries d) (entry_name g) = Some i" "is_dir_item i" "q = pathFor b g"
      using Get_hit_entry [OF assms(4)] get Some by metis
    then show thesis using that [OF _ d(2,3)] assms(1-3) get Some by (simp add: pull_image_def)
  qed
qed



end
