(* ===== verification/Hooks.thy ===== *)
theory Hooks
  imports Confine
begin

text \<open>
  The hooks that put files into a root directory before boot, \<^verbatim>\<open>hooks/hooks.go\<close>, and the
  guest's reader of the environment file, \<^verbatim>\<open>guest/env/env.go\<close>. Files are written through
  the file system of \<open>Files\<close>, so that the confinement lemmas apply.
\<close>

section \<open>Environment files\<close>

definition quote :: char where "quote = CHR 0x27"
definition backslash :: char where "backslash = CHR 0x5C"
definition newline :: char where "newline = CHR 0x0A"

text \<open>\<^verbatim>\<open>strings.ReplaceAll\<close> with a nonempty pattern: leftmost, without overlap.\<close>

function replace_all :: "string \<Rightarrow> string \<Rightarrow> string \<Rightarrow> string" where
  "replace_all old new [] = []"
| "replace_all old new (c # cs) =
     (if old \<noteq> [] \<and> HasPrefix (c # cs) old then new @ replace_all old new (drop (length old) (c # cs))
      else c # replace_all old new cs)"
  by pat_completeness auto
termination by (relation "measure (\<lambda>(old, new, s). length s)") auto

text \<open>The text that ends the quotes, gives one quote, and starts them again.\<close>

definition quote_escape :: string where "quote_escape = [quote, backslash, quote, quote]"

definition shellEscape :: "string \<Rightarrow> string" where
  "shellEscape s = [quote] @ replace_all [quote] quote_escape s @ [quote]"

definition unquote :: "string \<Rightarrow> string" where
  "unquote s =
     (if 2 \<le> length s \<and> hd s = quote \<and> last s = quote
      then replace_all quote_escape [quote] (butlast (tl s))
      else s)"

definition letter :: "char \<Rightarrow> bool" where
  "letter c \<longleftrightarrow> c = CHR ''_'' \<or> (let n = of_char c :: nat in 65 \<le> n \<and> n \<le> 90 \<or> 97 \<le> n \<and> n \<le> 122)"

definition validEnvKey :: "string \<Rightarrow> bool" where
  "validEnvKey k \<longleftrightarrow> k \<noteq> [] \<and> letter (hd k) \<and> list_all (\<lambda>c. letter c \<or> digit c) (tl k)"

definition env_line :: "string \<times> string \<Rightarrow> string" where
  "env_line kv = ''export '' @ fst kv @ ''='' @ shellEscape (snd kv) @ [newline]"

text \<open>The map as its entries; they are written in the order of the keys.\<close>

definition env_file :: "(string \<times> string) list \<Rightarrow> string" where
  "env_file envMap = concat (map env_line (sort_key fst envMap))"

section \<open>guest/env/env.go\<close>

definition maxFileSize :: nat where "maxFileSize = 2 ^ 20"

text \<open>
  \<^verbatim>\<open>bufio.Scanner\<close>: lines without their end; a line that does not fit into the buffer of 64 KiB
  is an error.
\<close>

definition max_token :: nat where "max_token = 2 ^ 16"

definition drop_cr :: "string \<Rightarrow> string" where
  "drop_cr s = (if s \<noteq> [] \<and> last s = CHR 0x0D then butlast s else s)"

definition scan_lines :: "string \<Rightarrow> unit + string list" where
  "scan_lines s =
     (let parts = split_at newline s;
          tokens = (if last parts = [] then butlast parts else parts)
      in if list_all (\<lambda>t. length t < max_token) tokens then Inr (map drop_cr tokens) else Inl ())"

definition parse_env_line :: "string \<Rightarrow> string option" where
  "parse_env_line line =
     (if line = [] \<or> HasPrefix line ''#'' then None
      else if \<not> HasPrefix line ''export '' then None
      else case cut_at (CHR ''='') (TrimPrefix line ''export '') of
        None \<Rightarrow> None
      | Some (key, val) \<Rightarrow> Some (key @ ''='' @ unquote val))"

text \<open>\<open>None\<close> is a missing file.\<close>

definition Load :: "string option \<Rightarrow> unit + string list" where
  "Load file =
     (case file of
        None \<Rightarrow> Inr []
      | Some content \<Rightarrow>
          (case scan_lines (take maxFileSize content) of
             Inl e \<Rightarrow> Inl e
           | Inr lines \<Rightarrow> Inr (List.map_filter parse_env_line lines)))"

section \<open>hooks/hooks.go\<close>

definition bytes_of :: "string \<Rightarrow> bytes" where
  "bytes_of s = map of_char s"

text \<open>\<^verbatim>\<open>os.OpenFile\<close> with \<^verbatim>\<open>O_NOFOLLOW\<close>: a link as the last component is an error.\<close>

definition OpenNoFollow :: "fs \<Rightarrow> string \<Rightarrow> u32 \<Rightarrow> errno + ino \<times> fs" where
  "OpenNoFollow s p mode =
     (case namei s root_ino (components p) of
        Inl e \<Rightarrow> Inl e
      | Inr (d, c) \<Rightarrow>
          if c = ''..'' then Inl EISDIR
          else case map_of (the (dir_entries s d)) c of
            None \<Rightarrow> Inr (next_ino s, add_node d c (new_inode (File []) mode) s)
          | Some i \<Rightarrow>
              (case nodes s i of
                 None \<Rightarrow> Inl ENOENT
               | Some nd \<Rightarrow>
                   (case kind nd of
                      File _ \<Rightarrow> Inr (i, set_node i (nd\<lparr>kind := File []\<rparr>) s)
                    | Directory _ _ \<Rightarrow> Inl EISDIR
                    | Special \<Rightarrow> Inr (i, s)
                    | Symlink t \<Rightarrow> Inl ELOOP)))"

definition writeFileNoFollow :: "string \<Rightarrow> bytes \<Rightarrow> FileMode \<Rightarrow> fs \<Rightarrow> extract_error option \<times> fs" where
  "writeFileNoFollow path data mode s =
     (case OpenNoFollow s path mode of
        Inl e \<Rightarrow> (Some (OsError e), s)
      | Inr (f, s') \<Rightarrow> (None, write_node f data s'))"

definition InjectFile :: "string \<Rightarrow> bytes \<Rightarrow> FileMode \<Rightarrow> string \<Rightarrow> fs \<Rightarrow> extract_error option \<times> fs" where
  "InjectFile guestPath content mode rootfsPath s =
     (case Contains rootfsPath guestPath of
        Inl e \<Rightarrow> (Some (PathError e), s)
      | Inr dst \<Rightarrow>
          (case mkdirAllNoSymlink rootfsPath (Dir dst) 0x1ED s of
             (Some e, s) \<Rightarrow> (Some e, s)
           | (None, s) \<Rightarrow>
               (case validateNoSymlinkLeaf dst s of
                  Some e \<Rightarrow> (Some e, s)
                | None \<Rightarrow> writeFileNoFollow dst content mode s)))"

definition InjectBinary :: "string \<Rightarrow> bytes \<Rightarrow> string \<Rightarrow> fs \<Rightarrow> extract_error option \<times> fs" where
  "InjectBinary guestPath data = InjectFile guestPath data 0x1ED"

definition vmconfig_GuestPath :: string where "vmconfig_GuestPath = ''/etc/go-microvm.json''"

text \<open>\<open>json\<close> is the encoded configuration.\<close>

definition InjectVMConfig :: "bytes \<Rightarrow> string \<Rightarrow> fs \<Rightarrow> extract_error option \<times> fs" where
  "InjectVMConfig json = InjectFile vmconfig_GuestPath json 0x1A4"

datatype env_error = InvalidKey string | EnvWrite extract_error

text \<open>
  All keys are tested before anything is written; the first invalid one in the list is
  reported. The rest is as in \<open>InjectFile\<close>.
\<close>

definition InjectEnvFile ::
  "string \<Rightarrow> (string \<times> string) list \<Rightarrow> string \<Rightarrow> fs \<Rightarrow> env_error option \<times> fs" where
  "InjectEnvFile guestPath envMap rootfsPath s =
     (if envMap = [] then (None, s)
      else case find (\<lambda>kv. \<not> validEnvKey (fst kv)) envMap of
        Some kv \<Rightarrow> (Some (InvalidKey (fst kv)), s)
      | None \<Rightarrow>
          (case InjectFile guestPath (bytes_of (env_file envMap)) 0x180 rootfsPath s of
             (e, s') \<Rightarrow> (map_option EnvWrite e, s')))"

text \<open>The mode that \<^verbatim>\<open>os.Lstat\<close> reports.\<close>

definition mode_of :: "inode \<Rightarrow> FileMode" where
  "mode_of nd =
     Perm (perm nd) OR (case kind nd of Directory _ _ \<Rightarrow> ModeDir | Symlink _ \<Rightarrow> ModeSymlink
       | Special \<Rightarrow> ModeDevice | File _ \<Rightarrow> 0)"

definition SetOverrideStatFromPath :: "string \<Rightarrow> int \<Rightarrow> int \<Rightarrow> fs \<Rightarrow> fs" where
  "SetOverrideStatFromPath p uid gid s =
     (case Lstat s p of Inl e \<Rightarrow> s | Inr info \<Rightarrow> SetOverrideStat p uid gid (mode_of info) s)"

text \<open>\<open>chown\<close>: the process may change owners; that it may not is no error.\<close>

definition BestEffortLchown :: "bool \<Rightarrow> string \<Rightarrow> int \<Rightarrow> int \<Rightarrow> fs \<Rightarrow> extract_error option \<times> fs" where
  "BestEffortLchown chown p uid gid s =
     (case (if chown then Lchown s p uid gid else map_sum id (\<lambda>_. s) (lookup_l s p)) of
        Inl e \<Rightarrow> (Some (OsError e), s)
      | Inr s' \<Rightarrow> (None, SetOverrideStatFromPath p uid gid s'))"

record keyConfig =
  kc_home :: string
  kc_uid :: int
  kc_gid :: int
  kc_chown :: "string \<Rightarrow> int \<Rightarrow> int \<Rightarrow> fs \<Rightarrow> extract_error option \<times> fs"

definition defaultKeyConfig :: "bool \<Rightarrow> keyConfig" where
  "defaultKeyConfig chown =
     \<lparr>kc_home = ''/home/sandbox'', kc_uid = 1000, kc_gid = 1000, kc_chown = BestEffortLchown chown\<rparr>"

definition WithKeyUser :: "string \<Rightarrow> int \<Rightarrow> int \<Rightarrow> keyConfig \<Rightarrow> keyConfig" where
  "WithKeyUser home uid gid c = c\<lparr>kc_home := home, kc_uid := uid, kc_gid := gid\<rparr>"

definition WithChown ::
  "(string \<Rightarrow> int \<Rightarrow> int \<Rightarrow> fs \<Rightarrow> extract_error option \<times> fs) \<Rightarrow> keyConfig \<Rightarrow> keyConfig" where
  "WithChown fn c = c\<lparr>kc_chown := fn\<rparr>"

definition InjectAuthorizedKeys ::
  "string \<Rightarrow> keyConfig \<Rightarrow> string \<Rightarrow> fs \<Rightarrow> extract_error option \<times> fs" where
  "InjectAuthorizedKeys pubKey cfg rootfsPath s =
     (let sshDirGuest = kc_home cfg @ ''/.ssh''
      in case Contains rootfsPath sshDirGuest of
           Inl e \<Rightarrow> (Some (PathError e), s)
         | Inr sshDir \<Rightarrow>
             (case mkdirAllNoSymlink rootfsPath sshDir 0x1C0 s of
                (Some e, s) \<Rightarrow> (Some e, s)
              | (None, s) \<Rightarrow>
                  (case kc_chown cfg sshDir (kc_uid cfg) (kc_gid cfg) s of
                     (Some e, s) \<Rightarrow> (Some e, s)
                   | (None, s) \<Rightarrow>
                       (case Contains rootfsPath (sshDirGuest @ ''/authorized_keys'') of
                          Inl e \<Rightarrow> (Some (PathError e), s)
                        | Inr akPath \<Rightarrow>
                            (case validateNoSymlinkLeaf akPath s of
                               Some e \<Rightarrow> (Some e, s)
                             | None \<Rightarrow>
                                 (case writeFileNoFollow akPath (bytes_of (pubKey @ [newline])) 0x180 s of
                                    (Some e, s) \<Rightarrow> (Some e, s)
                                  | (None, s) \<Rightarrow> kc_chown cfg akPath (kc_uid cfg) (kc_gid cfg) s))))))"

section \<open>Round trip of the environment\<close>

lemma escape_chars:
  "replace_all [quote] quote_escape s = concat (map (\<lambda>c. if c = quote then quote_escape else [c]) s)"
  by (induction s) (auto simp: HasPrefix_def)

lemma unescape_block: "replace_all quote_escape [quote] (quote_escape @ s) = quote # replace_all quote_escape [quote] s"
  by (simp add: quote_escape_def HasPrefix_def)

lemma unescape_char: "c \<noteq> quote \<Longrightarrow> replace_all quote_escape [quote] (c # s) = c # replace_all quote_escape [quote] s"
  by (simp add: quote_escape_def HasPrefix_def)

lemma unescape_escape:
  "replace_all quote_escape [quote] (concat (map (\<lambda>c. if c = quote then quote_escape else [c]) s)) = s"
  by (induction s) (simp_all add: unescape_block unescape_char del: replace_all.simps(2))

lemma unquote_shellEscape [simp]: "unquote (shellEscape s) = s"
  by (simp add: unquote_def shellEscape_def escape_chars unescape_escape butlast_append)

lemma split_lines:
  "\<forall>b \<in> set bs. c \<notin> set b \<Longrightarrow> split_at c (concat (map (\<lambda>b. b @ [c]) bs)) = bs @ [[]]"
proof (induction bs)
  case (Cons b bs)
  have "split_at c (b @ c # concat (map (\<lambda>b. b @ [c]) bs)) = split_at c b @ split_at c (concat (map (\<lambda>b. b @ [c]) bs))"
    by (rule split_at_app)
  then show ?case using Cons by (simp add: split_at_no_sep)
qed simp

text \<open>A line of the file without its end.\<close>

definition env_body :: "string \<times> string \<Rightarrow> string" where
  "env_body kv = ''export '' @ fst kv @ ''='' @ shellEscape (snd kv)"

lemma env_line_body: "env_line kv = env_body kv @ [newline]"
  by (simp add: env_line_def env_body_def)

lemma key_chars: "validEnvKey k \<Longrightarrow> CHR ''='' \<notin> set k \<and> newline \<notin> set k"
proof -
  have "\<not> letter (CHR ''='')" "\<not> digit (CHR ''='')" "\<not> letter newline" "\<not> digit newline" by code_simp+
  then show "validEnvKey k \<Longrightarrow> CHR ''='' \<notin> set k \<and> newline \<notin> set k"
    by (cases k) (auto simp: validEnvKey_def list_all_iff)
qed

lemma shellEscape_newline: "newline \<notin> set v \<Longrightarrow> newline \<notin> set (shellEscape v)"
proof -
  have "newline \<noteq> quote" "newline \<noteq> backslash" by code_simp+
  then show "newline \<notin> set v \<Longrightarrow> newline \<notin> set (shellEscape v)"
    unfolding shellEscape_def escape_chars by (auto simp: quote_escape_def)
qed

lemma env_body_newline: "validEnvKey k \<Longrightarrow> newline \<notin> set v \<Longrightarrow> newline \<notin> set (env_body (k, v))"
proof -
  have "newline \<notin> set ''export ''" "newline \<noteq> CHR ''=''" by code_simp+
  then show "validEnvKey k \<Longrightarrow> newline \<notin> set v \<Longrightarrow> newline \<notin> set (env_body (k, v))"
    using key_chars [of k] shellEscape_newline [of v] by (simp add: env_body_def)
qed

lemma parse_env_body:
  assumes "validEnvKey k"
  shows "parse_env_line (drop_cr (env_body (k, v))) = Some (k @ ''='' @ v)"
proof -
  have "last (env_body (k, v)) = quote" "quote \<noteq> CHR 0x0D"
    by (simp add: env_body_def shellEscape_def) code_simp
  then have "drop_cr (env_body (k, v)) = env_body (k, v)" by (simp add: drop_cr_def)
  moreover have "cut_at (CHR ''='') (k @ CHR ''='' # shellEscape v) = Some (k, shellEscape v)"
    using key_chars [OF assms] by (intro cut_at_app) blast
  moreover have "\<not> HasPrefix (env_body (k, v)) ''#''" "env_body (k, v) \<noteq> []"
    by (simp_all add: env_body_def HasPrefix_def)
  moreover have "HasPrefix (env_body (k, v)) ''export ''"
    "TrimPrefix (env_body (k, v)) ''export '' = k @ CHR ''='' # shellEscape v"
    by (simp_all add: env_body_def HasPrefix_def TrimPrefix_def)
  ultimately show ?thesis by (simp add: parse_env_line_def)
qed

lemma scan_env_file:
  assumes "\<forall>(k, v) \<in> set m. validEnvKey k \<and> newline \<notin> set v \<and> length (env_body (k, v)) < max_token"
  shows "scan_lines (concat (map env_line m)) = Inr (map (\<lambda>kv. drop_cr (env_body kv)) m)"
proof -
  have "\<forall>b \<in> set (map env_body m). newline \<notin> set b" using assms env_body_newline by auto
  from split_lines [OF this] have "split_at newline (concat (map env_line m)) = map env_body m @ [[]]"
    by (simp add: env_line_body [THEN ext] comp_def)
  moreover have "list_all (\<lambda>t. length t < max_token) (map env_body m)" using assms by (auto simp: list_all_iff)
  ultimately show ?thesis by (simp add: scan_lines_def comp_def)
qed



text \<open>
  A line break in a value breaks it: the value is cut, and what follows is read as another
  variable.
\<close>

theorem env_newline_injects:
  "Load (Some (env_file [(''A'', ''x'' @ [newline] @ ''export PATH=/evil:'')])) =
     Inr [''A='' @ [quote] @ ''x'', ''PATH=/evil:'' @ [quote]]"
proof -
  let ?f = "env_file [(''A'', ''x'' @ [newline] @ ''export PATH=/evil:'')]"
  have "length ?f \<le> 100" by code_simp
  then have "take maxFileSize ?f = ?f" by (simp add: maxFileSize_def)
  moreover have "list_all (\<lambda>t. length t < 100) (butlast (split_at newline ?f)) \<and> last (split_at newline ?f) = []" by code_simp
  then have "scan_lines ?f = Inr (map drop_cr (butlast (split_at newline ?f)))"
    by (fastforce simp: scan_lines_def max_token_def list_all_iff Let_def)
  moreover have "List.map_filter parse_env_line (map drop_cr (butlast (split_at newline ?f))) =
      [''A='' @ [quote] @ ''x'', ''PATH=/evil:'' @ [quote]]" by code_simp
  ultimately show ?thesis by (simp only: Load_def option.case sum.case)
qed


section \<open>Injection\<close>

lemma nofollow_inside:
  assumes "root_stable Out rc R s0" "\<forall>c \<in> set rc. proper c" "confined Out R s0 s"
    and "\<forall>c \<in> set us. proper c" "proper c" "dir_path s R us = Some d"
    and "writeFileNoFollow (abs_path (rc @ us @ [c])) data mode s = (err, s')"
  shows "confined Out R s0 s' \<and> keeps_dirs s s' \<and>
    (err = None \<longrightarrow> (\<exists>nd. Lstat s' (abs_path (rc @ us @ [c])) = Inr nd \<and> (kind nd = File data \<or> kind nd = Special)))"
proof -
  let ?t = "abs_path (rc @ us @ [c])"
  have c: "c \<noteq> ''..''" using assms(5) by (simp add: proper_def)
  from name_inside [OF assms(1-6)] obtain es where n: "d \<notin> Out" "dir_entries s d = Some es"
    "d \<noteq> next_ino s" "namei s root_ino (components ?t) = Inr (d, c)"
    "lookup_l s ?t = (case map_of es c of None \<Rightarrow> Inl ENOENT | Some i \<Rightarrow> Inr i)"
    "\<And>i. map_of es c = Some i \<Longrightarrow> i \<notin> Out" by metis
  have found: "Lstat s2 ?t = (case nodes s2 i of None \<Rightarrow> Inl ENOENT | Some nd \<Rightarrow> Inr nd)"
    if s2: "confined Out R s0 s2" "keeps_dirs s s2" "entry_of s2 d c = Some i" for s2 i
  proof -
    have "dir_path s2 R us = Some d" using dir_path_keeps [OF s2(2) assms(6)] .
    from lookup_below_root(1) [OF s2(1) assms(1) this assms(2,4,5)] show ?thesis
      using s2(3) by (auto simp: Lstat_def entry_of_def split: option.splits)
  qed
  show ?thesis
  proof (cases "map_of es c")
    case None
    let ?s1 = "add_node d c (new_inode (File []) mode) s" and ?i = "next_ino s"
    have s': "err = None" "s' = write_node ?i data ?s1"
      using assms(7) n(2,4) c None by (auto simp: writeFileNoFollow_def OpenNoFollow_def)
    have 1: "confined Out R s0 ?s1 \<and> keeps_dirs s ?s1"
      using create_inside [OF assms(3) n(1,3,2) None _ assms(5)] by (simp add: new_inode_def)
    have i: "?i \<notin> Out" using confined_fresh [OF assms(3)] by blast
    have w: "confined Out R s0 s' \<and> keeps_dirs ?s1 s'" using write_inside [OF _ i] 1 s'(2) by blast
    have nd: "nodes s' ?i = Some ((new_inode (File []) mode)\<lparr>kind := File data\<rparr>)" "entry_of s' d c = Some ?i"
      using n(2,3) by (simp_all add: s'(2) write_node_def add_node_def Let_def update_dir_nodes new_inode_def
        entry_of_def dir_entries_set_node dir_entries_update_dir update_conv)
    show ?thesis using found [of s' ?i] w 1 nd keeps_dirs_trans by auto
  next
    case (Some i)
    show ?thesis
    proof (cases "\<exists>nd. nodes s i = Some nd \<and> (\<exists>old. kind nd = File old)")
      case True
      then obtain nd old where nd: "nodes s i = Some nd" "kind nd = File old" by blast
      let ?s1 = "set_node i (nd\<lparr>kind := File []\<rparr>) s"
      have s': "err = None" "s' = write_node i data ?s1"
        using assms(7) n(2,4) c Some nd by (auto simp: writeFileNoFollow_def OpenNoFollow_def)
      have de: "dir_entries ?s1 i = dir_entries s i" using nd by (simp add: dir_entries_set_node dir_entries_def)
      have 1: "confined Out R s0 ?s1" "keeps_dirs s ?s1"
        using confined_set_node [OF assms(3) n(6) [OF Some] _ de] nd keeps_dirs_set_node [OF de] by auto
      have w: "confined Out R s0 s' \<and> keeps_dirs ?s1 s'" using write_inside [OF 1(1) n(6) [OF Some]] s'(2) by blast
      have di: "d \<noteq> i" using n(2) nd by (auto simp: dir_entries_def)
      have "entry_of s' d c = Some i" "nodes s' i = Some (nd\<lparr>kind := File data\<rparr>)"
        using n(2) Some di by (simp_all add: s'(2) write_node_def entry_of_def dir_entries_set_node)
      then show ?thesis using found [of s' i] w 1 keeps_dirs_trans by auto
    next
      case False
      have "s' = s" "err = None \<longrightarrow> (\<exists>nd. Lstat s ?t = Inr nd \<and> kind nd = Special)"
        using assms(7) n(2,4,5) c Some False
        by (auto simp: writeFileNoFollow_def OpenNoFollow_def Lstat_def write_node_def
          split: option.splits node_kind.splits)
      then show ?thesis using assms(3) by auto
    qed
  qed
qed

lemma InjectFile_inside:
  assumes "root_stable Out rc R s0" "\<forall>c \<in> set rc. proper c" "confined Out R s0 s" "rc \<noteq> []"
    and "InjectFile p data mode (abs_path rc) s = (err, s')"
  shows "confined Out R s0 s' \<and>
    (err = None \<longrightarrow> (\<exists>dst nd. Contains (abs_path rc) p = Inr dst \<and> Lstat s' dst = Inr nd \<and>
       (kind nd = File data \<or> kind nd = Special)))"
proof (cases "Contains (abs_path rc) p")
  case (Inl e)
  then show ?thesis using assms(3,5) by (auto simp: InjectFile_def)
next
  case (Inr dst)
  obtain us where us: "\<forall>c \<in> set us. proper c" "dst = abs_path (rc @ us)" using Contains_inside [OF assms(2) Inr] by blast
  obtain e1 s1 where mk: "mkdirAllNoSymlink (abs_path rc) (Dir (abs_path (rc @ us))) 0x1ED s = (e1, s1)"
    by (meson surj_pair)
  note s1 = parent_inside [OF assms(1-4) us(1) mk]
  show ?thesis
  proof (cases "e1 = None \<and> validateNoSymlinkLeaf dst s1 = None")
    case False
    then have "s' = s1 \<and> err \<noteq> None"
      using assms(5) Inr mk us(2)
      by (cases e1; cases "validateNoSymlinkLeaf dst s1"; cases err) (auto simp: InjectFile_def)
    then show ?thesis using s1 by auto
  next
    case True
    from s1 True obtain ws c d where w: "us = ws @ [c]" "dir_path s1 R ws = Some d" by blast
    have p: "\<forall>c \<in> set ws. proper c" "proper c" using us(1) w(1) by auto
    have wr: "writeFileNoFollow (abs_path (rc @ ws @ [c])) data mode s1 = (err, s')"
      using assms(5) Inr mk us(2) w(1) True by (simp add: InjectFile_def)
    have "confined Out R s0 s1" using s1 by blast
    from nofollow_inside [OF assms(1,2) this p w(2) wr] show ?thesis using Inr us(2) w(1) by auto
  qed
qed

text \<open>
  C22. Injecting a file changes nothing outside the root directory, whatever the image has put
  inside, and when it succeeds, the path of the guest names a regular file with exactly the
  given contents, unless a device was there before.
\<close>

theorem InjectFile_correct:
  assumes "destination Out rc R s" "InjectFile p data mode (abs_path rc) s = (err, s')"
  shows "(\<forall>i \<in> Out. nodes s' i = nodes s i) \<and>
    (err = None \<longrightarrow> (\<exists>dst nd. Contains (abs_path rc) p = Inr dst \<and> Lstat s' dst = Inr nd \<and>
       (kind nd = File data \<or> kind nd = Special)))"
proof -
  have "root_stable Out rc R s" "\<forall>c \<in> set rc. proper c" "confined Out R s s" "rc \<noteq> []"
    using assms(1) by (simp_all add: destination_def)
  from InjectFile_inside [OF this assms(2)] show ?thesis by (simp add: confined_def same_outside_def)
qed

theorem InjectFile_correct_witness:
  "\<exists>err s'. InjectFile ''/etc/x'' [5] 0x1A4 (abs_path [''dst'']) host_fs = (err, s') \<and> err = None \<and>
     nodes s' 1 = nodes host_fs 1 \<and> (\<exists>dst nd. Lstat s' dst = Inr nd \<and> (kind nd = File [5] \<or> kind nd = Special))"
proof -
  let ?r = "InjectFile ''/etc/x'' [5] 0x1A4 (abs_path [''dst'']) host_fs"
  have "fst ?r = None" by code_simp
  then have r: "?r = (None, snd ?r)" by (metis prod.collapse)
  from InjectFile_correct [OF host_destination r] have
    "nodes (snd ?r) 1 = nodes host_fs 1" "\<exists>dst nd. Lstat (snd ?r) dst = Inr nd \<and> (kind nd = File [5] \<or> kind nd = Special)"
    by auto
  then show ?thesis using r by blast
qed

end
