(* ===== verification/Process.thy ===== *)
theory Process
  imports GoPath
begin

text \<open>
  The runner process as seen from the library: \<^verbatim>\<open>runner/spawn.go\<close> (finding,
  starting, watching and stopping the process) and \<^verbatim>\<open>internal/procutil\<close>.

  The operating system is an argument: what signal 0 says of the process at an instant, which
  binary \<^verbatim>\<open>/proc/<pid>/exe\<close> names, and what \<^verbatim>\<open>kill\<close> answers. The
  functions return the signals they send, with their instants.
\<close>

section \<open>Identity of a process\<close>

text \<open>\<open>exe\<close> is the target of the link in \<^verbatim>\<open>/proc\<close>, if it can be read.\<close>

definition IsExpectedProcess :: "string option \<Rightarrow> string \<Rightarrow> bool" where
  "IsExpectedProcess exe expectedBinary =
     (case exe of
        None \<Rightarrow> False
      | Some e \<Rightarrow>
          let exePath = TrimSuffix e '' (deleted)''
          in if IsAbs expectedBinary then Clean exePath = Clean expectedBinary
             else Base exePath = Base expectedBinary)"

definition runnerBinaryName :: string where "runnerBinaryName = ''go-microvm-runner''"
definition stopTimeout :: duration where "stopTimeout = 30 * second"
definition stopPollInterval :: duration where "stopPollInterval = 250 * millisecond"

datatype signal = SIGTERM | SIGKILL

datatype kill_error = ESRCH | KillFailed

record process_env =
  pe_signal0 :: "time \<Rightarrow> bool"
  pe_exe :: "time \<Rightarrow> string option"
  pe_kill :: "int \<Rightarrow> signal \<Rightarrow> time \<Rightarrow> kill_error option"

record Process =
  pr_pid :: int
  pr_runnerPath :: string

type_synonym sent = "(time \<times> int \<times> signal) list"

text \<open>\<open>killTarget\<close> panics on a process id that \<^verbatim>\<open>kill\<close> would take for a group of others.\<close>

definition killTarget :: "Process \<Rightarrow> int go" where
  "killTarget p = (if pr_pid p \<le> 1 then None else Some (- pr_pid p))"

definition isNoSuchProcess :: "kill_error \<Rightarrow> bool" where "isNoSuchProcess e \<longleftrightarrow> e = ESRCH"

definition process_IsAlive :: "process_env \<Rightarrow> Process \<Rightarrow> time \<Rightarrow> bool" where
  "process_IsAlive v p t =
     (if pr_pid p \<le> 0 then False
      else if \<not> pe_signal0 v t then False
      else if pr_runnerPath p \<noteq> [] then IsExpectedProcess (pe_exe v t) (pr_runnerPath p)
      else True)"

section \<open>Stopping\<close>

datatype stop_error = SendTerm kill_error | SendKill kill_error | ContextDone

text \<open>
  The loop over the ticks; \<open>cancel\<close> is the instant at which the context is done, if there is
  one, and \<open>tick\<close> the next tick. The result: the error, the signals sent, and the instant.
\<close>

definition done_by :: "time option \<Rightarrow> time \<Rightarrow> bool" where
  "done_by cancel t = (case cancel of Some c \<Rightarrow> c \<le> t | None \<Rightarrow> False)"

function stop_loop ::
  "process_env \<Rightarrow> Process \<Rightarrow> time option \<Rightarrow> time \<Rightarrow> time \<Rightarrow> (stop_error option \<times> sent \<times> time) go" where
  "stop_loop v p cancel deadline tick =
     (if done_by cancel tick then do {
        target \<leftarrow> killTarget p;
        let t = max (the cancel) (tick - stopPollInterval);
        Some (Some ContextDone, [(t, target, SIGKILL)], t)
      }
      else if \<not> process_IsAlive v p tick then Some (None, [], tick)
      else if deadline < tick then do {
        target \<leftarrow> killTarget p;
        Some (case pe_kill v target SIGKILL tick of
            Some e \<Rightarrow> (if isNoSuchProcess e then None else Some (SendKill e), [(tick, target, SIGKILL)], tick)
          | None \<Rightarrow> (None, [(tick, target, SIGKILL)], tick))
      }
      else stop_loop v p cancel deadline (tick + stopPollInterval))"
  by pat_completeness auto
termination
  by (relation "measure (\<lambda>(v, p, cancel, deadline, tick). nat (deadline + stopPollInterval - tick))")
   (auto simp: stopPollInterval_def millisecond_def)

declare stop_loop.simps [simp del]

definition Process_Stop :: "process_env \<Rightarrow> Process \<Rightarrow> time option \<Rightarrow> time \<Rightarrow> (stop_error option \<times> sent \<times> time) go" where
  "Process_Stop v p cancel now =
     (if \<not> process_IsAlive v p now then Some (None, [], now)
      else if pr_runnerPath p \<noteq> [] \<and> \<not> IsExpectedProcess (pe_exe v now) (pr_runnerPath p) then Some (None, [], now)
      else do {
        target \<leftarrow> killTarget p;
        let term = (now, target, SIGTERM);
        case pe_kill v target SIGTERM now of
          Some e \<Rightarrow> Some (if isNoSuchProcess e then None else Some (SendTerm e), [term], now)
        | None \<Rightarrow> do {
            (err, sent, t) \<leftarrow> stop_loop v p cancel (now + stopTimeout) (now + stopPollInterval);
            Some (err, term # sent, t)
          }
      })"

section \<open>Finding and starting the binary\<close>

record runnerFinder =
  rf_stat :: "string \<Rightarrow> bool"
  rf_lookPath :: "string \<Rightarrow> string option"
  rf_executable :: "string option"

datatype find_error = ExplicitNotFound string | RunnerNotFound

definition find_runner :: "runnerFinder \<Rightarrow> string \<Rightarrow> find_error + string" where
  "find_runner f explicit =
     (if explicit \<noteq> [] then if rf_stat f explicit then Inr explicit else Inl (ExplicitNotFound explicit)
      else case rf_lookPath f runnerBinaryName of
        Some p \<Rightarrow> Inr p
      | None \<Rightarrow>
          (case rf_executable f of
             Some execPath \<Rightarrow>
               let candidate = Join (Dir execPath) runnerBinaryName
               in if rf_stat f candidate then Inr candidate else Inl RunnerNotFound
           | None \<Rightarrow> Inl RunnerNotFound))"

definition libPathEnvVar :: "bool \<Rightarrow> string" where
  "libPathEnvVar darwin = (if darwin then ''DYLD_LIBRARY_PATH'' else ''LD_LIBRARY_PATH'')"

section \<open>Stopping ends\<close>

lemma killTarget_safe: "1 < pr_pid p \<Longrightarrow> killTarget p = Some (- pr_pid p)"
  by (simp add: killTarget_def)

text \<open>How the loop ends: the context is done, the process is seen dead, or it is killed after the deadline.\<close>

lemma stop_loop_ends:
  assumes "1 < pr_pid p" "tick \<le> deadline + stopPollInterval"
  shows "\<exists>err sent t. stop_loop v p cancel deadline tick = Some (err, sent, t) \<and>
    tick - stopPollInterval \<le> t \<and> t \<le> deadline + stopPollInterval \<and>
    (sent = [] \<and> err = None \<and> \<not> process_IsAlive v p t \<or>
     sent = [(t, - pr_pid p, SIGKILL)] \<and>
       (err = Some ContextDone \<and> done_by cancel t \<or>
        err \<noteq> Some ContextDone \<and> deadline < t \<and> process_IsAlive v p t))"
  using assms(2)
proof (induction "nat (deadline + stopPollInterval - tick)" arbitrary: tick rule: less_induct)
  case less
  have pos: "0 < stopPollInterval" by (simp add: stopPollInterval_def millisecond_def)
  note eq = stop_loop.simps [of v p cancel deadline tick] and k = killTarget_safe [OF assms(1)]
  consider (cancelled) "done_by cancel tick" | (dead) "\<not> done_by cancel tick" "\<not> process_IsAlive v p tick"
    | (late) "\<not> done_by cancel tick" "process_IsAlive v p tick" "deadline < tick"
    | (wait) "\<not> done_by cancel tick" "process_IsAlive v p tick" "tick \<le> deadline"
    by (meson not_le)
  then show ?case
  proof cases
    case cancelled
    then obtain c where c: "cancel = Some c" "c \<le> tick" by (cases cancel) (auto simp: done_by_def)
    have "stop_loop v p cancel deadline tick =
        Some (Some ContextDone, [(max c (tick - stopPollInterval), - pr_pid p, SIGKILL)], max c (tick - stopPollInterval))"
      unfolding eq using cancelled c(1) by (simp add: k Let_def)
    then show ?thesis using less(2) pos c by (auto simp: done_by_def)
  next
    case dead
    then show ?thesis using less(2) pos by (auto simp: eq)
  next
    case late
    then show ?thesis using less(2) pos by (auto simp: eq k split: option.split)
  next
    case wait
    then show ?thesis using less(1) [of "tick + stopPollInterval"] pos by (fastforce simp: eq)
  qed
qed

text \<open>A process that dies in time, and whose death is seen, is not killed.\<close>

lemma stop_loop_graceful:
  assumes "\<And>t. d \<le> t \<Longrightarrow> \<not> process_IsAlive v p t" "d \<le> deadline"
  shows "\<exists>t. stop_loop v p None deadline tick = Some (None, [], t)"
proof (induction "nat (deadline + stopPollInterval - tick)" arbitrary: tick rule: less_induct)
  case less
  have pos: "0 < stopPollInterval" by (simp add: stopPollInterval_def millisecond_def)
  show ?case
  proof (cases "process_IsAlive v p tick")
    case True
    then have "tick < d" using assms(1) [of tick] by (cases "d \<le> tick") auto
    then show ?thesis
      using True less [of "tick + stopPollInterval"] pos assms(2) by (simp add: stop_loop.simps [of v p _ _ tick] done_by_def)
  qed (simp add: stop_loop.simps [of v p _ _ tick] done_by_def)
qed

section \<open>Properties of the process handle\<close>

text \<open>
  C10. Stopping a runner always ends: within thirty seconds and one poll interval, whatever the
  process and the caller's context do. A signal goes only to the process group of the runner, the
  first one only while the process is identified as the runner; and when the call returns
  without an error, the process was seen dead or replaced, or its group was sent SIGKILL after
  the thirty seconds.
\<close>

theorem Process_Stop_live:
  assumes "1 < pr_pid p"
  shows "\<exists>err sent t. Process_Stop v p cancel now = Some (err, sent, t) \<and>
    now \<le> t \<and> t \<le> now + stopTimeout + stopPollInterval \<and>
    (\<forall>x \<in> set sent. fst (snd x) = - pr_pid p) \<and>
    (sent \<noteq> [] \<longrightarrow> process_IsAlive v p now \<and> hd sent = (now, - pr_pid p, SIGTERM)) \<and>
    (err = None \<longrightarrow> \<not> process_IsAlive v p t \<or> pe_kill v (- pr_pid p) SIGTERM now = Some ESRCH \<or>
       (t, - pr_pid p, SIGKILL) \<in> set sent \<and> now + stopTimeout < t)"
proof -
  have pos: "0 < stopPollInterval" "0 < stopTimeout"
    by (simp_all add: stopPollInterval_def millisecond_def stopTimeout_def second_def)
  note k = killTarget_safe [OF assms]
  have id: "process_IsAlive v p now \<Longrightarrow> pr_runnerPath p \<noteq> [] \<Longrightarrow> IsExpectedProcess (pe_exe v now) (pr_runnerPath p)"
    by (simp add: process_IsAlive_def split: if_splits)
  consider (dead) "\<not> process_IsAlive v p now"
    | (refused) e where "process_IsAlive v p now" "pe_kill v (- pr_pid p) SIGTERM now = Some e"
    | (sent) "process_IsAlive v p now" "pe_kill v (- pr_pid p) SIGTERM now = None" by fastforce
  then show ?thesis
  proof cases
    case dead
    then show ?thesis using pos by (simp add: Process_Stop_def)
  next
    case (refused e)
    then show ?thesis using pos k id by (auto simp: Process_Stop_def isNoSuchProcess_def)
  next
    case sent
    have "now + stopPollInterval \<le> now + stopTimeout + stopPollInterval" using pos by simp
    from stop_loop_ends [OF assms this, of v cancel] obtain err l t where l:
      "stop_loop v p cancel (now + stopTimeout) (now + stopPollInterval) = Some (err, l, t)"
      "now \<le> t" "t \<le> now + stopTimeout + stopPollInterval"
      "l = [] \<and> err = None \<and> \<not> process_IsAlive v p t \<or> l = [(t, - pr_pid p, SIGKILL)] \<and>
         (err = Some ContextDone \<and> done_by cancel t \<or>
          err \<noteq> Some ContextDone \<and> now + stopTimeout < t \<and> process_IsAlive v p t)" by auto
    have "Process_Stop v p cancel now = Some (err, (now, - pr_pid p, SIGTERM) # l, t)"
      using sent k id l(1) by (auto simp: Process_Stop_def)
    then show ?thesis using l(2-4) sent by auto
  qed
qed

definition demo_process :: Process where
  "demo_process = \<lparr>pr_pid = 42, pr_runnerPath = ''/opt/go-microvm-runner''\<rparr>"

text \<open>A runner that ignores SIGTERM.\<close>

definition stubborn :: process_env where
  "stubborn = \<lparr>pe_signal0 = \<lambda>_. True, pe_exe = \<lambda>_. Some ''/opt/go-microvm-runner (deleted)'', pe_kill = \<lambda>_ _ _. None\<rparr>"

lemma stubborn_alive: "process_IsAlive stubborn demo_process t"
proof -
  have "IsExpectedProcess (Some ''/opt/go-microvm-runner (deleted)'') ''/opt/go-microvm-runner''" by code_simp
  then show ?thesis by (simp add: process_IsAlive_def demo_process_def stubborn_def)
qed

theorem Process_Stop_live_witness:
  "\<exists>err sent t. Process_Stop stubborn demo_process None 0 = Some (err, sent, t) \<and> t \<le> stopTimeout + stopPollInterval \<and>
     (err = None \<longrightarrow> (t, - 42, SIGKILL) \<in> set sent \<and> stopTimeout < t)"
  using Process_Stop_live [of demo_process stubborn None 0] stubborn_alive
  by (simp add: demo_process_def stubborn_def) blast

text \<open>
  A runner that exits within thirty seconds of SIGTERM is never killed: the call returns
  without an error and SIGTERM is all that was sent, unless the caller's context ends first.
\<close>

theorem Process_Stop_graceful:
  assumes "process_IsAlive v p now" "1 < pr_pid p" "pe_kill v (- pr_pid p) SIGTERM now = None"
    and "d \<le> now + stopTimeout" "\<And>t. d \<le> t \<Longrightarrow> \<not> process_IsAlive v p t"
  shows "\<exists>t. Process_Stop v p None now = Some (None, [(now, - pr_pid p, SIGTERM)], t)"
proof -
  have "pr_runnerPath p \<noteq> [] \<Longrightarrow> IsExpectedProcess (pe_exe v now) (pr_runnerPath p)"
    using assms(1) by (simp add: process_IsAlive_def split: if_splits)
  moreover obtain t where "stop_loop v p None (now + stopTimeout) (now + stopPollInterval) = Some (None, [], t)"
    using stop_loop_graceful [OF assms(5,4)] by blast
  ultimately show ?thesis using assms(1,3) killTarget_safe [OF assms(2)] by (auto simp: Process_Stop_def)
qed

definition polite :: process_env where
  "polite = stubborn\<lparr>pe_signal0 := \<lambda>t. t < second\<rparr>"

theorem Process_Stop_graceful_witness:
  "\<exists>t. Process_Stop polite demo_process None 0 = Some (None, [(0, - 42, SIGTERM)], t)"
proof -
  have "process_IsAlive polite demo_process 0"
    using stubborn_alive [of 0] by (auto simp: polite_def process_IsAlive_def stubborn_def second_def split: if_splits)
  moreover have "\<not> process_IsAlive polite demo_process t" if "second \<le> t" for t
    using that by (simp add: polite_def process_IsAlive_def)
  ultimately show ?thesis
    using Process_Stop_graceful [of polite demo_process 0 second]
    by (simp add: demo_process_def polite_def stubborn_def stopTimeout_def second_def)
qed

end
