(* ===== verification/Provider.thy ===== *)
theory Provider
  imports Relay GoPath "HOL-Library.AList" "HOL-Library.Multiset"
begin

text \<open>
  The hosted network provider, \<^verbatim>\<open>net/hosted\<close>: starting and stopping the virtual network
  with its port forwards, services and socket, and building the relay that enforces the firewall
  and the egress policy. The virtual network of \<^verbatim>\<open>gvisor-tap-vsock\<close> and the sockets of
  the host are an argument, the outcome of each call; what is bound on the host is explicit
  state, so that the lemmas can say what a failed start and a stop leave behind.
\<close>

section \<open>Configuration\<close>

text \<open>The constants of \<^verbatim>\<open>net/topology\<close>.\<close>

definition Subnet :: string where "Subnet = ''192.168.127.0/24''"
definition GatewayIP :: string where "GatewayIP = ''192.168.127.1''"
definition GatewayMAC :: string where "GatewayMAC = ''5a:94:ef:e4:0c:ee''"
definition GuestIP :: string where "GuestIP = ''192.168.127.2''"
definition MTU :: nat where "MTU = 1500"

definition gateway :: ip4 where "gateway = (192, 168, 127, 1)"
definition broadcast :: ip4 where "broadcast = (255, 255, 255, 255)"

record PortForward =
  pf_Host :: u16
  pf_Guest :: u16

record EgressHost =
  eh_Name :: string
  eh_Ports :: "u16 list"
  eh_Protocol :: u8

record net_Config =
  LogDir :: string
  Forwards :: "PortForward list"
  FirewallRules :: "Rule list"
  FirewallDefaultAction :: Action
  net_EgressPolicy :: "EgressHost list option"

record Service =
  sv_Port :: u16
  sv_ReadHeaderTimeout :: duration
  sv_ReadTimeout :: duration
  sv_WriteTimeout :: duration
  sv_IdleTimeout :: duration

definition timeoutOrDefault :: "duration \<Rightarrow> duration \<Rightarrow> duration" where
  "timeoutOrDefault user fallback = (if 0 < user then user else fallback)"

definition defaultReadHeaderTimeout :: duration where "defaultReadHeaderTimeout = 10 * second"
definition defaultReadTimeout :: duration where "defaultReadTimeout = 30 * second"
definition defaultWriteTimeout :: duration where "defaultWriteTimeout = 30 * second"
definition defaultIdleTimeout :: duration where "defaultIdleTimeout = 60 * second"

text \<open>The server of a service: its port and the four timeouts it is given.\<close>

definition newHTTPServer :: "Service \<Rightarrow> Service" where
  "newHTTPServer svc =
     svc\<lparr>sv_ReadHeaderTimeout := timeoutOrDefault (sv_ReadHeaderTimeout svc) defaultReadHeaderTimeout,
         sv_ReadTimeout := timeoutOrDefault (sv_ReadTimeout svc) defaultReadTimeout,
         sv_WriteTimeout := timeoutOrDefault (sv_WriteTimeout svc) defaultWriteTimeout,
         sv_IdleTimeout := timeoutOrDefault (sv_IdleTimeout svc) defaultIdleTimeout\<rparr>"

section \<open>The relay of an egress policy\<close>

definition allow_rule :: Rule where "allow_rule = zero_rule\<lparr>Rule_Action := Allow\<rparr>"

definition dns_dhcp_rules :: "Rule list" where
  "dns_dhcp_rules =
     [allow_rule\<lparr>Rule_Direction := Egress, Rule_Protocol := 17, Rule_DstCIDR := host_net gateway, Rule_DstPort := 53\<rparr>,
      allow_rule\<lparr>Rule_Direction := Egress, Rule_Protocol := 17, Rule_DstCIDR := host_net gateway, Rule_DstPort := 67\<rparr>,
      allow_rule\<lparr>Rule_Direction := Egress, Rule_Protocol := 17, Rule_DstCIDR := host_net broadcast, Rule_DstPort := 67\<rparr>,
      allow_rule\<lparr>Rule_Direction := Ingress, Rule_Protocol := 17, Rule_SrcCIDR := host_net gateway, Rule_SrcPort := 67\<rparr>]"

definition forward_rule :: "PortForward \<Rightarrow> Rule" where
  "forward_rule pf = allow_rule\<lparr>Rule_Direction := Ingress, Rule_Protocol := 6, Rule_DstPort := pf_Guest pf\<rparr>"

definition service_rule :: "Service \<Rightarrow> Rule" where
  "service_rule svc =
     allow_rule\<lparr>Rule_Direction := Egress, Rule_Protocol := 6, Rule_DstCIDR := host_net gateway, Rule_DstPort := sv_Port svc\<rparr>"

definition implicit_rules :: "PortForward list \<Rightarrow> Service list \<Rightarrow> Rule list" where
  "implicit_rules fwds svcs = dns_dhcp_rules @ map forward_rule fwds @ map service_rule svcs"

definition host_spec :: "EgressHost \<Rightarrow> HostSpec" where
  "host_spec h = \<lparr>Name = eh_Name h, Ports = eh_Ports h, HostSpec_Protocol = eh_Protocol h\<rparr>"

text \<open>A relay: its filter, and the DNS interceptor when there is a policy.\<close>

record relay_config =
  rc_filter :: Filter
  rc_interceptor :: "DNSInterceptor option"

definition buildEgressRelay :: "net_Config \<Rightarrow> EgressHost list \<Rightarrow> Service list \<Rightarrow> relay_config" where
  "buildEgressRelay cfg allowed svcs =
     \<lparr>rc_filter = NewFilterWithDynamic (implicit_rules (Forwards cfg) svcs @ FirewallRules cfg) Deny (Some NewDynamicRules),
      rc_interceptor = Some (NewDNSInterceptor (NewPolicy (map host_spec allowed)) gateway [])\<rparr>"

definition start_relay :: "net_Config \<Rightarrow> Service list \<Rightarrow> relay_config option" where
  "start_relay cfg svcs =
     (case net_EgressPolicy cfg of
        Some allowed \<Rightarrow> Some (buildEgressRelay cfg allowed svcs)
      | None \<Rightarrow>
          if FirewallRules cfg \<noteq> []
          then Some \<lparr>rc_filter = NewFilter (FirewallRules cfg) (FirewallDefaultAction cfg), rc_interceptor = None\<rparr>
          else None)"

text \<open>
  What \<open>handleConn\<close> does with the frames of a connection: the relay decides on them, or, without
  a relay, the virtual network gets them all.
\<close>

definition conn_run :: "unpack \<Rightarrow> pack \<Rightarrow> relay_config option \<Rightarrow> relay_log \<Rightarrow> bool" where
  "conn_run unpack pack relay log =
     (case relay of
        Some rc \<Rightarrow> (\<exists>f. relay_run (map_option (interceptor_hook unpack pack) (rc_interceptor rc)) (rc_filter rc) log f)
      | None \<Rightarrow> (\<forall>x \<in> set log. snd (snd x) = ForwardFrame))"

section \<open>The provider\<close>

record Provider =
  pv_vn :: bool
  pv_listener :: bool
  sockPath :: string
  pv_relay :: "relay_config option"
  pv_cancel :: bool
  pendingServices :: "Service list"
  runningServices :: "Service list"
  forwardLocals :: "string list"

definition NewProvider :: Provider where
  "NewProvider = \<lparr>pv_vn = False, pv_listener = False, sockPath = [], pv_relay = None, pv_cancel = False,
     pendingServices = [], runningServices = [], forwardLocals = []\<rparr>"

text \<open>What the provider holds on the host: bound forwards, served ports, the socket.\<close>

record host =
  h_forwards :: "string list"
  h_services :: "u16 list"
  h_sockets :: "string list"

text \<open>The outcomes of the calls to the virtual network and to the operating system.\<close>

record net_env =
  ne_new :: bool
  ne_order :: "(string \<times> string) list \<Rightarrow> (string \<times> string) list"
  ne_expose :: "string \<Rightarrow> string \<Rightarrow> bool"
  ne_unexpose :: "string \<Rightarrow> bool"
  ne_listen_service :: "u16 \<Rightarrow> bool"
  ne_remove :: bool
  ne_listen :: bool

datatype provider_error =
  AlreadyStarted | CreateNetwork | ExposeForward string | StartServices nat | RemoveSocket | ListenSocket

text \<open>\<open>AddService\<close> panics once the provider has started.\<close>

definition AddService :: "Service \<Rightarrow> Provider \<Rightarrow> Provider go" where
  "AddService svc p = (if pv_vn p then None else Some (p\<lparr>pendingServices := pendingServices p @ [svc]\<rparr>))"

definition forward_map :: "PortForward list \<Rightarrow> (string \<times> string) list" where
  "forward_map fwds =
     fold (\<lambda>pf m.
       let guestAddr = GuestIP @ '':'' @ decimal (unat (pf_Guest pf))
       in AList.update (''[::1]:'' @ decimal (unat (pf_Host pf))) guestAddr
            (AList.update (''127.0.0.1:'' @ decimal (unat (pf_Host pf))) guestAddr m)) fwds []"

definition exposeForward :: "net_env \<Rightarrow> string \<Rightarrow> string \<Rightarrow> host \<Rightarrow> bool \<times> host" where
  "exposeForward v local remote h =
     (if ne_expose v local remote then (True, h\<lparr>h_forwards := local # h_forwards h\<rparr>) else (False, h))"

text \<open>A forward that cannot be released is logged and stays.\<close>

definition unexposeForwards :: "net_env \<Rightarrow> bool \<Rightarrow> string list \<Rightarrow> host \<Rightarrow> host" where
  "unexposeForwards v vn locals h =
     (if \<not> vn \<or> locals = [] then h
      else h\<lparr>h_forwards := fold (\<lambda>local fs. if ne_unexpose v local then remove1 local fs else fs) locals (h_forwards h)\<rparr>)"

text \<open>The loop over the map of forwards; \<open>bound\<close> grows with each success.\<close>

fun expose_all :: "net_env \<Rightarrow> (string \<times> string) list \<Rightarrow> string list \<Rightarrow> host \<Rightarrow> string option \<times> string list \<times> host" where
  "expose_all v [] bound h = (None, bound, h)"
| "expose_all v ((local, guestAddr) # fwds) bound h =
     (case exposeForward v local guestAddr h of
        (False, h) \<Rightarrow> (Some local, bound, h)
      | (True, h) \<Rightarrow> expose_all v fwds (bound @ [local]) h)"

definition shutdownServices :: "Service list \<Rightarrow> host \<Rightarrow> host" where
  "shutdownServices svcs h = h\<lparr>h_services := fold (\<lambda>s. remove1 (sv_Port s)) svcs (h_services h)\<rparr>"

definition snapshotAndClearServices :: "Provider \<Rightarrow> Service list \<times> Provider" where
  "snapshotAndClearServices p = (runningServices p, p\<lparr>runningServices := []\<rparr>)"

fun start_services :: "net_env \<Rightarrow> Service list \<Rightarrow> nat \<Rightarrow> Provider \<Rightarrow> host \<Rightarrow> nat option \<times> Provider \<times> host" where
  "start_services v [] i p h = (None, p, h)"
| "start_services v (svc # svcs) i p h =
     (if \<not> ne_listen_service v (sv_Port svc)
      then (Some i, p\<lparr>runningServices := [], pv_vn := False\<rparr>, shutdownServices (runningServices p) h)
      else start_services v svcs (Suc i) (p\<lparr>runningServices := runningServices p @ [newHTTPServer svc]\<rparr>)
        (h\<lparr>h_services := sv_Port svc # h_services h\<rparr>))"

definition startServices :: "net_env \<Rightarrow> Provider \<Rightarrow> host \<Rightarrow> nat option \<times> Provider \<times> host" where
  "startServices v p h = start_services v (pendingServices p) 0 p h"

definition socketName :: string where "socketName = ''hosted-net.sock''"

text \<open>The closure \<open>fail\<close> of \<open>Start\<close>, and it after the services have been shut down.\<close>

definition start_fail :: "net_env \<Rightarrow> string list \<Rightarrow> provider_error \<Rightarrow> Provider \<Rightarrow> host \<Rightarrow> provider_error option \<times> Provider \<times> host" where
  "start_fail v bound err p h = (Some err, p\<lparr>forwardLocals := [], pv_vn := False\<rparr>, unexposeForwards v True bound h)"

definition shutdown_fail :: "net_env \<Rightarrow> string list \<Rightarrow> provider_error \<Rightarrow> Provider \<Rightarrow> host \<Rightarrow> provider_error option \<times> Provider \<times> host" where
  "shutdown_fail v bound err p h =
     (case snapshotAndClearServices p of (svcs, p) \<Rightarrow> start_fail v bound err p (shutdownServices svcs h))"

definition provider_Start :: "net_env \<Rightarrow> net_Config \<Rightarrow> Provider \<Rightarrow> host \<Rightarrow> provider_error option \<times> Provider \<times> host" where
  "provider_Start v cfg p h =
     (if pv_vn p then (Some AlreadyStarted, p, h)
      else if \<not> ne_new v then (Some CreateNetwork, p, h)
      else case expose_all v (ne_order v (forward_map (Forwards cfg))) [] h of
        (Some local, bound, h) \<Rightarrow> start_fail v bound (ExposeForward local) p h
      | (None, bound, h) \<Rightarrow>
          (case startServices v (p\<lparr>forwardLocals := bound, pv_vn := True\<rparr>) h of
             (Some i, p, h) \<Rightarrow> shutdown_fail v bound (StartServices i) p h
           | (None, p, h) \<Rightarrow>
               let p = p\<lparr>sockPath := Join (LogDir cfg) socketName\<rparr>
               in if \<not> ne_remove v then shutdown_fail v bound RemoveSocket p h
                  else let h = h\<lparr>h_sockets := removeAll (sockPath p) (h_sockets h)\<rparr>
                    in if \<not> ne_listen v then shutdown_fail v bound ListenSocket p h
                       else let relay = start_relay cfg (pendingServices p)
                         in (None, p\<lparr>pv_listener := True, pv_cancel := True, pv_relay := relay\<rparr>,
                              h\<lparr>h_sockets := sockPath p # h_sockets h\<rparr>)))"

text \<open>
  \<open>Stop\<close>: the fields other than the running services and the forwards keep their values.
  Closing the listener and removing its file release the socket. The goroutines that it cancels
  and waits for are not part of the state.
\<close>

definition provider_Stop :: "net_env \<Rightarrow> Provider \<Rightarrow> host \<Rightarrow> Provider \<times> host" where
  "provider_Stop v p h =
     (case snapshotAndClearServices p of (svcs, p') \<Rightarrow>
        let h = shutdownServices svcs (unexposeForwards v (pv_vn p) (forwardLocals p) h)
        in (p'\<lparr>forwardLocals := []\<rparr>,
            if sockPath p \<noteq> [] then h\<lparr>h_sockets := removeAll (sockPath p) (h_sockets h)\<rparr> else h))"

section \<open>What a start and a stop leave on the host\<close>

lemma fold_remove1_prefix: "mset ys = mset zs \<Longrightarrow> fold remove1 ys (zs @ xs) = xs"
proof (induction ys arbitrary: zs)
  case (Cons y ys)
  then have "y \<in> set zs" by (metis list.set_intros(1) set_mset_mset)
  moreover have "mset ys = mset (remove1 y zs)" using Cons.prems by (metis add_mset_remove_trivial mset.simps(2) mset_remove1)
  ultimately show ?case using Cons.IH [of "remove1 y zs"] by (simp add: remove1_append)
qed simp

lemma unexpose_all:
  assumes "\<And>l. ne_unexpose v l" "h_forwards h = rev bound @ fs"
  shows "unexposeForwards v True bound h = h\<lparr>h_forwards := fs\<rparr>"
  using assms fold_remove1_prefix [of bound "rev bound" fs] by (auto simp: unexposeForwards_def)

lemma expose_all_bound:
  "expose_all v fwds bound h = (r, bound', h') \<Longrightarrow>
   \<exists>new. bound' = bound @ new \<and> h' = h\<lparr>h_forwards := rev new @ h_forwards h\<rparr>"
proof (induction v fwds bound h rule: expose_all.induct)
  case (2 v local g fwds bound h)
  show ?case
  proof (cases "ne_expose v local g")
    case True
    then obtain new where "bound' = (bound @ [local]) @ new"
      "h' = h\<lparr>h_forwards := rev new @ local # h_forwards h\<rparr>"
      using 2 by (fastforce simp: exposeForward_def)
    then show ?thesis by (intro exI [of _ "local # new"]) simp
  qed (use 2 in \<open>simp add: exposeForward_def\<close>)
qed simp

lemma server_port [simp]: "sv_Port (newHTTPServer svc) = sv_Port svc"
  by (simp add: newHTTPServer_def)

lemma shutdown_all:
  assumes "h_services h = rev (map sv_Port svcs) @ base"
  shows "shutdownServices svcs h = h\<lparr>h_services := base\<rparr>"
proof -
  have "fold (\<lambda>s. remove1 (sv_Port s)) svcs xs = fold remove1 (map sv_Port svcs) xs" for xs
    by (simp add: fold_map comp_def)
  then show ?thesis
    using assms fold_remove1_prefix [of "map sv_Port svcs" "rev (map sv_Port svcs)" base]
    by (simp add: shutdownServices_def)
qed

lemma start_services_ports:
  assumes "start_services v svcs i p h = (r, p', h')" "h_services h = rev (map sv_Port (runningServices p)) @ base"
  shows "\<exists>b rs. p' = p\<lparr>runningServices := rs, pv_vn := b\<rparr> \<and> (b \<longleftrightarrow> r = None \<and> pv_vn p) \<and>
    h' = h\<lparr>h_services := rev (map sv_Port rs) @ base\<rparr> \<and> (r \<noteq> None \<longrightarrow> rs = [])"
  using assms
proof (induction v svcs i p h rule: start_services.induct)
  case (1 v i p h)
  then show ?case by (intro exI [of _ "pv_vn p"] exI [of _ "runningServices p"]) auto
next
  case (2 v svc svcs i p h)
  show ?case
  proof (cases "ne_listen_service v (sv_Port svc)")
    case True
    then show ?thesis using 2(1) [OF _ ] 2(2,3) by fastforce
  next
    case False
    then show ?thesis using 2(2) shutdown_all [OF 2(3)] by auto
  qed
qed

text \<open>The three outcomes of a start.\<close>

lemma Start_outcome:
  assumes "provider_Start v cfg p h = (err, p', h')" "\<not> pv_vn p" "runningServices p = []" "\<And>l. ne_unexpose v l"
  shows "err \<noteq> None \<and> \<not> pv_vn p' \<and> runningServices p' = [] \<and> pendingServices p' = pendingServices p \<and>
      h_forwards h' = h_forwards h \<and> h_services h' = h_services h \<and> set (h_sockets h') \<subseteq> set (h_sockets h) \<or>
    err = None \<and> pv_vn p' \<and> pv_relay p' = start_relay cfg (pendingServices p) \<and>
      sockPath p' = Join (LogDir cfg) socketName \<and>
      h_forwards h' = rev (forwardLocals p') @ h_forwards h \<and>
      h_services h' = rev (map sv_Port (runningServices p')) @ h_services h \<and>
      h_sockets h' = sockPath p' # removeAll (sockPath p') (h_sockets h)"
proof (cases "ne_new v")
  case True
  obtain r bound h1 where e: "expose_all v (ne_order v (forward_map (Forwards cfg))) [] h = (r, bound, h1)"
    by (metis prod_cases3)
  have h1: "h1 = h\<lparr>h_forwards := rev bound @ h_forwards h\<rparr>" using expose_all_bound [OF e] by auto
  note un = unexpose_all [OF assms(4)]
  show ?thesis
  proof (cases r)
    case (Some local)
    then show ?thesis using assms(1-3) True e h1 un [of h1 bound "h_forwards h"] by (auto simp: provider_Start_def start_fail_def)
  next
    case None
    let ?p = "p\<lparr>forwardLocals := bound, pv_vn := True\<rparr>"
    obtain r2 p2 h2 where s: "start_services v (pendingServices ?p) 0 ?p h1 = (r2, p2, h2)" by (metis prod_cases3)
    have "h_services h1 = rev (map sv_Port (runningServices ?p)) @ h_services h" using assms(3) h1 by simp
    from start_services_ports [OF s this] obtain rs where p2:
      "p2 = ?p\<lparr>runningServices := rs, pv_vn := (r2 = None)\<rparr>" "h2 = h1\<lparr>h_services := rev (map sv_Port rs) @ h_services h\<rparr>"
      "r2 \<noteq> None \<longrightarrow> rs = []" by auto
    have sd: "shutdownServices rs (h2\<lparr>h_sockets := x\<rparr>) = h2\<lparr>h_sockets := x, h_services := h_services h\<rparr>" for x
      using shutdown_all [of "h2\<lparr>h_sockets := x\<rparr>" rs "h_services h"] p2(2) by simp
    have sd0: "shutdownServices rs h2 = h2\<lparr>h_services := h_services h\<rparr>"
      using shutdown_all [of h2 rs "h_services h"] p2(2) by simp
    have f: "h_forwards (h2\<lparr>h_sockets := x, h_services := h_services h\<rparr>) = rev bound @ h_forwards h"
      "h_forwards (h2\<lparr>h_services := h_services h\<rparr>) = rev bound @ h_forwards h" for x
      using p2(2) h1 by simp_all
    show ?thesis
    proof (cases r2)
      case (Some i)
      then show ?thesis using assms(1-3) True e None s p2 h1 sd0 un [OF f(2)]
        by (auto simp: provider_Start_def startServices_def shutdown_fail_def start_fail_def snapshotAndClearServices_def)
    next
      case N: None
      consider "\<not> ne_remove v" | "ne_remove v" "\<not> ne_listen v" | "ne_remove v" "ne_listen v" by blast
      then show ?thesis
      proof cases
        case 1
        then show ?thesis using assms(1-3) True e None N s p2(1) sd0 un [OF f(2)] p2(2) h1
          by (auto simp: provider_Start_def startServices_def shutdown_fail_def start_fail_def snapshotAndClearServices_def Let_def)
      next
        case 2
        then show ?thesis using assms(1-3) True e None N s p2(1) sd un [OF f(1)] p2(2) h1
          by (auto simp: provider_Start_def startServices_def shutdown_fail_def start_fail_def snapshotAndClearServices_def Let_def)
      next
        case 3
        then show ?thesis using assms(1-3) True e None N s p2 h1
          by (auto simp: provider_Start_def startServices_def Let_def)
      qed
    qed
  qed
qed (use assms in \<open>auto simp: provider_Start_def\<close>)

section \<open>What the rules of a policy admit\<close>

text \<open>
  The traffic that a relay with an egress policy admits without looking at the user's rules:
  DNS and DHCP with the gateway, hosted services on the gateway, and connections to forwarded ports.
\<close>

definition infrastructure :: "PortForward list \<Rightarrow> Service list \<Rightarrow> Direction \<Rightarrow> PacketHeader \<Rightarrow> bool" where
  "infrastructure fwds svcs dir h \<longleftrightarrow>
     (case dir of
        Egress \<Rightarrow>
          Protocol h = 17 \<and> (DstIP h = gateway \<and> DstPort h \<in> {53, 67} \<or> DstIP h = broadcast \<and> DstPort h = 67) \<or>
          Protocol h = 6 \<and> DstIP h = gateway \<and> (\<exists>s \<in> set svcs. sv_Port s = 0 \<or> DstPort h = sv_Port s)
      | Ingress \<Rightarrow>
          Protocol h = 17 \<and> SrcIP h = gateway \<and> SrcPort h = 67 \<or>
          Protocol h = 6 \<and> (\<exists>f \<in> set fwds. pf_Guest f = 0 \<or> DstPort h = pf_Guest f))"

lemma first_match_allow_all:
  "\<forall>r \<in> set rs. Rule_Action r = Allow \<Longrightarrow>
   first_match dir h (rs @ rs') = (if \<exists>r \<in> set rs. Matches r dir h then Some Allow else first_match dir h rs')"
  by (induction rs) auto

lemma implicit_rules_allow: "\<forall>r \<in> set (implicit_rules fwds svcs). Rule_Action r = Allow"
  by (auto simp: implicit_rules_def dns_dhcp_rules_def forward_rule_def service_rule_def allow_rule_def)

lemma matches_forward_rule:
  "Matches (forward_rule f) dir h \<longleftrightarrow> dir = Ingress \<and> Protocol h = 6 \<and> (pf_Guest f = 0 \<or> DstPort h = pf_Guest f)"
  by (auto simp: Matches_def forward_rule_def allow_rule_def zero_rule_def)

lemma matches_service_rule:
  "Matches (service_rule s) dir h \<longleftrightarrow>
   dir = Egress \<and> Protocol h = 6 \<and> DstIP h = gateway \<and> (sv_Port s = 0 \<or> DstPort h = sv_Port s)"
  by (auto simp: Matches_def service_rule_def allow_rule_def zero_rule_def cidrMatchesIP_host)

lemma matches_dns_dhcp:
  "(\<exists>r \<in> set dns_dhcp_rules. Matches r dir h) \<longleftrightarrow> Protocol h = 17 \<and>
     (dir = Egress \<and> (DstIP h = gateway \<and> DstPort h \<in> {53, 67} \<or> DstIP h = broadcast \<and> DstPort h = 67) \<or>
      dir = Ingress \<and> SrcIP h = gateway \<and> SrcPort h = 67)"
  by (auto simp: Matches_def dns_dhcp_rules_def allow_rule_def zero_rule_def cidrMatchesIP_host)

lemma implicit_rules_admit:
  "(\<exists>r \<in> set (implicit_rules fwds svcs). Matches r dir h) \<longleftrightarrow> infrastructure fwds svcs dir h"
proof -
  have "(\<exists>r \<in> set (implicit_rules fwds svcs). Matches r dir h) \<longleftrightarrow> (\<exists>r \<in> set dns_dhcp_rules. Matches r dir h) \<or>
      (\<exists>f \<in> set fwds. Matches (forward_rule f) dir h) \<or> (\<exists>s \<in> set svcs. Matches (service_rule s) dir h)"
    unfolding implicit_rules_def by auto
  then show ?thesis
    unfolding matches_dns_dhcp matches_forward_rule matches_service_rule
    by (cases dir) (auto simp: infrastructure_def)
qed

lemma first_match_policy:
  "first_match dir h (implicit_rules fwds svcs @ rules) =
   (if infrastructure fwds svcs dir h then Some Allow else first_match dir h rules)"
  using first_match_allow_all [OF implicit_rules_allow] implicit_rules_admit by simp

lemma policy_interceptor:
  "di_policy (NewDNSInterceptor p g []) = p" "gatewayIP (NewDNSInterceptor p g []) = g"
  by (simp_all add: NewDNSInterceptor_def)

text \<open>
  What an egress policy lets through when a frame comes: the infrastructure, and going out the
  addresses that the gateway has given before for allowed names, on the allowed ports.
\<close>

definition policy_reaches ::
  "unpack \<Rightarrow> PortForward list \<Rightarrow> Service list \<Rightarrow> EgressHost list \<Rightarrow> relay_log \<Rightarrow> Direction \<Rightarrow> PacketHeader \<Rightarrow> bool" where
  "policy_reaches unpack fwds svcs allowed log dir h \<longleftrightarrow>
     infrastructure fwds svcs dir h \<or>
     dir = Egress \<and>
       learned (interceptor_opens unpack (NewDNSInterceptor (NewPolicy (map host_spec allowed)) gateway [])) log h"

lemma admitted_policy:
  "admitted (interceptor_opens unpack (NewDNSInterceptor (NewPolicy (map host_spec allowed)) gateway []))
     (implicit_rules fwds svcs) log dir h \<longleftrightarrow> policy_reaches unpack fwds svcs allowed log dir h"
  using first_match_policy [of dir h fwds svcs "[]"] by (auto simp: admitted_def policy_reaches_def)

section \<open>Properties of the provider\<close>

text \<open>
  C2. With an egress policy and no firewall rules of the user, the virtual machine reaches
  nothing but what the policy names. Every IPv4 frame that a connection of the provider lets
  through is infrastructure traffic (DNS and DHCP with the gateway, the hosted services, the
  forwarded ports), or goes out to an address that the gateway's DNS server has given for an allowed
  name with an allowed protocol and port, or belongs to a flow of which such a frame passed before.
\<close>

theorem provider_egress_policy:
  assumes "provider_Start v cfg p h = (None, p', h')" "\<not> pv_vn p" "runningServices p = []" "\<And>l. ne_unexpose v l"
    and "net_EgressPolicy cfg = Some allowed" "FirewallRules cfg = []"
    and "conn_run unpack pack (pv_relay p') log" "i < length log" "log ! i = (dir, frame, ForwardFrame)"
    and "ParseHeaders frame = Some (Some pkt)"
  shows "policy_reaches unpack (Forwards cfg) (pendingServices p) allowed (take i log) dir pkt \<or>
    (\<exists>j < i. \<exists>dir' frame' pkt'. log ! j = (dir', frame', ForwardFrame) \<and> ParseHeaders frame' = Some (Some pkt') \<and>
       same_flow pkt pkt' \<and> policy_reaches unpack (Forwards cfg) (pendingServices p) allowed (take j log) dir' pkt')"
proof -
  let ?rules = "implicit_rules (Forwards cfg) (pendingServices p)"
  let ?d = "NewDNSInterceptor (NewPolicy (map host_spec allowed)) gateway []"
  let ?mo = "interceptor_opens unpack ?d"
  have "pv_relay p' = start_relay cfg (pendingServices p)" using Start_outcome [OF assms(1-4)] by simp
  then obtain f where r: "relay_run (Some (interceptor_hook unpack pack ?d))
      (NewFilterWithDynamic ?rules Deny (Some NewDynamicRules)) log f"
    using assms(5-7) by (auto simp: conn_run_def start_relay_def buildEgressRelay_def)
  have a: "admitted ?mo ?rules (take i log) dir pkt \<or> flow_opened ?mo ?rules (take i log) pkt"
    using icpt.relay_run_inv [OF r relay_inv_init, THEN conjunct2, rule_format, OF assms(8-10)] .
  have "\<exists>j < i. \<exists>dir' frame' pkt'. log ! j = (dir', frame', ForwardFrame) \<and> ParseHeaders frame' = Some (Some pkt') \<and>
       same_flow pkt pkt' \<and> admitted ?mo ?rules (take j log) dir' pkt'"
    if fo: "flow_opened ?mo ?rules (take i log) pkt"
  proof -
    obtain j dir' frame' pkt' where j: "j < length (take i log)" "take i log ! j = (dir', frame', ForwardFrame)"
      "ParseHeaders frame' = Some (Some pkt')" "same_flow pkt pkt'" "admitted ?mo ?rules (take j (take i log)) dir' pkt'"
      using fo unfolding flow_opened_def by metis
    then have "j < i" "log ! j = (dir', frame', ForwardFrame)" "take j (take i log) = take j log" by simp_all
    then show ?thesis using j(3-5) by metis
  qed
  then show ?thesis using a unfolding admitted_policy by blast
qed

definition policy_config :: net_Config where
  "policy_config = \<lparr>LogDir = ''/data'', Forwards = [\<lparr>pf_Host = 8080, pf_Guest = 80\<rparr>], FirewallRules = [],
     FirewallDefaultAction = Deny, net_EgressPolicy = Some [\<lparr>eh_Name = ''example.com'', eh_Ports = [443], eh_Protocol = 6\<rparr>]\<rparr>"

definition calm_net :: net_env where
  "calm_net = \<lparr>ne_new = True, ne_order = \<lambda>x. x, ne_expose = \<lambda>_ _. True, ne_unexpose = \<lambda>_. True,
     ne_listen_service = \<lambda>_. True, ne_remove = True, ne_listen = True\<rparr>"

definition bare_host :: host where
  "bare_host = \<lparr>h_forwards = [], h_services = [], h_sockets = []\<rparr>"


text \<open>A DHCP request to the gateway.\<close>

definition dhcp_frame :: bytes where
  "dhcp_frame =
     [1, 2, 3, 4, 5, 6, 7, 8, 9, 10, 11, 12, 8, 0,
      0x45, 0, 0, 28, 0, 0, 0, 0, 64, 17, 0, 0, 192, 168, 127, 2, 192, 168, 127, 1, 0, 68, 0, 67, 0, 8, 0, 0]"

definition dhcp_header :: PacketHeader where
  "dhcp_header = \<lparr>SrcIP = (192, 168, 127, 2), DstIP = (192, 168, 127, 1), Protocol = 17, SrcPort = 68, DstPort = 67\<rparr>"

lemma dhcp_parses: "ParseHeaders dhcp_frame = Some (Some dhcp_header)"
  by (simp add: ParseHeaders_def dhcp_frame_def dhcp_header_def ihl_of_def be16_def ip4_of_def byte_or_zero_def Let_def)

lemma dhcp_infrastructure: "infrastructure fwds svcs Egress dhcp_header"
  by (simp add: infrastructure_def dhcp_header_def gateway_def)

lemma dhcp_run:
  "conn_run unpack pack (start_relay policy_config svcs) [(Egress, dhcp_frame, ForwardFrame)]"
proof -
  let ?d = "NewDNSInterceptor (NewPolicy (map host_spec [\<lparr>eh_Name = ''example.com'', eh_Ports = [443], eh_Protocol = 6\<rparr>])) gateway []"
  let ?hk = "Some (interceptor_hook unpack pack ?d)"
  let ?f = "NewFilterWithDynamic (implicit_rules (Forwards policy_config) svcs @ []) Deny (Some NewDynamicRules)"
  have "dns_stage ?hk (\<lambda>_. 0) Egress dhcp_frame (Some dhcp_header) ?f = Some (None, ?f)"
    by (simp add: dns_stage_def dhcp_header_def)
  moreover have "fst (Verdict 0 0 0 ?f Egress dhcp_header) = Allow"
    using first_match_policy [of Egress dhcp_header "Forwards policy_config" svcs "[]"] dhcp_infrastructure
    by (simp add: Verdict_def NewFilterWithDynamic_def)
  moreover from this obtain f2 where "Verdict 0 0 0 ?f Egress dhcp_header = (Allow, f2)" by (metis prod.collapse)
  ultimately have "relay_decide ?hk sample_env Egress dhcp_frame ?f = Some (ForwardFrame, f2)"
    using dhcp_parses by (simp add: relay_decide_def sample_env_def)
  from run_frame [OF run_start this] show ?thesis
    by (auto simp: conn_run_def start_relay_def buildEgressRelay_def policy_config_def)
qed

lemma calm_expose: "fst (expose_all calm_net fwds bound h) = None"
  by (induction fwds arbitrary: bound h) (auto simp: exposeForward_def calm_net_def)

lemma calm_start:
  "\<exists>p' h'. provider_Start calm_net cfg NewProvider bare_host = (None, p', h') \<and> pv_relay p' = start_relay cfg []"
proof -
  obtain bound h1 where e: "expose_all calm_net (forward_map (Forwards cfg)) [] bare_host = (None, bound, h1)"
    using calm_expose [of "forward_map (Forwards cfg)" "[]" bare_host] by (metis prod.collapse)
  show ?thesis
    using e by (simp add: provider_Start_def startServices_def Let_def NewProvider_def calm_net_def)
qed

theorem provider_egress_policy_witness:
  "policy_reaches (\<lambda>_. None) (Forwards policy_config) [] [\<lparr>eh_Name = ''example.com'', eh_Ports = [443], eh_Protocol = 6\<rparr>]
     [] Egress dhcp_header"
proof -
  obtain p' h' where s: "provider_Start calm_net policy_config NewProvider bare_host = (None, p', h')"
    "pv_relay p' = start_relay policy_config []" using calm_start by blast
  have "conn_run (\<lambda>_. None) (\<lambda>_. None) (pv_relay p') [(Egress, dhcp_frame, ForwardFrame)]"
    unfolding s(2) by (rule dhcp_run)
  from provider_egress_policy [OF s(1) _ _ _ _ _ this, of "[\<lparr>eh_Name = ''example.com'', eh_Ports = [443], eh_Protocol = 6\<rparr>]" 0]
  show ?thesis using dhcp_parses by (simp add: NewProvider_def calm_net_def policy_config_def)
qed




end
