(* ===== verification/Runner.thy ===== *)
theory Runner
  imports Process Provider
begin

text \<open>
  From the configuration of a virtual machine to the calls of libkrun: the libkrun backend of
  \<^verbatim>\<open>hypervisor/libkrun\<close>, the configuration that \<^verbatim>\<open>runner\<close> passes to the
  helper process as JSON, and the helper itself, \<^verbatim>\<open>runner/cmd\<close>, with the bindings of
  \<^verbatim>\<open>krun\<close>. JSON is modelled as values, with the tags and the \<^verbatim>\<open>omitempty\<close>
  options of the two structures; its text is the business of \<^verbatim>\<open>encoding/json\<close>. What
  libkrun answers is an argument, and every call made to it is recorded.
\<close>

section \<open>hypervisor/backend.go\<close>

record VsockPort =
  vp_Port :: u32
  vp_SocketPath :: string

record FilesystemMount =
  fm_Tag :: string
  fm_HostPath :: string
  fm_ReadOnly :: bool

record InitConfig =
  ic_Cmd :: "string list"
  ic_Env :: "string list"
  ic_WorkingDir :: string

datatype NetEndpointType = NetEndpointNone | NetEndpointUnixSocket | NetEndpointNamedPipe | NetEndpointHVSocket

record NetEndpoint =
  ep_Type :: NetEndpointType
  ep_Path :: string

record VMConfig =
  vc_Name :: string
  vc_RootFSPath :: string
  vc_NumVCPUs :: u32
  vc_RAMMiB :: u32
  vc_PortForwards :: "PortForward list"
  vc_FilesystemMounts :: "FilesystemMount list"
  vc_DataDisks :: "string list"
  vc_VsockPorts :: "VsockPort list"
  vc_InitConfig :: InitConfig
  vc_DataDir :: string
  vc_ConsoleLogPath :: string
  vc_LogLevel :: u32
  vc_NetEndpoint :: NetEndpoint

section \<open>runner/config.go\<close>

record UserNamespaceConfig =
  ns_UID :: u32
  ns_GID :: u32

record runner_Config =
  rc_RootPath :: string
  rc_NumVCPUs :: u32
  rc_RAMMiB :: u32
  rc_NetSocket :: string
  rc_PortForwards :: "PortForward list"
  rc_VirtioFS :: "FilesystemMount list"
  rc_DataDisks :: "string list"
  rc_VsockPorts :: "VsockPort list"
  rc_ConsoleLog :: string
  rc_LogLevel :: u32
  rc_LibDir :: string
  rc_RunnerPath :: string
  rc_VMLogPath :: string
  rc_UserNamespace :: "UserNamespaceConfig option"

datatype json = JNull | JString string | JNum int | JBool bool | JArr "json list" | JObj "(string \<times> json) list"

text \<open>A field, and a field that is left out when it has its zero value.\<close>

definition json_field :: "string \<Rightarrow> json \<Rightarrow> (string \<times> json) list" where
  "json_field tag v = [(tag, v)]"

definition json_omitempty :: "string \<Rightarrow> json \<Rightarrow> (string \<times> json) list" where
  "json_omitempty tag v =
     (if v = JString [] \<or> v = JNum 0 \<or> v = JBool False \<or> v = JArr [] then [] else [(tag, v)])"

definition json_forward :: "PortForward \<Rightarrow> json" where
  "json_forward p = JObj [(''host'', JNum (uint (pf_Host p))), (''guest'', JNum (uint (pf_Guest p)))]"

definition json_mount :: "FilesystemMount \<Rightarrow> json" where
  "json_mount m = JObj (json_field ''tag'' (JString (fm_Tag m)) @ json_field ''path'' (JString (fm_HostPath m)) @
     json_omitempty ''read_only'' (JBool (fm_ReadOnly m)))"

definition json_vsock :: "VsockPort \<Rightarrow> json" where
  "json_vsock p = JObj [(''port'', JNum (uint (vp_Port p))), (''socket_path'', JString (vp_SocketPath p))]"

definition marshal_config :: "runner_Config \<Rightarrow> json" where
  "marshal_config c = JObj (
     json_field ''root_path'' (JString (rc_RootPath c)) @
     json_field ''num_vcpus'' (JNum (uint (rc_NumVCPUs c))) @
     json_field ''ram_mib'' (JNum (uint (rc_RAMMiB c))) @
     json_omitempty ''net_sock_path'' (JString (rc_NetSocket c)) @
     json_omitempty ''port_forwards'' (JArr (map json_forward (rc_PortForwards c))) @
     json_omitempty ''virtiofs_mounts'' (JArr (map json_mount (rc_VirtioFS c))) @
     json_omitempty ''data_disks'' (JArr (map JString (rc_DataDisks c))) @
     json_omitempty ''vsock_ports'' (JArr (map json_vsock (rc_VsockPorts c))) @
     json_omitempty ''console_log_path'' (JString (rc_ConsoleLog c)) @
     json_omitempty ''log_level'' (JNum (uint (rc_LogLevel c))))"

section \<open>The backend\<close>

record Backend =
  be_runnerPath :: string
  be_libDir :: string
  be_runtime :: bool
  be_firmware :: bool
  be_cacheDir :: string
  be_userNamespace :: "UserNamespaceConfig option"

definition NewBackend :: "(Backend \<Rightarrow> Backend) list \<Rightarrow> Backend" where
  "NewBackend opts = fold (\<lambda>o' b. o' b) opts
     \<lparr>be_runnerPath = [], be_libDir = [], be_runtime = False, be_firmware = False, be_cacheDir = [], be_userNamespace = None\<rparr>"

definition WithRunnerPath :: "string \<Rightarrow> Backend \<Rightarrow> Backend" where "WithRunnerPath p b = b\<lparr>be_runnerPath := p\<rparr>"
definition WithLibDir :: "string \<Rightarrow> Backend \<Rightarrow> Backend" where "WithLibDir d b = b\<lparr>be_libDir := d\<rparr>"
definition WithCacheDir :: "string \<Rightarrow> Backend \<Rightarrow> Backend" where "WithCacheDir d b = b\<lparr>be_cacheDir := d\<rparr>"
definition WithRuntime :: "Backend \<Rightarrow> Backend" where "WithRuntime b = b\<lparr>be_runtime := True\<rparr>"
definition WithFirmware :: "Backend \<Rightarrow> Backend" where "WithFirmware b = b\<lparr>be_firmware := True\<rparr>"
definition WithUserNamespaceUID :: "u32 \<Rightarrow> u32 \<Rightarrow> Backend \<Rightarrow> Backend" where
  "WithUserNamespaceUID uid gid b = b\<lparr>be_userNamespace := Some \<lparr>ns_UID = uid, ns_GID = gid\<rparr>\<rparr>"

datatype backend_error =
  RuntimeAndRunnerPath | RuntimeAndLibDir | ResolveRuntime | RunnerMissing string | ResolveFirmware | SpawnRunner

definition backend_validate :: "Backend \<Rightarrow> backend_error option" where
  "backend_validate b =
     (if be_runtime b \<and> be_runnerPath b \<noteq> [] then Some RuntimeAndRunnerPath
      else if be_runtime b \<and> be_libDir b \<noteq> [] then Some RuntimeAndLibDir
      else None)"

definition toRunnerPortForwards :: "PortForward list \<Rightarrow> PortForward list" where
  "toRunnerPortForwards ps = map (\<lambda>p. \<lparr>pf_Host = pf_Host p, pf_Guest = pf_Guest p\<rparr>) ps"

definition toRunnerVirtioFS :: "FilesystemMount list \<Rightarrow> FilesystemMount list" where
  "toRunnerVirtioFS ms = map (\<lambda>m. \<lparr>fm_Tag = fm_Tag m, fm_HostPath = fm_HostPath m, fm_ReadOnly = fm_ReadOnly m\<rparr>) ms"

definition toRunnerVsockPorts :: "VsockPort list \<Rightarrow> VsockPort list" where
  "toRunnerVsockPorts ps =
     (if ps = [] then [] else map (\<lambda>p. \<lparr>vp_Port = vp_Port p, vp_SocketPath = vp_SocketPath p\<rparr>) ps)"

text \<open>
  What \<open>Start\<close> meets: the directories that the runtime and firmware sources provide, and
  whether a file exists.
\<close>

record backend_env =
  bk_runtime :: "string option"
  bk_firmware :: "string option"
  bk_stat :: "string \<Rightarrow> bool"

definition resolve_runtime :: "backend_env \<Rightarrow> Backend \<Rightarrow> backend_error + string \<times> string" where
  "resolve_runtime v b =
     (if \<not> be_runtime b then Inr (be_runnerPath b, be_libDir b)
      else case bk_runtime v of
        None \<Rightarrow> Inl ResolveRuntime
      | Some runtimeDir \<Rightarrow>
          let candidate = Join runtimeDir runnerBinaryName
          in if bk_stat v candidate then Inr (candidate, runtimeDir) else Inl (RunnerMissing candidate))"

definition resolve_firmware :: "backend_env \<Rightarrow> Backend \<Rightarrow> string \<Rightarrow> backend_error + string" where
  "resolve_firmware v b libDir =
     (if \<not> be_firmware b then Inr libDir
      else case bk_firmware v of
        None \<Rightarrow> Inl ResolveFirmware
      | Some fwDir \<Rightarrow> Inr (if libDir \<noteq> [] then libDir @ '':'' @ fwDir else fwDir))"

definition backend_config :: "Backend \<Rightarrow> string \<Rightarrow> string \<Rightarrow> VMConfig \<Rightarrow> runner_Config" where
  "backend_config b runnerPath libDir cfg =
     \<lparr>rc_RootPath = vc_RootFSPath cfg, rc_NumVCPUs = vc_NumVCPUs cfg, rc_RAMMiB = vc_RAMMiB cfg,
      rc_NetSocket = (if ep_Type (vc_NetEndpoint cfg) = NetEndpointUnixSocket then ep_Path (vc_NetEndpoint cfg) else []),
      rc_PortForwards = toRunnerPortForwards (vc_PortForwards cfg),
      rc_VirtioFS = toRunnerVirtioFS (vc_FilesystemMounts cfg), rc_DataDisks = vc_DataDisks cfg,
      rc_VsockPorts = toRunnerVsockPorts (vc_VsockPorts cfg), rc_ConsoleLog = vc_ConsoleLogPath cfg,
      rc_LogLevel = vc_LogLevel cfg, rc_LibDir = libDir, rc_RunnerPath = runnerPath,
      rc_VMLogPath = Join (vc_DataDir cfg) ''vm.log'', rc_UserNamespace = be_userNamespace b\<rparr>"

text \<open>\<open>spawner\<close> is the runner.Spawner of the backend.\<close>

definition backend_Start ::
  "(runner_Config \<Rightarrow> 'p option) \<Rightarrow> backend_env \<Rightarrow> Backend \<Rightarrow> VMConfig \<Rightarrow> backend_error + 'p" where
  "backend_Start spawner v b cfg =
     (case backend_validate b of
        Some e \<Rightarrow> Inl e
      | None \<Rightarrow>
          (case resolve_runtime v b of
             Inl e \<Rightarrow> Inl e
           | Inr (runnerPath, libDir) \<Rightarrow>
               (case resolve_firmware v b libDir of
                  Inl e \<Rightarrow> Inl e
                | Inr libDir \<Rightarrow>
                    (case spawner (backend_config b runnerPath libDir cfg) of
                       None \<Rightarrow> Inl SpawnRunner
                     | Some proc \<Rightarrow> Inr proc))))"

section \<open>runner/spawn.go\<close>

record Cmd =
  cm_path :: string
  cm_arg :: json
  cm_setsid :: bool
  cm_newuser :: bool
  cm_uid_map :: "(int \<times> int \<times> int) list"
  cm_gid_map :: "(int \<times> int \<times> int) list"
  cm_env :: "string list option"
  cm_log :: "string option"

datatype start_error = EPERM | EINVAL | StartOther

datatype spawn_error = SpawnFind find_error | OpenLog | StartProcess start_error | UserNamespaces start_error

text \<open>
  The identity and the environment of the calling process, whether the log file can be
  opened, and what starting a command gives: the process id of the child.
\<close>

record spawn_env =
  sp_uid :: u32
  sp_gid :: u32
  sp_environ :: "string list"
  sp_open :: "string \<Rightarrow> bool"
  sp_start :: "Cmd \<Rightarrow> start_error + int"

definition applyUserNamespace :: "spawn_env \<Rightarrow> UserNamespaceConfig option \<Rightarrow> Cmd \<Rightarrow> Cmd" where
  "applyUserNamespace v ns cmd =
     (case ns of
        None \<Rightarrow> cmd
      | Some n \<Rightarrow> cmd\<lparr>cm_newuser := True, cm_uid_map := [(uint (ns_UID n), uint (sp_uid v), 1)],
          cm_gid_map := [(uint (ns_GID n), uint (sp_gid v), 1)]\<rparr>)"

definition isPermissionError :: "start_error \<Rightarrow> bool" where
  "isPermissionError e \<longleftrightarrow> e = EPERM \<or> e = EINVAL"

definition runner_cmd :: "spawn_env \<Rightarrow> string \<Rightarrow> runner_Config \<Rightarrow> Cmd" where
  "runner_cmd v runnerPath cfg =
     (let cmd = \<lparr>cm_path = runnerPath, cm_arg = marshal_config cfg, cm_setsid = True, cm_newuser = False,
        cm_uid_map = [], cm_gid_map = [], cm_env = None, cm_log = None\<rparr>;
          cmd = applyUserNamespace v (rc_UserNamespace cfg) cmd;
          cmd = (if rc_LibDir cfg \<noteq> []
                 then cmd\<lparr>cm_env := Some (sp_environ v @ [libPathEnvVar False @ ''='' @ rc_LibDir cfg])\<rparr> else cmd)
      in if rc_VMLogPath cfg \<noteq> [] then cmd\<lparr>cm_log := Some (rc_VMLogPath cfg)\<rparr> else cmd)"

definition SpawnProcess :: "runnerFinder \<Rightarrow> spawn_env \<Rightarrow> runner_Config \<Rightarrow> spawn_error + Process \<times> Cmd" where
  "SpawnProcess finder v cfg =
     (case find_runner finder (rc_RunnerPath cfg) of
        Inl e \<Rightarrow> Inl (SpawnFind e)
      | Inr runnerPath \<Rightarrow>
          if rc_VMLogPath cfg \<noteq> [] \<and> \<not> sp_open v (rc_VMLogPath cfg) then Inl OpenLog
          else let cmd = runner_cmd v runnerPath cfg
            in case sp_start v cmd of
                 Inl e \<Rightarrow>
                   Inl (if rc_UserNamespace cfg \<noteq> None \<and> isPermissionError e then UserNamespaces e else StartProcess e)
               | Inr pid \<Rightarrow> Inr (\<lparr>pr_pid = pid, pr_runnerPath = runnerPath\<rparr>, cmd))"

section \<open>The helper: configuration\<close>

record main_Config =
  mc_RootPath :: string
  mc_NumVCPUs :: u32
  mc_RAMMiB :: u32
  mc_NetSockPath :: string
  mc_PortForwards :: "PortForward list"
  mc_VirtioFSMounts :: "FilesystemMount list"
  mc_DataDisks :: "string list"
  mc_VsockPorts :: "VsockPort list"
  mc_ConsoleLogPath :: string
  mc_LogLevel :: u32

text \<open>
  Decoding a field of a structure: a field that is absent or null keeps its zero value, one
  of another type or out of range is an error.
\<close>

definition get_field :: "(json \<Rightarrow> 'a option) \<Rightarrow> 'a \<Rightarrow> string \<Rightarrow> (string \<times> json) list \<Rightarrow> 'a option" where
  "get_field decode zero tag fs =
     (case map_of fs tag of None \<Rightarrow> Some zero | Some JNull \<Rightarrow> Some zero | Some v \<Rightarrow> decode v)"

fun json_string :: "json \<Rightarrow> string option" where
  "json_string (JString s) = Some s" | "json_string _ = None"

fun json_bool :: "json \<Rightarrow> bool option" where
  "json_bool (JBool b) = Some b" | "json_bool _ = None"

fun json_uint :: "json \<Rightarrow> 'w :: len word option" where
  "json_uint (JNum n) = (if 0 \<le> n \<and> n < 2 ^ LENGTH('w) then Some (word_of_int n) else None)"
| "json_uint _ = None"

fun json_list :: "(json \<Rightarrow> 'a option) \<Rightarrow> json \<Rightarrow> 'a list option" where
  "json_list decode (JArr xs) = those (map decode xs)" | "json_list decode _ = None"

fun unjson_forward :: "json \<Rightarrow> PortForward option" where
  "unjson_forward (JObj fs) = do {
     h \<leftarrow> get_field json_uint 0 ''host'' fs;
     g \<leftarrow> get_field json_uint 0 ''guest'' fs;
     Some \<lparr>pf_Host = h, pf_Guest = g\<rparr>
   }"
| "unjson_forward _ = None"

fun unjson_mount :: "json \<Rightarrow> FilesystemMount option" where
  "unjson_mount (JObj fs) = do {
     t \<leftarrow> get_field json_string [] ''tag'' fs;
     p \<leftarrow> get_field json_string [] ''path'' fs;
     r \<leftarrow> get_field json_bool False ''read_only'' fs;
     Some \<lparr>fm_Tag = t, fm_HostPath = p, fm_ReadOnly = r\<rparr>
   }"
| "unjson_mount _ = None"

fun unjson_vsock :: "json \<Rightarrow> VsockPort option" where
  "unjson_vsock (JObj fs) = do {
     n \<leftarrow> get_field json_uint 0 ''port'' fs;
     p \<leftarrow> get_field json_string [] ''socket_path'' fs;
     Some \<lparr>vp_Port = n, vp_SocketPath = p\<rparr>
   }"
| "unjson_vsock _ = None"

fun unmarshal_config :: "json \<Rightarrow> main_Config option" where
  "unmarshal_config (JObj fs) = do {
     root \<leftarrow> get_field json_string [] ''root_path'' fs;
     cpus \<leftarrow> get_field json_uint 0 ''num_vcpus'' fs;
     ram \<leftarrow> get_field json_uint 0 ''ram_mib'' fs;
     sock \<leftarrow> get_field json_string [] ''net_sock_path'' fs;
     fwds \<leftarrow> get_field (json_list unjson_forward) [] ''port_forwards'' fs;
     mounts \<leftarrow> get_field (json_list unjson_mount) [] ''virtiofs_mounts'' fs;
     disks \<leftarrow> get_field (json_list json_string) [] ''data_disks'' fs;
     vsock \<leftarrow> get_field (json_list unjson_vsock) [] ''vsock_ports'' fs;
     console \<leftarrow> get_field json_string [] ''console_log_path'' fs;
     level \<leftarrow> get_field json_uint 0 ''log_level'' fs;
     Some \<lparr>mc_RootPath = root, mc_NumVCPUs = cpus, mc_RAMMiB = ram, mc_NetSockPath = sock,
        mc_PortForwards = fwds, mc_VirtioFSMounts = mounts, mc_DataDisks = disks, mc_VsockPorts = vsock,
        mc_ConsoleLogPath = console, mc_LogLevel = level\<rparr>
   }"
| "unmarshal_config _ = None"

section \<open>The helper: libkrun\<close>

datatype krun_call =
  krun_set_log_level u32
| krun_create_ctx
| krun_free_ctx u32
| krun_set_vm_config u32 u8 u32
| krun_set_root u32 string
| krun_add_net_unixstream u32 "string option" int "u8 list" u32 u32
| krun_add_virtiofs u32 string string
| krun_add_disk u32 string string bool
| krun_set_console_output u32 string
| krun_add_vsock_port u32 u32 string
| krun_start_enter u32

text \<open>
  libkrun: what a call returns after the calls made before it. Starting the machine returns only
  when it fails.
\<close>

record libkrun =
  lk_call :: "krun_call list \<Rightarrow> krun_call \<Rightarrow> int"
  lk_enters :: "krun_call list \<Rightarrow> bool"

type_synonym calls = "krun_call list"

datatype run_error =
  LibkrunContext | TooManyVCPUs | SetVMConfig | SetRoot | NetExternal | NetSetup | NetInProcess
| VirtioFS string | DataDisk string | ConsoleOutput | VsockEmpty u32 | VsockPortError u32
| StartupFailed

text \<open>One binding of \<open>krun/context.go\<close>: the call, and the error when the result is negative.\<close>

definition krun :: "libkrun \<Rightarrow> run_error \<Rightarrow> krun_call \<Rightarrow> calls \<Rightarrow> run_error option \<times> calls" where
  "krun lib err c tr = (if lk_call lib tr c < 0 then Some err else None, tr @ [c])"

definition CreateContext :: "libkrun \<Rightarrow> calls \<Rightarrow> u32 option \<times> calls" where
  "CreateContext lib tr =
     (let id = lk_call lib tr krun_create_ctx
      in (if id < 0 then None else Some (word_of_int id), tr @ [krun_create_ctx]))"

definition Free :: "libkrun \<Rightarrow> u32 \<Rightarrow> calls \<Rightarrow> calls" where
  "Free lib ctx tr = tr @ [krun_free_ctx ctx]"

definition CompatNetFeatures :: u32 where
  "CompatNetFeatures = push_bit 0 1 OR push_bit 1 1 OR push_bit 7 1 OR push_bit 10 1 OR push_bit 11 1 OR push_bit 14 1"

definition AddNetUnixStream ::
  "libkrun \<Rightarrow> run_error \<Rightarrow> u32 \<Rightarrow> int \<Rightarrow> string \<Rightarrow> u8 list \<Rightarrow> u32 \<Rightarrow> u32 \<Rightarrow> calls \<Rightarrow> run_error option \<times> calls" where
  "AddNetUnixStream lib err ctx fd path mac features flags tr =
     krun lib err (krun_add_net_unixstream ctx (if path \<noteq> [] then Some path else None) fd
       (if mac = [] then [0x02, 0x4b, 0x72, 0x75, 0x6e, 0x00] else mac) features flags) tr"

definition AddVsockPort :: "libkrun \<Rightarrow> u32 \<Rightarrow> u32 \<Rightarrow> string \<Rightarrow> calls \<Rightarrow> run_error option \<times> calls" where
  "AddVsockPort lib ctx port path tr =
     (if path = [] then (Some (VsockPortError port), tr)
      else krun lib (VsockPortError port) (krun_add_vsock_port ctx port path) tr)"

text \<open>\<open>if err := f(); err != nil { ctx.Free(); return err }\<close>, and a list of such steps.\<close>

definition or_free :: "libkrun \<Rightarrow> u32 \<Rightarrow> (calls \<Rightarrow> run_error option \<times> calls) \<Rightarrow> calls \<Rightarrow> run_error option \<times> calls" where
  "or_free lib ctx f tr = (case f tr of (Some e, tr) \<Rightarrow> (Some e, Free lib ctx tr) | (None, tr) \<Rightarrow> (None, tr))"

fun run_steps :: "(calls \<Rightarrow> run_error option \<times> calls) list \<Rightarrow> calls \<Rightarrow> run_error option \<times> calls" where
  "run_steps [] tr = (None, tr)"
| "run_steps (f # fs) tr = (case f tr of (Some e, tr) \<Rightarrow> (Some e, tr) | (None, tr) \<Rightarrow> run_steps fs tr)"

text \<open>
  The in-process network: whether the network and the socket pair can be made. The result
  is the descriptor of the machine's end; the forwards are what the network is created with.
\<close>

record inproc_env =
  ip_new :: "(string \<times> string) list \<Rightarrow> bool"
  ip_pair :: "(int \<times> int) option"
  ip_conn :: bool

definition inproc_forwards :: "PortForward list \<Rightarrow> (string \<times> string) list" where
  "inproc_forwards ports =
     fold (\<lambda>pf. AList.update (''127.0.0.1:'' @ decimal (unat (pf_Host pf))) (GuestIP @ '':'' @ decimal (unat (pf_Guest pf)))) ports []"

definition setupInProcessNetworking :: "inproc_env \<Rightarrow> PortForward list \<Rightarrow> int option" where
  "setupInProcessNetworking v ports =
     (if \<not> ip_new v (inproc_forwards ports) then None
      else case ip_pair v of
        None \<Rightarrow> None
      | Some (net, vm) \<Rightarrow> if ip_conn v then Some vm else None)"

definition network_steps :: "libkrun \<Rightarrow> inproc_env \<Rightarrow> u32 \<Rightarrow> main_Config \<Rightarrow> (calls \<Rightarrow> run_error option \<times> calls) list" where
  "network_steps lib v ctx config =
     (if mc_NetSockPath config \<noteq> []
      then [or_free lib ctx (AddNetUnixStream lib NetExternal ctx (- 1) (mc_NetSockPath config) [] CompatNetFeatures 0)]
      else if mc_PortForwards config \<noteq> []
      then [case setupInProcessNetworking v (mc_PortForwards config) of
              None \<Rightarrow> (\<lambda>tr. (Some NetSetup, Free lib ctx tr))
            | Some fd \<Rightarrow> or_free lib ctx (AddNetUnixStream lib NetInProcess ctx fd [] [] CompatNetFeatures 0)]
      else [])"

definition runVM_steps :: "libkrun \<Rightarrow> inproc_env \<Rightarrow> u32 \<Rightarrow> main_Config \<Rightarrow> (calls \<Rightarrow> run_error option \<times> calls) list" where
  "runVM_steps lib v ctx config =
     [\<lambda>tr. if 255 < mc_NumVCPUs config then (Some TooManyVCPUs, Free lib ctx tr) else (None, tr),
      or_free lib ctx (krun lib SetVMConfig (krun_set_vm_config ctx (ucast (mc_NumVCPUs config)) (mc_RAMMiB config))),
      or_free lib ctx (krun lib SetRoot (krun_set_root ctx (mc_RootPath config)))] @
     network_steps lib v ctx config @
     map (\<lambda>m. or_free lib ctx (krun lib (VirtioFS (fm_Tag m)) (krun_add_virtiofs ctx (fm_Tag m) (fm_HostPath m))))
       (mc_VirtioFSMounts config) @
     map (\<lambda>(i, disk). or_free lib ctx (krun lib (DataDisk disk) (krun_add_disk ctx (''data'' @ decimal i) disk False)))
       (enumerate 0 (mc_DataDisks config)) @
     (if mc_ConsoleLogPath config \<noteq> []
      then [or_free lib ctx (krun lib ConsoleOutput (krun_set_console_output ctx (mc_ConsoleLogPath config)))] else []) @
     map (\<lambda>vp tr. if vp_SocketPath vp = [] then (Some (VsockEmpty (vp_Port vp)), Free lib ctx tr)
           else or_free lib ctx (AddVsockPort lib ctx (vp_Port vp) (vp_SocketPath vp)) tr)
       (mc_VsockPorts config)"

text \<open>\<open>None\<close>: the process has become the virtual machine.\<close>

definition runVM :: "libkrun \<Rightarrow> inproc_env \<Rightarrow> main_Config \<Rightarrow> run_error option \<times> calls" where
  "runVM lib v config =
     (let tr = (if 0 < mc_LogLevel config then snd (krun lib StartupFailed (krun_set_log_level (mc_LogLevel config)) []) else [])
      in case CreateContext lib tr of
           (None, tr) \<Rightarrow> (Some LibkrunContext, tr)
         | (Some ctx, tr) \<Rightarrow>
             (case run_steps (runVM_steps lib v ctx config) tr of
                (Some e, tr) \<Rightarrow> (Some e, tr)
              | (None, tr) \<Rightarrow>
                  if lk_enters lib tr then (None, tr @ [krun_start_enter ctx])
                  else (Some StartupFailed, tr @ [krun_start_enter ctx])))"

datatype config_error = RootPathRequired | NoVCPUs | NoRAM | RootNotFound | RootNotDirectory

text \<open>\<open>stat\<close>: whether the path exists, and if so, whether it is a directory.\<close>

definition validateConfig :: "(string \<Rightarrow> bool option) \<Rightarrow> main_Config \<Rightarrow> config_error option" where
  "validateConfig stat config =
     (if mc_RootPath config = [] then Some RootPathRequired
      else if mc_NumVCPUs config = 0 then Some NoVCPUs
      else if mc_RAMMiB config = 0 then Some NoRAM
      else case stat (mc_RootPath config) of
        None \<Rightarrow> Some RootNotFound
      | Some isdir \<Rightarrow> if isdir then None else Some RootNotDirectory)"

definition exitConfigError :: int where "exitConfigError = 125"
definition exitRuntimeError :: int where "exitRuntimeError = 1"
definition exitStartupError :: int where "exitStartupError = 2"
definition exitLibkrunError :: int where "exitLibkrunError = 3"

definition exitCodeForError :: "run_error \<Rightarrow> int" where
  "exitCodeForError e =
     (if e = LibkrunContext then exitLibkrunError else if e = StartupFailed then exitStartupError else exitRuntimeError)"

text \<open>The exit code of the helper, or \<open>None\<close> when it has become the virtual machine.\<close>

definition runner_main :: "libkrun \<Rightarrow> inproc_env \<Rightarrow> (string \<Rightarrow> bool option) \<Rightarrow> json list \<Rightarrow> int option \<times> calls" where
  "runner_main lib v stat args =
     (case args of
        [] \<Rightarrow> (Some exitConfigError, [])
      | a # _ \<Rightarrow>
          (case unmarshal_config a of
             None \<Rightarrow> (Some exitConfigError, [])
           | Some config \<Rightarrow>
               (case validateConfig stat config of
                  Some e \<Rightarrow> (Some exitConfigError, [])
                | None \<Rightarrow> map_prod (map_option exitCodeForError) (\<lambda>x. x) (runVM lib v config))))"

section \<open>The JSON argument\<close>

lemma uint_json [simp]: "json_uint (JNum (uint w)) = Some (w :: 'w :: len word)"
  using uint_lt2p [of w] by simp

declare json_uint.simps [simp del]

lemma those_map_Some: "(\<And>x. x \<in> set xs \<Longrightarrow> f x = Some (g x)) \<Longrightarrow> those (map f xs) = Some (map g xs)"
  by (induction xs) auto

lemma those_map_inverse: "(\<And>x. dec (enc x) = Some x) \<Longrightarrow> those (map dec (map enc xs)) = Some xs"
  by (induction xs) auto

text \<open>Reading a field of an object that is written field by field.\<close>

definition json_empty :: "json \<Rightarrow> bool" where
  "json_empty v \<longleftrightarrow> v = JString [] \<or> v = JNum 0 \<or> v = JBool False \<or> v = JArr []"

lemma get_field_Nil [simp]: "get_field dec z tag [] = Some z"
  by (simp add: get_field_def)

lemma get_field_Cons: "get_field dec z tag ((t, v) # fs) =
    (if tag = t then if v = JNull then Some z else dec v else get_field dec z tag fs)"
  by (simp add: get_field_def split: json.split)

lemma get_field_omitempty:
  "get_field dec z tag (json_omitempty t v @ fs) =
    (if tag = t \<and> \<not> json_empty v then if v = JNull then Some z else dec v else get_field dec z tag fs)"
  by (simp add: json_omitempty_def json_empty_def get_field_Cons)

lemmas get_field_last = get_field_omitempty [where fs = "[]", simplified]

lemma unjson_json [simp]:
  "unjson_forward (json_forward p) = Some p" "unjson_mount (json_mount m) = Some m" "unjson_vsock (json_vsock q) = Some q"
  by (simp_all add: json_forward_def json_mount_def json_vsock_def get_field_Cons json_field_def json_omitempty_def)

definition main_config_of :: "runner_Config \<Rightarrow> main_Config" where
  "main_config_of c =
     \<lparr>mc_RootPath = rc_RootPath c, mc_NumVCPUs = rc_NumVCPUs c, mc_RAMMiB = rc_RAMMiB c, mc_NetSockPath = rc_NetSocket c,
      mc_PortForwards = rc_PortForwards c, mc_VirtioFSMounts = rc_VirtioFS c, mc_DataDisks = rc_DataDisks c,
      mc_VsockPorts = rc_VsockPorts c, mc_ConsoleLogPath = rc_ConsoleLog c, mc_LogLevel = rc_LogLevel c\<rparr>"

lemma unmarshal_marshal: "unmarshal_config (marshal_config c) = Some (main_config_of c)"
proof -
  have l: "those (map unjson_forward (map json_forward xs)) = Some xs"
    "those (map unjson_mount (map json_mount ys)) = Some ys"
    "those (map unjson_vsock (map json_vsock zs)) = Some zs"
    "those (map json_string (map JString ds)) = Some ds" for xs ys zs ds
    by (rule those_map_inverse, simp)+
  show ?thesis
    unfolding marshal_config_def
    by (simp add: json_field_def get_field_Cons get_field_omitempty get_field_last json_empty_def main_config_of_def l uint_0_iff
        del: map_map map_of_append)
qed

section \<open>The calls of the helper\<close>

text \<open>
  A step makes the calls \<open>cs\<close>: when it succeeds, all of them; when it fails, some of them and
  then it frees the context.
\<close>

definition step_ok :: "u32 \<Rightarrow> (calls \<Rightarrow> run_error option \<times> calls) \<Rightarrow> calls \<Rightarrow> bool" where
  "step_ok ctx f cs \<longleftrightarrow>
     (\<forall>tr. case f tr of
        (None, tr') \<Rightarrow> tr' = tr @ cs
      | (Some e, tr') \<Rightarrow> e \<noteq> LibkrunContext \<and> e \<noteq> StartupFailed \<and> (\<exists>n. tr' = tr @ take n cs @ [krun_free_ctx ctx]))"

named_theorems steps \<open>calls of the steps of the helper\<close>

lemma step_ok_krun [steps]:
  "e \<noteq> LibkrunContext \<Longrightarrow> e \<noteq> StartupFailed \<Longrightarrow> step_ok ctx (or_free lib ctx (krun lib e c)) [c]"
  by (auto simp: step_ok_def or_free_def krun_def Free_def intro: exI [of _ 1])

lemma step_ok_Nil [steps]: "step_ok ctx (run_steps []) []"
  by (simp add: step_ok_def)

lemma step_ok_fail [steps]:
  "e \<noteq> LibkrunContext \<Longrightarrow> e \<noteq> StartupFailed \<Longrightarrow> step_ok ctx (\<lambda>tr. (Some e, Free lib ctx tr)) cs"
  by (auto simp: step_ok_def Free_def intro: exI [of _ 0])

lemma step_ok_guard [steps]:
  "e \<noteq> LibkrunContext \<Longrightarrow> e \<noteq> StartupFailed \<Longrightarrow>
   step_ok ctx (\<lambda>tr. if b then (Some e, Free lib ctx tr) else (None, tr)) []"
  by (auto simp: step_ok_def Free_def)

lemma step_ok_net [steps]:
  "e \<noteq> LibkrunContext \<Longrightarrow> e \<noteq> StartupFailed \<Longrightarrow>
   step_ok ctx (or_free lib ctx (AddNetUnixStream lib e ctx fd path [] features flags))
     [krun_add_net_unixstream ctx (if path \<noteq> [] then Some path else None) fd [0x02, 0x4b, 0x72, 0x75, 0x6e, 0x00] features flags]"
  by (auto simp: step_ok_def or_free_def krun_def Free_def AddNetUnixStream_def intro: exI [of _ 1])

lemma step_ok_vsock [steps]:
  "step_ok ctx (\<lambda>tr. if vp_SocketPath vp = [] then (Some (VsockEmpty (vp_Port vp)), Free lib ctx tr)
      else or_free lib ctx (AddVsockPort lib ctx (vp_Port vp) (vp_SocketPath vp)) tr)
     [krun_add_vsock_port ctx (vp_Port vp) (vp_SocketPath vp)]"
  by (auto simp: step_ok_def or_free_def krun_def Free_def AddVsockPort_def intro: exI [of _ 1] exI [of _ 0])

lemma step_okD:
  assumes "step_ok ctx f cs"
  shows "f tr = (None, tr') \<Longrightarrow> tr' = tr @ cs"
    and "f tr = (Some e, tr') \<Longrightarrow> e \<noteq> LibkrunContext \<and> e \<noteq> StartupFailed \<and> (\<exists>n. tr' = tr @ take n cs @ [krun_free_ctx ctx])"
  using spec [OF assms [unfolded step_ok_def], of tr] by auto

lemma step_okI:
  assumes "\<And>tr tr'. f tr = (None, tr') \<Longrightarrow> tr' = tr @ cs"
    and "\<And>tr e tr'. f tr = (Some e, tr') \<Longrightarrow>
      e \<noteq> LibkrunContext \<and> e \<noteq> StartupFailed \<and> (\<exists>n. tr' = tr @ take n cs @ [krun_free_ctx ctx])"
  shows "step_ok ctx f cs"
  unfolding step_ok_def
proof
  fix tr
  obtain r tr' where "f tr = (r, tr')" by (metis prod.exhaust)
  then show "case f tr of (None, tr') \<Rightarrow> tr' = tr @ cs
    | (Some e, tr') \<Rightarrow> e \<noteq> LibkrunContext \<and> e \<noteq> StartupFailed \<and> (\<exists>n. tr' = tr @ take n cs @ [krun_free_ctx ctx])"
    using assms by (cases r) auto
qed

lemma step_ok_Cons:
  assumes 1: "step_ok ctx f cs" and 2: "step_ok ctx (run_steps fs) ds"
  shows "step_ok ctx (run_steps (f # fs)) (cs @ ds)"
proof (rule step_okI)
  fix tr tr'
  assume "run_steps (f # fs) tr = (None, tr')"
  then obtain tr1 where "f tr = (None, tr1)" "run_steps fs tr1 = (None, tr')" by (auto split: prod.splits option.splits)
  then show "tr' = tr @ cs @ ds" using step_okD(1) [OF 1] step_okD(1) [OF 2] by fastforce
next
  fix tr e tr'
  assume "run_steps (f # fs) tr = (Some e, tr')"
  then consider "f tr = (Some e, tr')" | tr1 where "f tr = (None, tr1)" "run_steps fs tr1 = (Some e, tr')"
    by (auto split: prod.splits option.splits)
  then show "e \<noteq> LibkrunContext \<and> e \<noteq> StartupFailed \<and> (\<exists>n. tr' = tr @ take n (cs @ ds) @ [krun_free_ctx ctx])"
  proof cases
    case 1
    then obtain n where n: "e \<noteq> LibkrunContext \<and> e \<noteq> StartupFailed" "tr' = tr @ take n cs @ [krun_free_ctx ctx]"
      using step_okD(2) [OF assms(1)] by blast
    moreover have "take n cs = take (min n (length cs)) (cs @ ds)" by (simp add: min_def)
    ultimately show ?thesis by metis
  next
    case (2 tr1)
    then obtain n where n: "e \<noteq> LibkrunContext \<and> e \<noteq> StartupFailed" "tr' = tr1 @ take n ds @ [krun_free_ctx ctx]" "tr1 = tr @ cs"
      using step_okD(2) [OF assms(2)] step_okD(1) [OF assms(1)] by blast
    then show ?thesis by (auto intro!: exI [of _ "length cs + n"])
  qed
qed

lemma step_ok_concat: "list_all2 (step_ok ctx) fs css \<Longrightarrow> step_ok ctx (run_steps fs) (concat css)"
proof (induction rule: list_all2_induct)
  case Nil
  show ?case unfolding concat.simps by (rule step_ok_Nil)
next
  case (Cons f fs cs css)
  then show ?case unfolding concat.simps by (intro step_ok_Cons)
qed

section \<open>The calls that a configuration asks for\<close>

definition net_calls :: "inproc_env \<Rightarrow> u32 \<Rightarrow> string \<Rightarrow> PortForward list \<Rightarrow> calls" where
  "net_calls v ctx sock fwds =
     (let net = (\<lambda>path fd. krun_add_net_unixstream ctx path fd [0x02, 0x4b, 0x72, 0x75, 0x6e, 0x00] CompatNetFeatures 0)
      in if sock \<noteq> [] then [net (Some sock) (- 1)]
         else if fwds = [] then []
         else case setupInProcessNetworking v fwds of None \<Rightarrow> [] | Some fd \<Rightarrow> [net None fd])"

definition vm_calls :: "inproc_env \<Rightarrow> u32 \<Rightarrow> main_Config \<Rightarrow> calls" where
  "vm_calls v ctx c =
     [krun_set_vm_config ctx (ucast (mc_NumVCPUs c)) (mc_RAMMiB c), krun_set_root ctx (mc_RootPath c)] @
     net_calls v ctx (mc_NetSockPath c) (mc_PortForwards c) @
     map (\<lambda>m. krun_add_virtiofs ctx (fm_Tag m) (fm_HostPath m)) (mc_VirtioFSMounts c) @
     map (\<lambda>(i, disk). krun_add_disk ctx (''data'' @ decimal i) disk False) (enumerate 0 (mc_DataDisks c)) @
     (if mc_ConsoleLogPath c \<noteq> [] then [krun_set_console_output ctx (mc_ConsoleLogPath c)] else []) @
     map (\<lambda>p. krun_add_vsock_port ctx (vp_Port p) (vp_SocketPath p)) (mc_VsockPorts c)"

lemma list_all2_map_single:
  "(\<And>x. x \<in> set xs \<Longrightarrow> P (f x) [g x]) \<Longrightarrow> list_all2 P (map f xs) (map (\<lambda>x. [g x]) xs)"
  by (induction xs) auto

lemma concat_single: "concat (map (\<lambda>x. [g x]) xs) = map g xs"
  by (induction xs) auto

lemma network_steps_ok:
  "\<exists>css. list_all2 (step_ok ctx) (network_steps lib v ctx c) css \<and> concat css = net_calls v ctx (mc_NetSockPath c) (mc_PortForwards c)"
proof (cases "mc_NetSockPath c = [] \<and> mc_PortForwards c = []")
  case False
  then show ?thesis
    using step_ok_net [of NetExternal ctx lib "- 1" "mc_NetSockPath c" CompatNetFeatures 0]
      step_ok_net [of NetInProcess ctx lib _ "[]" CompatNetFeatures 0] step_ok_fail [of NetSetup ctx lib "[]"]
    by (intro exI [of _ "[net_calls v ctx (mc_NetSockPath c) (mc_PortForwards c)]"])
      (auto simp: network_steps_def net_calls_def Let_def split: option.split)
qed (simp add: network_steps_def net_calls_def)

lemma runVM_steps_ok: "step_ok ctx (run_steps (runVM_steps lib v ctx c)) (vm_calls v ctx c)"
proof -
  obtain css where n: "list_all2 (step_ok ctx) (network_steps lib v ctx c) css"
    "concat css = net_calls v ctx (mc_NetSockPath c) (mc_PortForwards c)" using network_steps_ok by blast
  let ?con = "if mc_ConsoleLogPath c \<noteq> [] then [[krun_set_console_output ctx (mc_ConsoleLogPath c)]] else []"
  have a: "list_all2 (step_ok ctx)
      [\<lambda>tr. if 255 < mc_NumVCPUs c then (Some TooManyVCPUs, Free lib ctx tr) else (None, tr),
       or_free lib ctx (krun lib SetVMConfig (krun_set_vm_config ctx (ucast (mc_NumVCPUs c)) (mc_RAMMiB c))),
       or_free lib ctx (krun lib SetRoot (krun_set_root ctx (mc_RootPath c)))]
      [[], [krun_set_vm_config ctx (ucast (mc_NumVCPUs c)) (mc_RAMMiB c)], [krun_set_root ctx (mc_RootPath c)]]"
    by (simp add: step_ok_krun step_ok_guard)
  have m: "list_all2 (step_ok ctx)
      (map (\<lambda>m. or_free lib ctx (krun lib (VirtioFS (fm_Tag m)) (krun_add_virtiofs ctx (fm_Tag m) (fm_HostPath m)))) (mc_VirtioFSMounts c))
      (map (\<lambda>m. [krun_add_virtiofs ctx (fm_Tag m) (fm_HostPath m)]) (mc_VirtioFSMounts c))"
    by (rule list_all2_map_single) (simp add: step_ok_krun)
  have d: "list_all2 (step_ok ctx)
      (map (\<lambda>(i, disk). or_free lib ctx (krun lib (DataDisk disk) (krun_add_disk ctx (''data'' @ decimal i) disk False))) ds)
      (map (\<lambda>x. [case x of (i, disk) \<Rightarrow> krun_add_disk ctx (''data'' @ decimal i) disk False]) ds)" for ds
    by (rule list_all2_map_single) (simp add: step_ok_krun del: decimal.simps split: prod.split)
  have con: "list_all2 (step_ok ctx)
      (if mc_ConsoleLogPath c \<noteq> []
       then [or_free lib ctx (krun lib ConsoleOutput (krun_set_console_output ctx (mc_ConsoleLogPath c)))] else []) ?con"
    by (simp add: step_ok_krun)
  have p: "list_all2 (step_ok ctx)
      (map (\<lambda>vp tr. if vp_SocketPath vp = [] then (Some (VsockEmpty (vp_Port vp)), Free lib ctx tr)
           else or_free lib ctx (AddVsockPort lib ctx (vp_Port vp) (vp_SocketPath vp)) tr) (mc_VsockPorts c))
      (map (\<lambda>p. [krun_add_vsock_port ctx (vp_Port p) (vp_SocketPath p)]) (mc_VsockPorts c))"
    by (rule list_all2_map_single) (rule step_ok_vsock)
  note all = list_all2_appendI [OF a list_all2_appendI [OF n(1) list_all2_appendI [OF m list_all2_appendI [OF d [of "enumerate 0 (mc_DataDisks c)"] list_all2_appendI [OF con p]]]]]
  from step_ok_concat [OF all [folded runVM_steps_def]] show ?thesis
    by (cases "mc_ConsoleLogPath c = []") (simp_all add: vm_calls_def n(2) concat_single del: decimal.simps)
qed

lemma to_runner_id [simp]:
  "toRunnerPortForwards ps = ps" "toRunnerVirtioFS ms = ms" "toRunnerVsockPorts vs = vs"
  unfolding toRunnerPortForwards_def toRunnerVirtioFS_def toRunnerVsockPorts_def by (simp_all add: map_idI)

text \<open>What the helper does with a configuration, in all cases.\<close>

lemma runVM_calls:
  assumes "runVM lib v c = (r, tr)"
  defines "log \<equiv> (if 0 < mc_LogLevel c then [krun_set_log_level (mc_LogLevel c)] else [])"
  shows "r = Some LibkrunContext \<and> tr = log @ [krun_create_ctx] \<or>
    (\<exists>ctx n e. r = Some e \<and> e \<noteq> LibkrunContext \<and> e \<noteq> StartupFailed \<and>
       tr = log @ [krun_create_ctx] @ take n (vm_calls v ctx c) @ [krun_free_ctx ctx]) \<or>
    (\<exists>ctx. (r = None \<or> r = Some StartupFailed) \<and> mc_NumVCPUs c \<le> 255 \<and>
       tr = log @ [krun_create_ctx] @ vm_calls v ctx c @ [krun_start_enter ctx])"
proof -
  let ?tr = "log @ [krun_create_ctx]"
  have l: "(if 0 < mc_LogLevel c then snd (krun lib StartupFailed (krun_set_log_level (mc_LogLevel c)) []) else []) = log"
    by (simp add: log_def krun_def)
  show ?thesis
  proof (cases "lk_call lib log krun_create_ctx < 0")
    case True
    then show ?thesis using assms(1) by (simp add: runVM_def l CreateContext_def)
  next
    case False
    define ctx where "ctx = (word_of_int (lk_call lib log krun_create_ctx) :: u32)"
    obtain r1 tr1 where s: "run_steps (runVM_steps lib v ctx c) ?tr = (r1, tr1)" by (metis prod.exhaust)
    have res: "(r, tr) = (case r1 of Some e \<Rightarrow> (Some e, tr1)
        | None \<Rightarrow> (if lk_enters lib tr1 then None else Some StartupFailed, tr1 @ [krun_start_enter ctx]))"
      using assms(1) False s by (auto simp: runVM_def l CreateContext_def Let_def ctx_def split: option.splits)
    show ?thesis
    proof (cases r1)
      case None
      have "mc_NumVCPUs c \<le> 255"
      proof (rule ccontr)
        assume "\<not> mc_NumVCPUs c \<le> 255"
        then have "run_steps (runVM_steps lib v ctx c) ?tr = (Some TooManyVCPUs, Free lib ctx ?tr)"
          by (simp add: runVM_steps_def not_le)
        then show False using s None by simp
      qed
      then show ?thesis using step_okD(1) [OF runVM_steps_ok, of lib v ctx c ?tr tr1] res s None by (auto split: if_splits)
    next
      case (Some e)
      then show ?thesis using step_okD(2) [OF runVM_steps_ok, of lib v ctx c ?tr e tr1] res s by auto
    qed
  qed
qed

section \<open>Properties of the runner\<close>


definition demo_vm :: VMConfig where
  "demo_vm = \<lparr>vc_Name = ''vm'', vc_RootFSPath = ''/data/rootfs'', vc_NumVCPUs = 2, vc_RAMMiB = 512,
     vc_PortForwards = [], vc_FilesystemMounts = [\<lparr>fm_Tag = ''w'', fm_HostPath = ''/work'', fm_ReadOnly = True\<rparr>],
     vc_DataDisks = [''/d.img''], vc_VsockPorts = [], vc_InitConfig = \<lparr>ic_Cmd = [], ic_Env = [], ic_WorkingDir = ''/''\<rparr>,
     vc_DataDir = ''/data'', vc_ConsoleLogPath = ''/data/console.log'', vc_LogLevel = 0,
     vc_NetEndpoint = \<lparr>ep_Type = NetEndpointUnixSocket, ep_Path = ''/data/hosted-net.sock''\<rparr>\<rparr>"

definition demo_finder :: runnerFinder where
  "demo_finder = \<lparr>rf_stat = \<lambda>_. True, rf_lookPath = \<lambda>_. Some ''/bin/go-microvm-runner'', rf_executable = None\<rparr>"

definition demo_spawn :: spawn_env where
  "demo_spawn = \<lparr>sp_uid = 1000, sp_gid = 1000, sp_environ = [], sp_open = \<lambda>_. True, sp_start = \<lambda>_. Inr 42\<rparr>"

definition demo_libkrun :: libkrun where
  "demo_libkrun = \<lparr>lk_call = \<lambda>_ _. 0, lk_enters = \<lambda>_. True\<rparr>"

definition demo_inproc :: inproc_env where
  "demo_inproc = \<lparr>ip_new = \<lambda>_. True, ip_pair = Some (7, 8), ip_conn = True\<rparr>"

definition demo_backend_env :: backend_env where
  "demo_backend_env = \<lparr>bk_runtime = None, bk_firmware = None, bk_stat = \<lambda>_. True\<rparr>"

definition demo_started :: "backend_error + Process \<times> Cmd" where
  "demo_started = backend_Start (\<lambda>c. case SpawnProcess demo_finder demo_spawn c of Inl e \<Rightarrow> None | Inr p \<Rightarrow> Some p)
     demo_backend_env (NewBackend []) demo_vm"


end
