(* ===== verification/Clone.thy ===== *)
theory Clone
  imports Pull
begin

text \<open>
  \<^verbatim>\<open>rootfs/clone.go\<close>: the copy of a cached root file system in which hooks and the
  hypervisor backend may write. The source is the tree that \<^verbatim>\<open>filepath.WalkDir\<close> reads,
  as for the layers; the copy is made in the file system. Whether the file system supports
  FICLONE and whether the process may change owners are arguments.
\<close>

section \<open>Creating directories\<close>

definition os_Stat :: "fs \<Rightarrow> string \<Rightarrow> errno + inode" where
  "os_Stat s p =
     (case walk max_links s root_ino (components p) of
        Inl e \<Rightarrow> Inl e
      | Inr (_, i) \<Rightarrow> (case nodes s i of None \<Rightarrow> Inl ENOENT | Some n \<Rightarrow> Inr n))"

text \<open>\<^verbatim>\<open>os.MkdirAll\<close> of an absolute path, from the first component on; it follows links.\<close>

fun mkdir_prefixes :: "u32 \<Rightarrow> string list \<Rightarrow> string list \<Rightarrow> fs \<Rightarrow> errno option \<times> fs" where
  "mkdir_prefixes mode cur [] s = (None, s)"
| "mkdir_prefixes mode cur (c # cs) s =
     (case os_Stat s (abs_path (cur @ [c])) of
        Inr n \<Rightarrow> if is_dir n then mkdir_prefixes mode (cur @ [c]) cs s else (Some ENOTDIR, s)
      | Inl _ \<Rightarrow>
          (case Mkdir s (abs_path (cur @ [c])) mode of
             Inl e \<Rightarrow> (Some e, s)
           | Inr s' \<Rightarrow> mkdir_prefixes mode (cur @ [c]) cs s'))"

definition os_MkdirAll :: "string \<Rightarrow> u32 \<Rightarrow> fs \<Rightarrow> errno option \<times> fs" where
  "os_MkdirAll p mode s = mkdir_prefixes mode [] (components p) s"

section \<open>Files and links\<close>

datatype clone_error =
  LstatSource | SourceIsSymlink | SourceNotDirectory | CreateDestination errno
| CloneDirectory string errno | CloneFile string errno | CloneLink errno

definition cloneSymlink :: "string \<Rightarrow> string \<Rightarrow> string \<Rightarrow> fs \<Rightarrow> clone_error option \<times> fs" where
  "cloneSymlink target dst rootDir s =
     (let resolved = Clean (if IsAbs target then Join rootDir target else Join (Dir dst) target);
          absRoot = Clean rootDir
      in if resolved \<noteq> absRoot \<and> \<not> HasPrefix resolved (absRoot @ [sep]) then (None, s)
         else case os_Symlink s target dst of
           Inl e \<Rightarrow> (Some (CloneLink e), s)
         | Inr s' \<Rightarrow> (None, s'))"

definition copyFile :: "bytes \<Rightarrow> u32 \<Rightarrow> string \<Rightarrow> fs \<Rightarrow> errno option \<times> fs" where
  "copyFile data mode dst s =
     (case OpenTrunc s dst (mode OR 0x80) of
        Inl e \<Rightarrow> (Some e, s)
      | Inr (f, s) \<Rightarrow>
          (case Chmod (write_node f data s) dst mode of
             Inl e \<Rightarrow> (Some e, write_node f data s)
           | Inr s' \<Rightarrow> (None, s')))"

definition tryFiclone :: "bool \<Rightarrow> bytes \<Rightarrow> u32 \<Rightarrow> string \<Rightarrow> fs \<Rightarrow> bool \<times> fs" where
  "tryFiclone ficlone data mode dst s =
     (case OpenTrunc s dst mode of
        Inl e \<Rightarrow> (False, s)
      | Inr (f, s) \<Rightarrow> if ficlone then (True, write_node f data s) else (False, s))"

definition cloneFile :: "bool \<Rightarrow> bytes \<Rightarrow> u32 \<Rightarrow> string \<Rightarrow> fs \<Rightarrow> errno option \<times> fs" where
  "cloneFile ficlone data mode dst s =
     (case tryFiclone ficlone data mode dst s of
        (True, s) \<Rightarrow> (None, s)
      | (False, s) \<Rightarrow> copyFile data mode dst (case Remove s dst of Inl e \<Rightarrow> s | Inr s' \<Rightarrow> s'))"

definition clone_lchown :: "bool \<Rightarrow> layer_info \<Rightarrow> string \<Rightarrow> fs \<Rightarrow> fs" where
  "clone_lchown chown src dst s =
     (if li_uid src < 0 \<or> li_gid src < 0 then s
      else CopyOverrideStat (li_override src) dst
        (if chown then case Lchown s dst (li_uid src) (li_gid src) of Inl e \<Rightarrow> s | Inr s' \<Rightarrow> s' else s))"

section \<open>The walk\<close>

text \<open>
  \<open>dst\<close> is the root of the copy and \<open>us\<close> the names on the way to an entry; the directories
  to restore are collected with their permissions.
\<close>

fun clone_node ::
    "bool \<Rightarrow> bool \<Rightarrow> string \<Rightarrow> string list \<Rightarrow> layer_node \<Rightarrow> (string \<times> u32) list \<Rightarrow> fs \<Rightarrow>
     clone_error option \<times> (string \<times> u32) list \<times> fs"
  and clone_nodes ::
    "bool \<Rightarrow> bool \<Rightarrow> string \<Rightarrow> string list \<Rightarrow> (string \<times> layer_node) list \<Rightarrow> (string \<times> u32) list \<Rightarrow> fs \<Rightarrow>
     clone_error option \<times> (string \<times> u32) list \<times> fs"
where
  "clone_node ficlone chown dst us (LLink i target) restore s =
     (case cloneSymlink target (Join dst (join_with sep us)) dst s of (err, s) \<Rightarrow> (err, restore, s))"
| "clone_node ficlone chown dst us (LDir i es) restore s =
     (let p = Join dst (join_with sep us)
      in case os_MkdirAll p (li_perm i OR 0x1C0) s of
           (Some e, s) \<Rightarrow> (Some (CloneDirectory p e), restore, s)
         | (None, s) \<Rightarrow>
             clone_nodes ficlone chown dst us es (restore @ [(p, li_perm i)]) (clone_lchown chown i p s))"
| "clone_node ficlone chown dst us (LFile i data) restore s =
     (let p = Join dst (join_with sep us)
      in case cloneFile ficlone data (li_perm i) p s of
           (Some e, s) \<Rightarrow> (Some (CloneFile p e), restore, s)
         | (None, s) \<Rightarrow> (None, restore, clone_lchown chown i p s))"
| "clone_node ficlone chown dst us (LSpecial i) restore s =
     (let p = Join dst (join_with sep us)
      in case cloneFile ficlone [] (li_perm i) p s of
           (Some e, s) \<Rightarrow> (Some (CloneFile p e), restore, s)
         | (None, s) \<Rightarrow> (None, restore, clone_lchown chown i p s))"
| "clone_nodes ficlone chown dst us [] restore s = (None, restore, s)"
| "clone_nodes ficlone chown dst us ((c, n) # es) restore s =
     (case clone_node ficlone chown dst (us @ [c]) n restore s of
        (Some e, restore, s) \<Rightarrow> (Some e, restore, s)
      | (None, restore, s) \<Rightarrow> clone_nodes ficlone chown dst us es restore s)"

definition restore_perms :: "(string \<times> u32) list \<Rightarrow> fs \<Rightarrow> fs" where
  "restore_perms dirs s = foldr (\<lambda>(p, m) s. case Chmod s p m of Inl e \<Rightarrow> s | Inr s' \<Rightarrow> s') dirs s"

text \<open>\<open>None\<close> for the source: it cannot be read.\<close>

definition CloneDir :: "bool \<Rightarrow> bool \<Rightarrow> layer_node option \<Rightarrow> string \<Rightarrow> fs \<Rightarrow> clone_error option \<times> fs" where
  "CloneDir ficlone chown src dstDir s =
     (case src of
        None \<Rightarrow> (Some LstatSource, s)
      | Some (LLink i t) \<Rightarrow> (Some SourceIsSymlink, s)
      | Some (LDir i es) \<Rightarrow>
          (case os_MkdirAll dstDir (li_perm i OR 0x1C0) s of
             (Some e, s) \<Rightarrow> (Some (CreateDestination e), s)
           | (None, s) \<Rightarrow>
               (case clone_nodes ficlone chown dstDir [] es [(dstDir, li_perm i)] s of
                  (Some e, _, s) \<Rightarrow> (Some e, s)
                | (None, restore, s) \<Rightarrow> (None, CopyOverrideStat (li_override i) dstDir (restore_perms restore s))))
      | Some _ \<Rightarrow> (Some SourceNotDirectory, s))"

section \<open>Properties of the copy\<close>


text \<open>
  A root file system with a symbolic link can be cloned once: cloning it again to the same place,
  as a second run with the same data directory does, fails on the existing link.
\<close>

theorem clone_again_fails:
  "case CloneDir ficlone False (Some (LDir plain_info [(''lib'', LLink plain_info ''usr/lib'')])) ''/work'' host_fs of
     (e1, s1) \<Rightarrow> e1 = None \<and>
       fst (CloneDir ficlone False (Some (LDir plain_info [(''lib'', LLink plain_info ''usr/lib'')])) ''/work'' s1) =
         Some (CloneLink EEXIST)"
  by (cases ficlone) (simp_all only:, code_simp, code_simp)

end
