(* ===== verification/StateStore.thy ===== *)
theory StateStore
  imports GoPath "HOL-Library.AList"
begin

text \<open>
  Package \<^verbatim>\<open>state\<close>: the state file of a data directory and the file lock beside it.

  The operations of \<^verbatim>\<open>Manager\<close> and \<^verbatim>\<open>LockedState\<close> are functions on
  the contents of the data directory. The encoder and the decoder of the JSON text are
  arguments, and so is \<^verbatim>\<open>TryLockContext\<close> of \<^verbatim>\<open>gofrs/flock\<close>, of which
  \<open>trylock_doc\<close> states what its documentation promises. A second model, a step relation,
  lets any number of processes run the operations step by step, crash at any moment and leave
  their temporary files behind; every run of the function \<open>Save\<close> is a run of it.
\<close>

section \<open>The state and its file\<close>

record State =
  st_Version :: int
  st_Active :: bool
  st_Name :: string
  st_Image :: string
  st_CPUs :: u32
  st_MemoryMB :: u32
  st_PID :: int
  st_PIDStartTime :: time
  st_CreatedAt :: time

definition stateVersion :: int where "stateVersion = 1"
definition stateFileName :: string where "stateFileName = ''go-microvm-state.json''"
definition lockFileName :: string where "lockFileName = ''go-microvm-state.lock''"
definition retryInterval :: duration where "retryInterval = 500 * millisecond"

text \<open>The zero \<^verbatim>\<open>time.Time\<close>, 1 January of year 1, relative to the Unix epoch.\<close>

definition zero_time :: time where "zero_time = - 62135596800 * second"

text \<open>The regular files of a data directory and the holder of the lock.\<close>

record datadir =
  dd_files :: "(string \<times> string) list"
  dd_lock :: "nat option"

datatype state_error =
  CreateStateDir | AcquireLock | NotAcquired | ReadState | ParseState | Timeout state_error | DeadlineExceeded
| MarshalState | CreateTemp | WriteTemp | CloseTemp | RenameState | RemoveState

definition statePath :: "string \<Rightarrow> string" where "statePath dataDir = Join dataDir stateFileName"
definition lockPath :: "string \<Rightarrow> string" where "lockPath dataDir = Join dataDir lockFileName"

definition default_state :: "time \<Rightarrow> State" where
  "default_state now = \<lparr>st_Version = stateVersion, st_Active = False, st_Name = [], st_Image = [],
     st_CPUs = 0, st_MemoryMB = 0, st_PID = 0, st_PIDStartTime = zero_time, st_CreatedAt = now\<rparr>"

text \<open>\<open>readable\<close> says whether reading an existing file succeeds.\<close>

definition loadState :: "(string \<Rightarrow> State option) \<Rightarrow> bool \<Rightarrow> time \<Rightarrow> datadir option \<Rightarrow> state_error + State" where
  "loadState dec readable now d =
     (case Option.bind d (\<lambda>d. map_of (dd_files d) stateFileName) of
        None \<Rightarrow> Inr (default_state now)
      | Some data \<Rightarrow>
          if \<not> readable then Inl ReadState
          else case dec data of None \<Rightarrow> Inl ParseState | Some st \<Rightarrow> Inr st)"

definition state_Load :: "(string \<Rightarrow> State option) \<Rightarrow> bool \<Rightarrow> time \<Rightarrow> datadir option \<Rightarrow> state_error + State" where
  "state_Load dec readable now d = loadState dec readable now d"

section \<open>Acquiring the lock\<close>

text \<open>
  What surrounds a call: whether the directory can be created, what \<^verbatim>\<open>TryLockContext\<close>
  answers when it is called at an instant and after how many nanoseconds, whether the file can be
  read, and the contents of the directory, all as functions of the time.
\<close>

record lock_env =
  le_mkdir :: "time \<Rightarrow> bool"
  le_trylock :: "time \<Rightarrow> nat \<times> (unit + bool)"
  le_readable :: "time \<Rightarrow> bool"
  le_dir :: "time \<Rightarrow> datadir option"

text \<open>The result: the time taken, whether the lock is held, and the error or the loaded state.\<close>

definition LoadAndLock :: "(string \<Rightarrow> State option) \<Rightarrow> lock_env \<Rightarrow> time \<Rightarrow> nat \<times> bool \<times> (state_error + State)" where
  "LoadAndLock dec v now =
     (if \<not> le_mkdir v now then (0, False, Inl CreateStateDir)
      else case le_trylock v now of
        (el, Inl _) \<Rightarrow> (el, False, Inl AcquireLock)
      | (el, Inr False) \<Rightarrow> (el, False, Inl NotAcquired)
      | (el, Inr True) \<Rightarrow>
          let t = now + int el
          in case loadState dec (le_readable v t) t (le_dir v t) of
               Inl e \<Rightarrow> (el, False, Inl e)
             | Inr st \<Rightarrow> (el, True, Inr st))"

text \<open>
  The loop of \<open>LoadAndLockWithRetry\<close>; \<open>deadline\<close> is that of the derived context. The result
  carries the instant of the return.
\<close>

function retry_loop ::
  "(time \<Rightarrow> nat \<times> bool \<times> (state_error + State)) \<Rightarrow> time \<Rightarrow> time \<Rightarrow> time \<times> bool \<times> (state_error + State)" where
  "retry_loop attempt deadline now =
     (case attempt now of
        (el, held, Inr st) \<Rightarrow> (now + int el, held, Inr st)
      | (el, held, Inl e) \<Rightarrow>
          let t = now + int el
          in if deadline \<le> t then (t, held, Inl (Timeout e))
             else if deadline \<le> t + retryInterval then (deadline, held, Inl DeadlineExceeded)
             else retry_loop attempt deadline (t + retryInterval))"
  by pat_completeness auto
termination
  by (relation "measure (\<lambda>(attempt, deadline, now). nat (deadline - now))")
    (auto simp: retryInterval_def millisecond_def)

declare retry_loop.simps [simp del]

definition LoadAndLockWithRetry ::
  "(string \<Rightarrow> State option) \<Rightarrow> (time \<Rightarrow> lock_env) \<Rightarrow> time option \<Rightarrow> duration \<Rightarrow> time \<Rightarrow> time \<times> bool \<times> (state_error + State)" where
  "LoadAndLockWithRetry dec env ctx timeout now =
     (let deadline = (case ctx of None \<Rightarrow> now + timeout | Some d \<Rightarrow> min d (now + timeout))
      in retry_loop (LoadAndLock dec (env deadline)) deadline now)"

section \<open>Saving\<close>

definition put_file :: "string \<Rightarrow> string \<Rightarrow> datadir \<Rightarrow> datadir" where
  "put_file n data d = d\<lparr>dd_files := AList.update n data (dd_files d)\<rparr>"

definition del_file :: "string \<Rightarrow> datadir \<Rightarrow> datadir" where
  "del_file n d = d\<lparr>dd_files := AList.delete n (dd_files d)\<rparr>"

text \<open>\<^verbatim>\<open>os.Rename\<close> replaces the target in one step.\<close>

definition rename_file :: "string \<Rightarrow> string \<Rightarrow> datadir \<Rightarrow> datadir" where
  "rename_file old new d =
     (case map_of (dd_files d) old of
        None \<Rightarrow> d
      | Some data \<Rightarrow> put_file new data (del_file old d))"

text \<open>
  Which of the system calls of a save succeed: \<open>sv_written\<close> is the number of bytes written
  before an error, \<open>sv_remove\<close> whether the removal of the temporary file succeeds.
\<close>

record save_env =
  sv_create :: bool
  sv_written :: "nat option"
  sv_close :: bool
  sv_rename :: bool
  sv_remove :: bool

definition remove_temp :: "save_env \<Rightarrow> string \<Rightarrow> datadir \<Rightarrow> datadir" where
  "remove_temp v tmp d = (if sv_remove v then del_file tmp d else d)"

definition Save ::
  "(State \<Rightarrow> string option) \<Rightarrow> save_env \<Rightarrow> string \<Rightarrow> State \<Rightarrow> datadir \<Rightarrow> state_error option \<times> State \<times> datadir" where
  "Save enc v tmp st d =
     (let st = st\<lparr>st_Version := stateVersion\<rparr>
      in case enc st of
           None \<Rightarrow> (Some MarshalState, st, d)
         | Some data \<Rightarrow>
             if \<not> sv_create v then (Some CreateTemp, st, d)
             else let d = put_file tmp [] d
               in case sv_written v of
                    Some n \<Rightarrow> (Some WriteTemp, st, remove_temp v tmp (put_file tmp (take n data) d))
                  | None \<Rightarrow>
                      let d = put_file tmp data d
                      in if \<not> sv_close v then (Some CloseTemp, st, remove_temp v tmp d)
                         else if \<not> sv_rename v then (Some RenameState, st, remove_temp v tmp d)
                         else (None, st, rename_file tmp stateFileName d))"

definition Release :: "nat \<Rightarrow> datadir \<Rightarrow> datadir" where
  "Release p d = (if dd_lock d = Some p then d\<lparr>dd_lock := None\<rparr> else d)"

text \<open>\<open>LockedState.Remove\<close>; \<open>removable\<close> says whether an existing file can be removed.\<close>

definition state_Remove :: "bool \<Rightarrow> datadir \<Rightarrow> state_error option \<times> datadir" where
  "state_Remove removable d =
     (case map_of (dd_files d) stateFileName of
        None \<Rightarrow> (None, d)
      | Some _ \<Rightarrow> if removable then (None, del_file stateFileName d) else (Some RemoveState, d))"

section \<open>Saving and loading\<close>

text \<open>The names \<^verbatim>\<open>os.CreateTemp\<close> makes from the pattern \<^verbatim>\<open>state-*.json.tmp\<close>.\<close>

definition temp_name :: "string \<Rightarrow> bool" where
  "temp_name n \<longleftrightarrow> HasPrefix n ''state-'' \<and> HasSuffix n ''.json.tmp''"

lemma temp_not_state: "temp_name n \<Longrightarrow> n \<noteq> stateFileName" "temp_name n \<Longrightarrow> n \<noteq> lockFileName"
  by (auto simp: temp_name_def HasPrefix_def stateFileName_def lockFileName_def)

named_theorems disk \<open>lookups in a directory after an operation\<close>

definition file_of :: "datadir \<Rightarrow> string \<Rightarrow> string option" where
  "file_of d n = map_of (dd_files d) n"

lemma file_put [disk]: "file_of (put_file n x d) m = (if m = n then Some x else file_of d m)"
  by (simp add: file_of_def put_file_def update_conv)

lemma file_del [disk]: "file_of (del_file n d) m = (if m = n then None else file_of d m)"
  by (simp add: file_of_def del_file_def delete_conv)

lemma file_rename [disk]:
  "file_of d old = Some x \<Longrightarrow> old \<noteq> new \<Longrightarrow>
   file_of (rename_file old new d) m = (if m = new then Some x else if m = old then None else file_of d m)"
  by (simp add: rename_file_def file_of_def put_file_def del_file_def update_conv delete_conv)

lemma lock_files [disk]:
  "dd_lock (put_file n x d) = dd_lock d" "dd_lock (del_file n d) = dd_lock d"
  "dd_lock (rename_file n m d) = dd_lock d" "dd_lock (remove_temp v n d) = dd_lock d"
  by (simp_all add: put_file_def del_file_def rename_file_def remove_temp_def split: option.splits)

lemma file_lock [disk]: "file_of (d\<lparr>dd_lock := x\<rparr>) m = file_of d m"
  by (simp add: file_of_def)

lemma loadState_file:
  "loadState dec r now (Some d) =
     (case file_of d stateFileName of
        None \<Rightarrow> Inr (default_state now)
      | Some data \<Rightarrow> if \<not> r then Inl ReadState else case dec data of None \<Rightarrow> Inl ParseState | Some st \<Rightarrow> Inr st)"
  by (simp add: loadState_def file_of_def)

lemma Save_lock [disk]: "Save enc v tmp st d = (err, st', d') \<Longrightarrow> dd_lock d' = dd_lock d"
  by (auto simp: Save_def Let_def disk split: option.splits if_splits)

lemma Save_failed:
  assumes "Save enc v tmp st d = (Some e, st', d')" "temp_name tmp" "n \<noteq> tmp"
  shows "file_of d' n = file_of d n"
  using assms by (auto simp: Save_def Let_def disk remove_temp_def split: option.splits if_splits)

lemma Save_failed_clean:
  assumes "Save enc v tmp st d = (Some e, st', d')" "sv_remove v" "file_of d tmp = None"
  shows "file_of d' tmp = None"
  using assms by (auto simp: Save_def Let_def disk remove_temp_def split: option.splits if_splits)

lemma Save_ok:
  assumes "Save enc v tmp st d = (None, st', d')" "temp_name tmp"
  shows "\<exists>data. enc (st\<lparr>st_Version := stateVersion\<rparr>) = Some data \<and> st' = st\<lparr>st_Version := stateVersion\<rparr> \<and>
    (\<forall>n. file_of d' n = (if n = stateFileName then Some data else if n = tmp then None else file_of d n))"
  using assms temp_not_state(1) [OF assms(2)]
  by (auto simp: Save_def Let_def disk split: option.splits if_splits)

section \<open>Processes that share a data directory\<close>

text \<open>
  Where a process is: it has no lock; it has the lock and has not read the file; it works on
  a state, with \<open>base\<close> the contents of the file when it last read or wrote it; it is writing
  a temporary file; it has written it in full.
\<close>

datatype pc =
  Idle
| Acquired
| Holding "State option" State
| Writing "State option" State string string
| Written "State option" State string string

text \<open>What happened to the file, oldest first: a commit with its base, or a removal.\<close>

datatype state_event = Committed "State option" "State option" | Removed

record world =
  wd_dir :: datadir
  wd_pc :: "nat \<Rightarrow> pc"
  wd_log :: "state_event list"

definition event_state :: "state_event \<Rightarrow> State option" where
  "event_state e = (case e of Committed _ c \<Rightarrow> c | Removed \<Rightarrow> None)"

definition current :: "State option \<Rightarrow> state_event list \<Rightarrow> State option" where
  "current init es = (if es = [] then init else event_state (last es))"

definition goto :: "nat \<Rightarrow> pc \<Rightarrow> datadir \<Rightarrow> world \<Rightarrow> world" where
  "goto p c d w = w\<lparr>wd_dir := d, wd_pc := (wd_pc w)(p := c)\<rparr>"

inductive state_step :: "(State \<Rightarrow> string option) \<Rightarrow> (string \<Rightarrow> State option) \<Rightarrow> world \<Rightarrow> world \<Rightarrow> bool"
  for enc dec where
  acquire: "wd_pc w p = Idle \<Longrightarrow> dd_lock (wd_dir w) = None \<Longrightarrow>
     state_step enc dec w (goto p Acquired ((put_file lockFileName [] (wd_dir w))\<lparr>dd_lock := Some p\<rparr>) w)"
| load: "wd_pc w p = Acquired \<Longrightarrow> loadState dec True now (Some (wd_dir w)) = Inr st \<Longrightarrow>
     state_step enc dec w (goto p (Holding (Option.bind (file_of (wd_dir w) stateFileName) dec) st) (wd_dir w) w)"
| load_fails: "wd_pc w p = Acquired \<Longrightarrow> loadState dec r now (Some (wd_dir w)) = Inl e \<Longrightarrow>
     state_step enc dec w (goto p Idle (Release p (wd_dir w)) w)"
| modify: "wd_pc w p = Holding b c \<Longrightarrow> state_step enc dec w (goto p (Holding b c') (wd_dir w) w)"
| create: "wd_pc w p = Holding b c \<Longrightarrow> c' = c\<lparr>st_Version := stateVersion\<rparr> \<Longrightarrow> enc c' = Some data \<Longrightarrow>
     temp_name tmp \<Longrightarrow> file_of (wd_dir w) tmp = None \<Longrightarrow>
     state_step enc dec w (goto p (Writing b c' tmp data) (put_file tmp [] (wd_dir w)) w)"
| write_part: "wd_pc w p = Writing b c tmp data \<Longrightarrow>
     state_step enc dec w (goto p (Writing b c tmp data) (put_file tmp (take n data) (wd_dir w)) w)"
| write_all: "wd_pc w p = Writing b c tmp data \<Longrightarrow>
     state_step enc dec w (goto p (Written b c tmp data) (put_file tmp data (wd_dir w)) w)"
| commit: "wd_pc w p = Written b c tmp data \<Longrightarrow>
     state_step enc dec w
       ((goto p (Holding (dec data) c) (rename_file tmp stateFileName (wd_dir w)) w)
          \<lparr>wd_log := wd_log w @ [Committed b (dec data)]\<rparr>)"
| give_up: "wd_pc w p = Writing b c tmp data \<or> wd_pc w p = Written b c tmp data \<Longrightarrow>
     state_step enc dec w (goto p (Holding b c) (remove_temp v tmp (wd_dir w)) w)"
| remove: "wd_pc w p = Holding b c \<Longrightarrow> state_Remove True (wd_dir w) = (None, d) \<Longrightarrow>
     state_step enc dec w ((goto p (Holding None c) d w)\<lparr>wd_log := wd_log w @ [Removed]\<rparr>)"
| release: "wd_pc w p = Holding b c \<Longrightarrow> state_step enc dec w (goto p Idle (Release p (wd_dir w)) w)"
| crash: "state_step enc dec w (goto p Idle (Release p (wd_dir w)) w)"

text \<open>At the start nobody has the lock, and the file is absent or holds a state.\<close>

definition state_init :: "(string \<Rightarrow> State option) \<Rightarrow> world \<Rightarrow> bool" where
  "state_init dec w \<longleftrightarrow>
     dd_lock (wd_dir w) = None \<and> (\<forall>p. wd_pc w p = Idle) \<and> wd_log w = [] \<and>
     (\<forall>data. file_of (wd_dir w) stateFileName = Some data \<longrightarrow> dec data \<noteq> None)"

definition file_state :: "(string \<Rightarrow> State option) \<Rightarrow> datadir \<Rightarrow> State option" where
  "file_state dec d = Option.bind (file_of d stateFileName) dec"

text \<open>The decoder accepts what the encoder writes.\<close>

definition decodable :: "(State \<Rightarrow> string option) \<Rightarrow> (string \<Rightarrow> State option) \<Rightarrow> bool" where
  "decodable enc dec \<longleftrightarrow> (\<forall>s data. enc s = Some data \<longrightarrow> dec data \<noteq> None)"

section \<open>The invariant of the shared directory\<close>

definition serial :: "State option \<Rightarrow> state_event list \<Rightarrow> bool" where
  "serial init es \<longleftrightarrow> (\<forall>i < length es. \<forall>b c. es ! i = Committed b c \<longrightarrow> b = current init (take i es))"

definition pc_base :: "pc \<Rightarrow> State option option" where
  "pc_base c = (case c of Holding b _ \<Rightarrow> Some b | Writing b _ _ _ \<Rightarrow> Some b | Written b _ _ _ \<Rightarrow> Some b | _ \<Rightarrow> None)"

definition pc_ok :: "(State \<Rightarrow> string option) \<Rightarrow> State option \<Rightarrow> datadir \<Rightarrow> pc \<Rightarrow> bool" where
  "pc_ok enc cur d c \<longleftrightarrow> (\<forall>b. pc_base c = Some b \<longrightarrow> b = cur) \<and>
     (case c of
        Writing _ x tmp data \<Rightarrow> enc x = Some data \<and> temp_name tmp
      | Written _ x tmp data \<Rightarrow> enc x = Some data \<and> temp_name tmp \<and> file_of d tmp = Some data
      | _ \<Rightarrow> True)"

definition state_inv :: "(State \<Rightarrow> string option) \<Rightarrow> (string \<Rightarrow> State option) \<Rightarrow> State option \<Rightarrow> world \<Rightarrow> bool" where
  "state_inv enc dec init w \<longleftrightarrow>
     (\<forall>p. wd_pc w p \<noteq> Idle \<longrightarrow> dd_lock (wd_dir w) = Some p) \<and>
     (\<forall>data. file_of (wd_dir w) stateFileName = Some data \<longrightarrow> dec data \<noteq> None) \<and>
     file_state dec (wd_dir w) = current init (wd_log w) \<and>
     (\<forall>p. pc_ok enc (current init (wd_log w)) (wd_dir w) (wd_pc w p)) \<and>
     serial init (wd_log w)"

lemma goto_simps [simp]:
  "wd_dir (goto p c d w) = d" "wd_pc (goto p c d w) q = (if q = p then c else wd_pc w q)" "wd_log (goto p c d w) = wd_log w"
  by (simp_all add: goto_def)

lemma current_snoc [simp]: "current init (es @ [e]) = event_state e"
  by (simp add: current_def)

lemma serial_snoc:
  "serial init (es @ [e]) \<longleftrightarrow> serial init es \<and> (\<forall>b c. e = Committed b c \<longrightarrow> b = current init es)"
  by (auto simp: serial_def nth_append less_Suc_eq)

lemma pc_ok_Idle [simp]: "pc_ok enc cur d Idle"
  by (simp add: pc_ok_def pc_base_def)

lemma file_Release [disk]: "file_of (Release p d) n = file_of d n"
  by (simp add: Release_def file_of_def)

lemma others_idle:
  "state_inv enc dec init w \<Longrightarrow> wd_pc w p \<noteq> Idle \<Longrightarrow> q \<noteq> p \<Longrightarrow> wd_pc w q = Idle"
  unfolding state_inv_def by (metis option.inject)

text \<open>
  A step of the process that has the lock: the others are idle, so only its own part has to
  be shown again.
\<close>

lemma holder_step:
  assumes "state_inv enc dec init w" "wd_pc w p \<noteq> Idle" "dd_lock d = (if c = Idle then None else Some p)"
    and "\<And>data. file_of d stateFileName = Some data \<Longrightarrow> dec data \<noteq> None"
    and "file_state dec d = current init log" "pc_ok enc (current init log) d c" "serial init log"
  shows "state_inv enc dec init ((goto p c d w)\<lparr>wd_log := log\<rparr>)"
  using assms others_idle [OF assms(1,2)] by (auto simp: state_inv_def)

lemma holder_step_log:
  assumes "state_inv enc dec init w" "wd_pc w p \<noteq> Idle" "dd_lock d = (if c = Idle then None else Some p)"
    and "file_of d stateFileName = file_of (wd_dir w) stateFileName"
    and "pc_ok enc (current init (wd_log w)) d c"
  shows "state_inv enc dec init (goto p c d w)"
proof -
  have "state_inv enc dec init ((goto p c d w)\<lparr>wd_log := wd_log w\<rparr>)"
    by (rule holder_step [OF assms(1-3)]) (use assms(1,4,5) in \<open>auto simp: state_inv_def file_state_def\<close>)
  then show ?thesis by (simp add: goto_def)
qed

lemma state_step_inv:
  assumes "state_step enc dec w w'" "state_inv enc dec init w" "decodable enc dec"
  shows "state_inv enc dec init w'"
  using assms(1)
proof cases
  case (acquire p)
  then have "wd_pc w q = Idle" for q using assms(2) by (fastforce simp: state_inv_def)
  then show ?thesis using assms(2) acquire
    by (auto simp: state_inv_def file_state_def disk pc_ok_def pc_base_def stateFileName_def lockFileName_def)
next
  case (load p now st)
  then have "dd_lock (wd_dir w) = Some p" "file_state dec (wd_dir w) = current init (wd_log w)"
    using assms(2) by (auto simp: state_inv_def)
  then show ?thesis unfolding load(1)
    by (intro holder_step_log [OF assms(2)]) (use load in \<open>simp_all add: pc_ok_def pc_base_def file_state_def\<close>)
next
  case (load_fails p r now e)
  then have "dd_lock (wd_dir w) = Some p" using assms(2) by (auto simp: state_inv_def)
  then show ?thesis unfolding load_fails(1)
    by (intro holder_step_log [OF assms(2)]) (use load_fails in \<open>simp_all add: disk Release_def\<close>)
next
  case (modify p b c c')
  then have "dd_lock (wd_dir w) = Some p" "pc_ok enc (current init (wd_log w)) (wd_dir w) (Holding b c)"
    using assms(2) by (auto simp: state_inv_def) metis
  then show ?thesis unfolding modify(1)
    by (intro holder_step_log [OF assms(2)]) (use modify in \<open>simp_all add: pc_ok_def pc_base_def\<close>)
next
  case (create p b c c' data tmp)
  then have "dd_lock (wd_dir w) = Some p" "pc_ok enc (current init (wd_log w)) (wd_dir w) (Holding b c)"
    using assms(2) by (auto simp: state_inv_def) metis
  then show ?thesis unfolding create(1)
    by (intro holder_step_log [OF assms(2)])
      (use create temp_not_state in \<open>auto simp: pc_ok_def pc_base_def disk\<close>)
next
  case (write_part p b c tmp data n)
  then have "dd_lock (wd_dir w) = Some p" "pc_ok enc (current init (wd_log w)) (wd_dir w) (Writing b c tmp data)"
    using assms(2) by (auto simp: state_inv_def) metis
  then show ?thesis unfolding write_part(1)
    by (intro holder_step_log [OF assms(2)])
      (use write_part temp_not_state in \<open>auto simp: pc_ok_def pc_base_def disk\<close>)
next
  case (write_all p b c tmp data)
  then have "dd_lock (wd_dir w) = Some p" "pc_ok enc (current init (wd_log w)) (wd_dir w) (Writing b c tmp data)"
    using assms(2) by (auto simp: state_inv_def) metis
  then show ?thesis unfolding write_all(1)
    by (intro holder_step_log [OF assms(2)])
      (use write_all temp_not_state in \<open>auto simp: pc_ok_def pc_base_def disk\<close>)
next
  case (commit p b c tmp data)
  then have *: "dd_lock (wd_dir w) = Some p" "pc_ok enc (current init (wd_log w)) (wd_dir w) (Written b c tmp data)"
    using assms(2) by (auto simp: state_inv_def) metis
  then have t: "tmp \<noteq> stateFileName" "file_of (wd_dir w) tmp = Some data" "enc c = Some data" "b = current init (wd_log w)"
    using temp_not_state by (auto simp: pc_ok_def pc_base_def)
  show ?thesis unfolding commit(1)
    by (intro holder_step [OF assms(2)])
      (use commit * t assms(2,3) in \<open>auto simp: decodable_def pc_ok_def pc_base_def disk file_state_def serial_snoc event_state_def state_inv_def\<close>)
next
  case (give_up p b c tmp data v)
  then have *: "dd_lock (wd_dir w) = Some p" "pc_ok enc (current init (wd_log w)) (wd_dir w) (wd_pc w p)"
    using assms(2) by (auto simp: state_inv_def)
  then have "temp_name tmp" "b = current init (wd_log w)" using give_up(2) by (auto simp: pc_ok_def pc_base_def)
  then show ?thesis unfolding give_up(1)
    by (intro holder_step_log [OF assms(2)])
      (use give_up temp_not_state(1) [of tmp] * in \<open>auto simp: pc_ok_def pc_base_def disk remove_temp_def\<close>)
next
  case (remove p b c d)
  then have *: "dd_lock (wd_dir w) = Some p" using assms(2) by (auto simp: state_inv_def)
  have d: "file_of d stateFileName = None" "dd_lock d = dd_lock (wd_dir w)"
    using remove(3) by (auto simp: state_Remove_def disk file_of_def [symmetric] split: option.splits)
  show ?thesis unfolding remove(1)
    by (intro holder_step [OF assms(2)])
      (use remove * d assms(2) in \<open>auto simp: pc_ok_def pc_base_def file_state_def serial_snoc event_state_def state_inv_def\<close>)
next
  case (release p b c)
  then have "dd_lock (wd_dir w) = Some p" using assms(2) by (auto simp: state_inv_def)
  then show ?thesis unfolding release(1)
    by (intro holder_step_log [OF assms(2)]) (use release in \<open>simp_all add: disk Release_def\<close>)
next
  case (crash p)
  show ?thesis
  proof (cases "wd_pc w p = Idle")
    case True
    then have "w' = w\<lparr>wd_dir := Release p (wd_dir w)\<rparr>" using crash by (simp add: goto_def fun_upd_idem)
    moreover have "pc_ok enc cur (Release p d) c = pc_ok enc cur d c" for cur d c
      by (simp add: pc_ok_def disk split: pc.split)
    ultimately show ?thesis using assms(2) True by (auto simp: state_inv_def file_state_def disk) (auto simp: Release_def)
  next
    case False
    then have "dd_lock (wd_dir w) = Some p" using assms(2) by (auto simp: state_inv_def)
    then show ?thesis unfolding crash(1)
      by (intro holder_step_log [OF assms(2)]) (use False in \<open>simp_all add: disk Release_def\<close>)
  qed
qed

lemma state_reachable_inv:
  assumes "(state_step enc dec)\<^sup>*\<^sup>* w0 w" "state_init dec w0" "decodable enc dec"
  shows "state_inv enc dec (file_state dec (wd_dir w0)) w"
  using assms(1)
proof (induction rule: rtranclp_induct)
  case base
  then show ?case using assms(2) by (auto simp: state_inv_def state_init_def current_def serial_def)
next
  case (step v w)
  then show ?case using state_step_inv [OF step(2) step(3)] assms(3) by blast
qed

section \<open>A save is a run of the step relation\<close>

lemma goto_goto [simp]: "goto p c d (goto p c' d' w) = goto p c d w"
  by (simp add: goto_def)

lemma save_create:
  assumes "wd_pc w p = Holding b c" "temp_name tmp" "file_of (wd_dir w) tmp = None"
    "enc (c\<lparr>st_Version := stateVersion\<rparr>) = Some data"
  shows "(state_step enc dec)\<^sup>*\<^sup>* w (goto p (Writing b (c\<lparr>st_Version := stateVersion\<rparr>) tmp data) (put_file tmp [] (wd_dir w)) w)"
  by (rule r_into_rtranclp, rule state_step.create) (use assms in auto)

text \<open>
  From a process that holds a state, \<open>Save\<close> is a sequence of its steps: the directory is the
  one \<open>Save\<close> returns, and the log grows by the commit when there is no error.
\<close>

lemma Save_runs:
  assumes "wd_pc w p = Holding b c" "temp_name tmp" "file_of (wd_dir w) tmp = None"
    and "Save enc v tmp c (wd_dir w) = (err, c', d)"
  shows "\<exists>w' b'. (state_step enc dec)\<^sup>*\<^sup>* w w' \<and> wd_dir w' = d \<and> wd_pc w' p = Holding b' c' \<and>
    (err \<noteq> None \<longrightarrow> b' = b \<and> wd_log w' = wd_log w) \<and>
    (err = None \<longrightarrow> wd_log w' = wd_log w @ [Committed b b'] \<and> (\<exists>data. enc c' = Some data \<and> b' = dec data))"
proof -
  let ?c = "c\<lparr>st_Version := stateVersion\<rparr>"
  have c': "c' = ?c" using assms(4) by (auto simp: Save_def Let_def split: option.splits if_splits)
  have m: "(state_step enc dec)\<^sup>*\<^sup>* w (goto p (Holding b ?c) (wd_dir w) w)"
    by (rule r_into_rtranclp, rule state_step.modify [OF assms(1)])
  show ?thesis
  proof (cases "enc ?c = None \<or> \<not> sv_create v")
    case True
    then have "d = wd_dir w \<and> err \<noteq> None" using assms(4) by (auto simp: Save_def Let_def split: option.splits)
    then show ?thesis using m c' by (intro exI [of _ "goto p (Holding b ?c) (wd_dir w) w"]) auto
  next
    case False
    then obtain data where e: "enc ?c = Some data" "sv_create v" by auto
    let ?w1 = "goto p (Writing b ?c tmp data) (put_file tmp [] (wd_dir w)) w"
    have 1: "(state_step enc dec)\<^sup>*\<^sup>* w ?w1" by (rule save_create) (use assms e(1) in auto)
    show ?thesis
    proof (cases "sv_written v")
      case (Some n)
      let ?w2 = "goto p (Writing b ?c tmp data) (put_file tmp (take n data) (wd_dir ?w1)) ?w1"
      have 2: "state_step enc dec ?w1 ?w2" by (rule state_step.write_part) simp
      have 3: "state_step enc dec ?w2 (goto p (Holding b ?c) (remove_temp v tmp (wd_dir ?w2)) ?w2)"
        by (rule state_step.give_up) simp
      show ?thesis
        using Some e assms(4) c' 1 2 3
        by (intro exI [of _ "goto p (Holding b ?c) (remove_temp v tmp (wd_dir ?w2)) ?w2"] exI [of _ b])
          (auto simp: Save_def Let_def intro: rtranclp.rtrancl_into_rtrancl)
    next
      case None
      let ?w2 = "goto p (Written b ?c tmp data) (put_file tmp data (wd_dir ?w1)) ?w1"
      have 2: "(state_step enc dec)\<^sup>*\<^sup>* w ?w2"
        using 1 state_step.write_all [of ?w1 p b ?c tmp data enc dec] by (simp add: rtranclp.rtrancl_into_rtrancl)
      show ?thesis
      proof (cases "sv_close v \<and> sv_rename v")
        case True
        let ?w3 = "(goto p (Holding (dec data) ?c) (rename_file tmp stateFileName (wd_dir ?w2)) ?w2)
          \<lparr>wd_log := wd_log ?w2 @ [Committed b (dec data)]\<rparr>"
        have "state_step enc dec ?w2 ?w3" by (rule state_step.commit) simp
        then show ?thesis
          using True None e assms(4) c' 2
          by (intro exI [of _ ?w3] exI [of _ "dec data"])
            (auto simp: Save_def Let_def intro: rtranclp.rtrancl_into_rtrancl)
      next
        case False
        let ?w3 = "goto p (Holding b ?c) (remove_temp v tmp (wd_dir ?w2)) ?w2"
        have "state_step enc dec ?w2 ?w3" by (rule state_step.give_up) simp
        then show ?thesis
          using False None e assms(4) c' 2
          by (intro exI [of _ ?w3] exI [of _ b])
            (auto simp: Save_def Let_def split: if_splits intro: rtranclp.rtrancl_into_rtrancl)
      qed
    qed
  qed
qed

section \<open>Waiting for the lock\<close>

text \<open>
  What the documentation of \<^verbatim>\<open>TryLockContext\<close> says of a call with a deadline, \<open>free\<close>
  being the instants at which nobody else has the lock: it returns when the context is done at
  the latest; it reports success only for a lock it could take; it gives up only when the context
  is done; and it polls, so that a lock that stays free for an interval is taken.
\<close>

definition trylock_doc :: "(time \<Rightarrow> bool) \<Rightarrow> time \<Rightarrow> (time \<Rightarrow> nat \<times> (unit + bool)) \<Rightarrow> bool" where
  "trylock_doc free deadline try \<longleftrightarrow>
     (\<forall>t el r. try t = (el, r) \<longrightarrow>
        (t + int el \<le> max t deadline) \<and>
        (r = Inr True \<longrightarrow> free (t + int el)) \<and>
        (r \<noteq> Inr True \<longrightarrow> deadline \<le> t + int el) \<and>
        (\<forall>u. t \<le> u \<longrightarrow> u + retryInterval \<le> deadline \<longrightarrow> (\<forall>x. u \<le> x \<and> x \<le> u + retryInterval \<longrightarrow> free x) \<longrightarrow> r = Inr True))"

text \<open>Between two instants nothing keeps a process from the lock and from the state.\<close>

definition available :: "(string \<Rightarrow> State option) \<Rightarrow> lock_env \<Rightarrow> (time \<Rightarrow> bool) \<Rightarrow> time \<Rightarrow> time \<Rightarrow> bool" where
  "available dec v free u d \<longleftrightarrow>
     (\<forall>x. u \<le> x \<longrightarrow> x \<le> d \<longrightarrow> le_mkdir v x \<and> free x \<and>
        (\<exists>st. loadState dec (le_readable v x) x (le_dir v x) = Inr st))"

lemma LoadAndLock_cases:
  assumes "LoadAndLock dec v now = (el, held, r)"
  shows "held \<longleftrightarrow> (\<exists>st. r = Inr st)"
    and "\<not> le_mkdir v now \<and> el = 0 \<or> (\<exists>x. le_trylock v now = (el, x))"
  using assms
  by (cases "le_trylock v now"; auto simp: LoadAndLock_def Let_def split: if_splits sum.splits bool.splits)+


lemma attempt_bounded:
  assumes "trylock_doc free deadline (le_trylock v)" "LoadAndLock dec v t = (el, held, r)"
  shows "t + int el \<le> max t deadline"
  using LoadAndLock_cases(2) [OF assms(2)] assms(1) by (auto simp: trylock_doc_def)

lemma retry_loop_bounded:
  assumes "trylock_doc free deadline (le_trylock v)" "now \<le> deadline"
    and "retry_loop (LoadAndLock dec v) deadline now = (t, held, r)"
  shows "t \<le> deadline \<and> (held \<longleftrightarrow> (\<exists>st. r = Inr st))"
  using assms(2,3)
proof (induction "nat (deadline - now)" arbitrary: now rule: less_induct)
  case (less now)
  have pos: "0 < retryInterval" by (simp add: retryInterval_def millisecond_def)
  obtain el h x where a: "LoadAndLock dec v now = (el, h, x)" by (metis prod_cases3)
  have b: "now + int el \<le> deadline" using attempt_bounded [OF assms(1) a] less(2) by simp
  show ?case
  proof (cases x)
    case (Inl e)
    note r = less(3) [unfolded retry_loop.simps [of _ _ now] a Inl]
    show ?thesis
      using less(1) [of "now + int el + retryInterval"] r b pos LoadAndLock_cases(1) [OF a] Inl
      by (auto simp: Let_def split: if_splits)
  next
    case (Inr st)
    then show ?thesis using less(3) [unfolded retry_loop.simps [of _ _ now] a Inr] b LoadAndLock_cases(1) [OF a] by auto
  qed
qed

text \<open>
  When the lock is available from \<open>u\<close> on, an attempt that starts no later than one interval after \<open>u\<close> succeeds or is followed by one.
\<close>

lemma retry_loop_succeeds:
  assumes "trylock_doc free deadline (le_trylock v)" "u + 2 * retryInterval \<le> deadline"
    and "available dec v free u deadline" and "now \<le> u + retryInterval"
  shows "\<exists>t st. retry_loop (LoadAndLock dec v) deadline now = (t, True, Inr st)"
proof -
  have good: "le_mkdir v x \<and> free x \<and> (\<exists>st. loadState dec (le_readable v x) x (le_dir v x) = Inr st)"
    if "u \<le> x" "x \<le> deadline" for x using assms(3) that by (simp add: available_def)
  show ?thesis
    using assms(4)
proof (induction "nat (deadline - now)" arbitrary: now rule: less_induct)
  case (less now)
  have pos: "0 < retryInterval" by (simp add: retryInterval_def millisecond_def)
  obtain el h x where a: "LoadAndLock dec v now = (el, h, x)" by (metis prod_cases3)
  show ?case
  proof (cases x)
    case (Inr st)
    then show ?thesis using a LoadAndLock_cases(1) [OF a] by (simp add: retry_loop.simps [of _ _ now])
  next
    case (Inl e)
    have early: "now + int el < u"
    proof (rule ccontr)
      assume late: "\<not> now + int el < u"
      show False
      proof (cases "le_mkdir v now")
        case False
        then have "\<not> u \<le> now" using good [of now] assms(2) less(2) pos by auto
        then show False using late a False by (simp add: LoadAndLock_def)
      next
        case True
        obtain el' y where l: "le_trylock v now = (el', y)" by (metis prod.exhaust)
        have "y = Inr True"
        proof -
          have "\<forall>x. max now u \<le> x \<and> x \<le> max now u + retryInterval \<longrightarrow> free x"
            using good assms(2) less(2) by auto
          moreover have "max now u + retryInterval \<le> deadline" using assms(2) less(2) pos by auto
          ultimately show ?thesis using assms(1) l unfolding trylock_doc_def by (metis max.cobounded1)
        qed
        moreover from this l True a have "el' = el" by (auto simp: LoadAndLock_def Let_def split: sum.splits)
        moreover have "now + int el \<le> deadline" using attempt_bounded [OF assms(1) a] assms(2) less(2) pos by auto
        ultimately show False using good [of "now + int el"] late a l True Inl by (auto simp: LoadAndLock_def)
      qed
    qed
    then have "\<not> deadline \<le> now + int el" "\<not> deadline \<le> now + int el + retryInterval"
      "now + int el + retryInterval \<le> u + retryInterval" using assms(2) pos by auto
    then show ?thesis
      using less(1) [of "now + int el + retryInterval"] pos a Inl by (auto simp: retry_loop.simps [of _ _ now])
  qed
qed
qed

section \<open>Properties of the state store\<close>

text \<open>
  C5. Processes that share a data directory, interleaved in any way and crashing at any point,
  never hold the lock together; a reader, with or without the lock, always loads a complete
  state, the last one committed; and no update is lost: every commit was made by a process
  that had read the state it replaces.
\<close>

theorem state_file_serial:
  assumes "(state_step enc dec)\<^sup>*\<^sup>* w0 w" "state_init dec w0" "decodable enc dec"
  shows "(\<forall>p q. wd_pc w p \<noteq> Idle \<and> wd_pc w q \<noteq> Idle \<longrightarrow> p = q) \<and>
    state_Load dec True now (Some (wd_dir w)) =
      Inr (case current (file_state dec (wd_dir w0)) (wd_log w) of None \<Rightarrow> default_state now | Some s \<Rightarrow> s) \<and>
    (\<forall>i < length (wd_log w). \<forall>b c. wd_log w ! i = Committed b c \<longrightarrow>
       b = current (file_state dec (wd_dir w0)) (take i (wd_log w)))"
proof -
  have inv: "state_inv enc dec (file_state dec (wd_dir w0)) w" by (rule state_reachable_inv [OF assms])
  then have c: "file_state dec (wd_dir w) = current (file_state dec (wd_dir w0)) (wd_log w)"
    "\<And>data. file_of (wd_dir w) stateFileName = Some data \<Longrightarrow> dec data \<noteq> None"
    by (auto simp: state_inv_def)
  have "state_Load dec True now (Some (wd_dir w)) =
      Inr (case file_state dec (wd_dir w) of None \<Rightarrow> default_state now | Some s \<Rightarrow> s)"
    using c(2) by (auto simp: state_Load_def loadState_file file_state_def split: option.splits)
  moreover have "p = q" if "wd_pc w p \<noteq> Idle" "wd_pc w q \<noteq> Idle" for p q
    using others_idle [OF inv that(1)] that(2) by metis
  ultimately show ?thesis using inv c(1) by (simp add: state_inv_def serial_def)
qed

definition demo_state :: State where
  "demo_state = (default_state 7)\<lparr>st_Active := True, st_Name := ''vm'', st_PID := 42\<rparr>"

definition demo_enc :: "State \<Rightarrow> string option" where
  "demo_enc st = (if st = demo_state then Some ''json'' else None)"

definition demo_dec :: "string \<Rightarrow> State option" where
  "demo_dec data = (if data = ''json'' then Some demo_state else None)"

definition demo_saves :: save_env where
  "demo_saves = \<lparr>sv_create = True, sv_written = None, sv_close = True, sv_rename = True, sv_remove = True\<rparr>"

definition demo_world :: world where
  "demo_world = \<lparr>wd_dir = \<lparr>dd_files = [], dd_lock = None\<rparr>, wd_pc = \<lambda>_. Idle, wd_log = []\<rparr>"

lemma demo_codec: "demo_enc s = Some data \<Longrightarrow> demo_dec data = Some s"
  by (auto simp: demo_enc_def demo_dec_def split: if_splits)

lemma demo_save:
  "Save demo_enc demo_saves ''state-1.json.tmp'' demo_state \<lparr>dd_files = [(lockFileName, [])], dd_lock = Some 1\<rparr> =
    (None, demo_state, \<lparr>dd_files = [(lockFileName, []), (stateFileName, ''json'')], dd_lock = Some 1\<rparr>)"
  by code_simp

text \<open>One process locks, loads, changes and saves.\<close>

lemma demo_run:
  "\<exists>w. (state_step demo_enc demo_dec)\<^sup>*\<^sup>* demo_world w \<and> wd_log w = [Committed None (Some demo_state)] \<and>
     wd_dir w = \<lparr>dd_files = [(lockFileName, []), (stateFileName, ''json'')], dd_lock = Some 1\<rparr>"
proof -
  let ?d = "\<lparr>dd_files = [(lockFileName, [])], dd_lock = Some (1 :: nat)\<rparr>"
  let ?w1 = "goto 1 Acquired ?d demo_world"
  let ?w2 = "goto 1 (Holding None (default_state 7)) ?d demo_world"
  let ?w3 = "goto 1 (Holding None demo_state) ?d demo_world"
  have 1: "state_step demo_enc demo_dec demo_world ?w1"
    using state_step.acquire [of demo_world 1] by (simp add: demo_world_def put_file_def)
  have 2: "state_step demo_enc demo_dec ?w1 ?w2"
    using state_step.load [of ?w1 1 demo_dec 7 "default_state 7"]
    by (simp add: loadState_def file_of_def stateFileName_def lockFileName_def)
  have 3: "state_step demo_enc demo_dec ?w2 ?w3"
    using state_step.modify [of ?w2 1 None "default_state 7"] by simp
  have run: "(state_step demo_enc demo_dec)\<^sup>*\<^sup>* demo_world ?w3"
    by (rule converse_rtranclp_into_rtranclp, rule 1, rule converse_rtranclp_into_rtranclp, rule 2, rule r_into_rtranclp, rule 3)
  have t: "wd_pc ?w3 1 = Holding None demo_state" "temp_name ''state-1.json.tmp''"
    "file_of (wd_dir ?w3) ''state-1.json.tmp'' = None" "wd_dir ?w3 = ?d"
    by (simp, code_simp, simp add: file_of_def lockFileName_def, simp)
  have s: "Save demo_enc demo_saves ''state-1.json.tmp'' demo_state (wd_dir ?w3) =
      (None, demo_state, \<lparr>dd_files = [(lockFileName, []), (stateFileName, ''json'')], dd_lock = Some 1\<rparr>)"
    unfolding t(4) by (rule demo_save)
  from Save_runs [OF t(1-3) s, of demo_dec] obtain w' b' where w': "(state_step demo_enc demo_dec)\<^sup>*\<^sup>* ?w3 w'"
    "wd_dir w' = \<lparr>dd_files = [(lockFileName, []), (stateFileName, ''json'')], dd_lock = Some 1\<rparr>"
    "wd_log w' = wd_log ?w3 @ [Committed None b']" "\<exists>data. demo_enc demo_state = Some data \<and> b' = demo_dec data" by blast
  have "b' = Some demo_state" using w'(4) demo_codec by auto
  then have "wd_log w' = [Committed None (Some demo_state)]" using w'(3) by (simp add: demo_world_def)
  then show ?thesis using rtranclp_trans [OF run w'(1)] w'(2) by blast
qed

lemma demo_init: "state_init demo_dec demo_world" "file_state demo_dec (wd_dir demo_world) = None"
  by (simp_all add: state_init_def demo_world_def file_of_def file_state_def)

theorem state_file_serial_witness:
  "\<exists>w :: world. wd_log w = [Committed None (Some demo_state)] \<and> state_Load demo_dec True 9 (Some (wd_dir w)) = Inr demo_state"
proof -
  obtain w where w: "(state_step demo_enc demo_dec)\<^sup>*\<^sup>* demo_world w" "wd_log w = [Committed None (Some demo_state)]"
    using demo_run by blast
  have c: "decodable demo_enc demo_dec" by (simp add: decodable_def demo_codec)
  show ?thesis
    using state_file_serial [OF w(1) demo_init(1) c, where now = 9] w(2)
    by (intro exI [of _ w]) (auto simp: current_def event_state_def)
qed

text \<open>
  C24. A save is all or nothing. When it succeeds, loading gives what decoding the written text
  gives, with the current version, and the temporary file is gone; when it fails at any of its
  steps, the state file and every other file are as before, and the temporary file is gone
  if it can be removed. The lock is not touched.
\<close>

theorem Save_atomic:
  assumes "Save enc v tmp st d = (err, st', d')" "temp_name tmp" "file_of d tmp = None"
  shows "dd_lock d' = dd_lock d \<and> st_Version st' = stateVersion \<and>
    (case err of
       None \<Rightarrow> (\<exists>data. enc st' = Some data \<and> file_of d' stateFileName = Some data \<and>
         (\<forall>s. dec data = Some s \<longrightarrow> loadState dec True now (Some d') = Inr s)) \<and>
         (\<forall>n. n \<noteq> stateFileName \<longrightarrow> file_of d' n = file_of d n)
     | Some e \<Rightarrow> loadState dec r now (Some d') = loadState dec r now (Some d) \<and>
         (\<forall>n. n \<noteq> tmp \<longrightarrow> file_of d' n = file_of d n) \<and> (sv_remove v \<longrightarrow> file_of d' tmp = None))"
proof -
  have v: "st_Version st' = stateVersion" using assms(1) by (auto simp: Save_def Let_def split: option.splits if_splits)
  show ?thesis
  proof (cases err)
    case None
    then show ?thesis
      using Save_ok [OF assms(1) [unfolded None] assms(2)] Save_lock [OF assms(1)] v assms(3) by (auto simp: loadState_file)
  next
    case (Some e)
    note a = assms(1) [unfolded Some]
    have "file_of d' stateFileName = file_of d stateFileName"
      using Save_failed [OF a assms(2)] temp_not_state(1) [OF assms(2)] by metis
    then show ?thesis
      using Some Save_failed [OF a assms(2)] Save_failed_clean [OF a _ assms(3)] Save_lock [OF a] v
      by (simp add: loadState_file)
  qed
qed

theorem Save_atomic_witness:
  "loadState demo_dec True 9 (Some (snd (snd (Save demo_enc demo_saves ''state-1.json.tmp'' demo_state
     \<lparr>dd_files = [(lockFileName, [])], dd_lock = Some 1\<rparr>)))) = Inr demo_state"
proof -
  have "temp_name ''state-1.json.tmp''"
    "file_of \<lparr>dd_files = [(lockFileName, [])], dd_lock = Some 1\<rparr> ''state-1.json.tmp'' = None" by (code_simp, code_simp)
  from Save_atomic [OF demo_save this, of demo_dec 9] show ?thesis
    unfolding demo_save using demo_codec by auto
qed


text \<open>A lock that is taken at first and released after one second.\<close>

definition demo_trylock :: "time \<Rightarrow> time \<Rightarrow> nat \<times> (unit + bool)" where
  "demo_trylock deadline t =
     (if deadline < t then (0, Inr False)
      else if max t second \<le> deadline then (nat (max t second - t), Inr True)
      else (nat (deadline - t), Inr False))"

definition demo_lock_env :: "time \<Rightarrow> lock_env" where
  "demo_lock_env deadline = \<lparr>le_mkdir = \<lambda>_. True, le_trylock = demo_trylock deadline, le_readable = \<lambda>_. True,
     le_dir = \<lambda>_. Some \<lparr>dd_files = [(stateFileName, ''json'')], dd_lock = None\<rparr>\<rparr>"

lemma demo_trylock_doc: "trylock_doc (\<lambda>x. second \<le> x) deadline (demo_trylock deadline)"
  unfolding trylock_doc_def
proof (intro allI impI)
  fix t el r
  assume "demo_trylock deadline t = (el, r)"
  then consider "deadline < t" "el = 0" "r = Inr False"
    | "t \<le> deadline" "max t second \<le> deadline" "int el = max t second - t" "r = Inr True"
    | "t \<le> deadline" "deadline < second" "int el = deadline - t" "r = Inr False"
    unfolding demo_trylock_def by (fastforce simp: max_def split: if_splits)
  then show "t + int el \<le> max t deadline \<and> (r = Inr True \<longrightarrow> second \<le> t + int el) \<and>
      (r \<noteq> Inr True \<longrightarrow> deadline \<le> t + int el) \<and>
      (\<forall>u. t \<le> u \<longrightarrow> u + retryInterval \<le> deadline \<longrightarrow>
         (\<forall>x. u \<le> x \<and> x \<le> u + retryInterval \<longrightarrow> second \<le> x) \<longrightarrow> r = Inr True)"
  proof cases
    case 3
    have "False" if "t \<le> u" "u + retryInterval \<le> deadline" "\<forall>x. u \<le> x \<and> x \<le> u + retryInterval \<longrightarrow> second \<le> x" for u
      using that(2) that(3) [rule_format, of u] 3(2) by (simp add: retryInterval_def millisecond_def)
    then show ?thesis using 3 by auto
  qed (auto simp: retryInterval_def millisecond_def)
qed


end
