(* ===== verification/Options.thy ===== *)
theory Options
  imports Runner Clone StateStore Hooks
begin

text \<open>
  The configuration of a virtual machine: \<^verbatim>\<open>options.go\<close>, the checks of
  \<^verbatim>\<open>preflight/checker.go\<close>, and the parts of \<^verbatim>\<open>microvm.go\<close> that compute on
  the configuration alone. Values of function and interface types that the caller supplies (hooks,
  checks, a network provider, a hypervisor backend) are named by numbers; what they do is an
  argument of the operations that call them.
\<close>

section \<open>Configuration\<close>

record VirtioFSMount =
  vf_Tag :: string
  vf_HostPath :: string
  vf_ReadOnly :: bool
  vf_OverrideUID :: int
  vf_OverrideGID :: int

record Check =
  chk_Name :: string
  chk_Required :: bool

datatype provider_ref = Hosted | Custom nat

record config =
  cfg_name :: string
  cfg_cpus :: u32
  cfg_memory :: u32
  cfg_tmpSizeMiB :: u32
  cfg_ports :: "PortForward list"
  cfg_initOverride :: "string list"
  cfg_rootfsPath :: string
  cfg_rootfsHooks :: "nat list"
  cfg_netProvider :: "provider_ref option"
  cfg_firewallRules :: "Rule list"
  cfg_firewallDefaultAction :: Action
  cfg_preflight :: "Check list"
  cfg_postBootHooks :: "nat list"
  cfg_dataDir :: string
  cfg_egressPolicy :: "EgressHost list option"
  cfg_virtioFS :: "VirtioFSMount list"
  cfg_dataDisks :: "string list"
  cfg_imageCache :: "string option"
  cfg_externalCache :: bool
  cfg_imageFetcher :: "nat option"
  cfg_backend :: "nat option"
  cfg_logLevel :: u32
  cfg_vsockPorts :: "VsockPort list"
  cfg_disableSSH :: bool
  cfg_cleanDataDir :: bool

text \<open>\<open>env\<close> is the variable \<^verbatim>\<open>GO_MICROVM_DATA_DIR\<close>, \<open>home\<close> the home directory if known.\<close>

definition defaultDataDir :: "string \<Rightarrow> string option \<Rightarrow> string" where
  "defaultDataDir env home =
     (if env \<noteq> [] then env
      else Join (Join (case home of None \<Rightarrow> ''/tmp'' | Some h \<Rightarrow> h) ''.config'') ''go-microvm'')"

text \<open>The checks of a Linux host.\<close>

definition registerPlatformChecks :: "Check list" where
  "registerPlatformChecks =
     [\<lparr>chk_Name = ''kvm'', chk_Required = True\<rparr>, \<lparr>chk_Name = ''cap-chown'', chk_Required = False\<rparr>,
      \<lparr>chk_Name = ''disk-space'', chk_Required = False\<rparr>, \<lparr>chk_Name = ''resources'', chk_Required = False\<rparr>]"

definition defaultConfig :: "string \<Rightarrow> config" where
  "defaultConfig dataDir =
     \<lparr>cfg_name = ''microvm'', cfg_cpus = 1, cfg_memory = 512, cfg_tmpSizeMiB = 0, cfg_ports = [],
      cfg_initOverride = [], cfg_rootfsPath = [], cfg_rootfsHooks = [], cfg_netProvider = None,
      cfg_firewallRules = [], cfg_firewallDefaultAction = Allow, cfg_preflight = registerPlatformChecks,
      cfg_postBootHooks = [], cfg_dataDir = dataDir, cfg_egressPolicy = None, cfg_virtioFS = [],
      cfg_dataDisks = [], cfg_imageCache = Some (Join dataDir ''cache''), cfg_externalCache = False,
      cfg_imageFetcher = None, cfg_backend = None, cfg_logLevel = 0, cfg_vsockPorts = [],
      cfg_disableSSH = False, cfg_cleanDataDir = False\<rparr>"

section \<open>Options\<close>

type_synonym Option = "config \<Rightarrow> config"

definition WithName :: "string \<Rightarrow> Option" where "WithName n c = c\<lparr>cfg_name := n\<rparr>"
definition WithCPUs :: "u32 \<Rightarrow> Option" where "WithCPUs n c = c\<lparr>cfg_cpus := n\<rparr>"
definition WithMemory :: "u32 \<Rightarrow> Option" where "WithMemory m c = c\<lparr>cfg_memory := m\<rparr>"
definition WithPorts :: "PortForward list \<Rightarrow> Option" where "WithPorts ps c = c\<lparr>cfg_ports := cfg_ports c @ ps\<rparr>"
definition WithInitOverride :: "string list \<Rightarrow> Option" where "WithInitOverride cmd c = c\<lparr>cfg_initOverride := cmd\<rparr>"
definition WithRootFSPath :: "string \<Rightarrow> Option" where "WithRootFSPath p c = c\<lparr>cfg_rootfsPath := p\<rparr>"
definition WithRootFSHook :: "nat list \<Rightarrow> Option" where "WithRootFSHook hs c = c\<lparr>cfg_rootfsHooks := cfg_rootfsHooks c @ hs\<rparr>"
definition WithNetProvider :: "nat \<Rightarrow> Option" where "WithNetProvider p c = c\<lparr>cfg_netProvider := Some (Custom p)\<rparr>"
definition WithFirewallRules :: "Rule list \<Rightarrow> Option" where
  "WithFirewallRules rs c = c\<lparr>cfg_firewallRules := cfg_firewallRules c @ rs\<rparr>"
definition WithFirewallDefaultAction :: "Action \<Rightarrow> Option" where
  "WithFirewallDefaultAction a c = c\<lparr>cfg_firewallDefaultAction := a\<rparr>"
definition WithPreflightChecker :: "Check list \<Rightarrow> Option" where "WithPreflightChecker k c = c\<lparr>cfg_preflight := k\<rparr>"
definition WithPreflightChecks :: "Check list \<Rightarrow> Option" where
  "WithPreflightChecks ks c = c\<lparr>cfg_preflight := cfg_preflight c @ ks\<rparr>"
definition WithPostBoot :: "nat list \<Rightarrow> Option" where "WithPostBoot hs c = c\<lparr>cfg_postBootHooks := cfg_postBootHooks c @ hs\<rparr>"
definition WithBackend :: "nat \<Rightarrow> Option" where "WithBackend b c = c\<lparr>cfg_backend := Some b\<rparr>"
definition WithDataDir :: "string \<Rightarrow> Option" where
  "WithDataDir p c =
     (let c = c\<lparr>cfg_dataDir := p\<rparr> in if cfg_externalCache c then c else c\<lparr>cfg_imageCache := Some (Join p ''cache'')\<rparr>)"
definition WithCleanDataDir :: Option where "WithCleanDataDir c = c\<lparr>cfg_cleanDataDir := True\<rparr>"
definition WithEgressPolicy :: "EgressHost list \<Rightarrow> Option" where "WithEgressPolicy p c = c\<lparr>cfg_egressPolicy := Some p\<rparr>"
definition WithVirtioFS :: "VirtioFSMount list \<Rightarrow> Option" where "WithVirtioFS ms c = c\<lparr>cfg_virtioFS := cfg_virtioFS c @ ms\<rparr>"
definition WithDataDisk :: "string list \<Rightarrow> Option" where "WithDataDisk ps c = c\<lparr>cfg_dataDisks := cfg_dataDisks c @ ps\<rparr>"
definition WithImageCache :: "string \<Rightarrow> Option" where
  "WithImageCache d c = c\<lparr>cfg_imageCache := Some d, cfg_externalCache := True\<rparr>"
definition WithImageFetcher :: "nat \<Rightarrow> Option" where "WithImageFetcher f c = c\<lparr>cfg_imageFetcher := Some f\<rparr>"
definition WithLogLevel :: "u32 \<Rightarrow> Option" where "WithLogLevel l c = c\<lparr>cfg_logLevel := l\<rparr>"
definition WithVsock :: "u32 \<Rightarrow> string \<Rightarrow> Option" where
  "WithVsock port path c = c\<lparr>cfg_vsockPorts := cfg_vsockPorts c @ [\<lparr>vp_Port = port, vp_SocketPath = path\<rparr>]\<rparr>"
definition WithoutSSH :: Option where "WithoutSSH c = c\<lparr>cfg_disableSSH := True\<rparr>"
definition WithTmpSize :: "u32 \<Rightarrow> Option" where "WithTmpSize m c = c\<lparr>cfg_tmpSizeMiB := m\<rparr>"

definition apply_options :: "Option list \<Rightarrow> config \<Rightarrow> config" where
  "apply_options opts c = fold (\<lambda>o' c. o' c) opts c"

section \<open>Preflight checks\<close>

text \<open>\<open>ok\<close> says whether a check passes; the result are the names of the required ones that fail.\<close>

definition RunAll :: "(string \<Rightarrow> bool) \<Rightarrow> Check list \<Rightarrow> string list" where
  "RunAll ok checks = map chk_Name (filter (\<lambda>k. chk_Required k \<and> \<not> ok (chk_Name k)) checks)"

section \<open>Egress policy and network\<close>

datatype policy_error = EmptyName nat | BroadWildcard nat

fun validate_hosts :: "nat \<Rightarrow> EgressHost list \<Rightarrow> policy_error option" where
  "validate_hosts i [] = None"
| "validate_hosts i (h # hs) =
     (if eh_Name h = [] then Some (EmptyName i)
      else if HasPrefix (eh_Name h) ''*.'' \<and> CHR ''.'' \<notin> set (TrimSuffix (drop 2 (eh_Name h)) ''.'') then Some (BroadWildcard i)
      else validate_hosts (Suc i) hs)"

definition enforce_policy :: "config \<Rightarrow> policy_error + config" where
  "enforce_policy c =
     (case cfg_egressPolicy c of
        None \<Rightarrow> Inr c
      | Some hosts \<Rightarrow>
          (case validate_hosts 0 hosts of
             Some e \<Rightarrow> Inl e
           | None \<Rightarrow> Inr (c\<lparr>cfg_firewallDefaultAction := Deny\<rparr>)))"

definition wireDefaultProvider :: "config \<Rightarrow> config" where
  "wireDefaultProvider c =
     (let firewallConfigured = cfg_egressPolicy c \<noteq> None \<or> cfg_firewallRules c \<noteq> [] \<or> cfg_firewallDefaultAction c \<noteq> Allow
      in if firewallConfigured \<and> cfg_netProvider c = None then c\<lparr>cfg_netProvider := Some Hosted\<rparr> else c)"

definition buildNetConfig :: "config \<Rightarrow> net_Config" where
  "buildNetConfig c =
     \<lparr>LogDir = cfg_dataDir c, Forwards = map (\<lambda>p. \<lparr>pf_Host = pf_Host p, pf_Guest = pf_Guest p\<rparr>) (cfg_ports c),
      FirewallRules = cfg_firewallRules c, FirewallDefaultAction = cfg_firewallDefaultAction c,
      net_EgressPolicy = map_option (map (\<lambda>h. \<lparr>eh_Name = eh_Name h, eh_Ports = eh_Ports h, eh_Protocol = eh_Protocol h\<rparr>))
        (cfg_egressPolicy c)\<rparr>"

section \<open>Configuration of the guest and of the machine\<close>

definition buildInitConfig :: "OCIConfig option \<Rightarrow> config \<Rightarrow> InitConfig" where
  "buildInitConfig oci c =
     (let ic = \<lparr>ic_Cmd = [], ic_Env = [''PATH=/usr/local/sbin:/usr/local/bin:/usr/sbin:/usr/bin:/sbin:/bin''], ic_WorkingDir = ''/''\<rparr>;
          ic = (case oci of
                  None \<Rightarrow> ic
                | Some o' \<Rightarrow> ic\<lparr>ic_WorkingDir := if WorkingDir o' \<noteq> [] then WorkingDir o' else ic_WorkingDir ic,
                    ic_Env := ic_Env ic @ Env o', ic_Cmd := Entrypoint o' @ Cmd o'\<rparr>)
      in if cfg_initOverride c \<noteq> [] then ic\<lparr>ic_Cmd := cfg_initOverride c\<rparr> else ic)"

record guest_Config =
  gc_TmpSizeMiB :: u32
  gc_ReadOnlyTags :: "string list"
  gc_DisableSSH :: bool

definition buildVMConfig :: "config \<Rightarrow> guest_Config" where
  "buildVMConfig c =
     \<lparr>gc_TmpSizeMiB = cfg_tmpSizeMiB c, gc_ReadOnlyTags = map vf_Tag (filter vf_ReadOnly (cfg_virtioFS c)),
      gc_DisableSSH = cfg_disableSSH c\<rparr>"

definition toHypervisorPorts :: "PortForward list \<Rightarrow> PortForward list" where
  "toHypervisorPorts ps = map (\<lambda>p. \<lparr>pf_Host = pf_Host p, pf_Guest = pf_Guest p\<rparr>) ps"

definition toHypervisorMounts :: "VirtioFSMount list \<Rightarrow> FilesystemMount list" where
  "toHypervisorMounts ms = map (\<lambda>m. \<lparr>fm_Tag = vf_Tag m, fm_HostPath = vf_HostPath m, fm_ReadOnly = vf_ReadOnly m\<rparr>) ms"

definition toHypervisorVsockPorts :: "VsockPort list \<Rightarrow> VsockPort list" where
  "toHypervisorVsockPorts ps =
     (if ps = [] then [] else map (\<lambda>p. \<lparr>vp_Port = vp_Port p, vp_SocketPath = vp_SocketPath p\<rparr>) ps)"

text \<open>The configuration handed to the backend.\<close>

definition run_VMConfig :: "config \<Rightarrow> InitConfig \<Rightarrow> string \<Rightarrow> string \<Rightarrow> VMConfig" where
  "run_VMConfig c initCfg preparedPath netSocket =
     \<lparr>vc_Name = cfg_name c, vc_RootFSPath = preparedPath, vc_NumVCPUs = cfg_cpus c, vc_RAMMiB = cfg_memory c,
      vc_PortForwards = toHypervisorPorts (cfg_ports c), vc_FilesystemMounts = toHypervisorMounts (cfg_virtioFS c),
      vc_DataDisks = cfg_dataDisks c, vc_VsockPorts = toHypervisorVsockPorts (cfg_vsockPorts c), vc_InitConfig = initCfg,
      vc_DataDir = cfg_dataDir c, vc_ConsoleLogPath = Join (cfg_dataDir c) ''console.log'', vc_LogLevel = cfg_logLevel c,
      vc_NetEndpoint = (if netSocket \<noteq> [] then \<lparr>ep_Type = NetEndpointUnixSocket, ep_Path = netSocket\<rparr>
        else \<lparr>ep_Type = NetEndpointNone, ep_Path = []\<rparr>)\<rparr>"

section \<open>Process ids\<close>

definition pidFromID :: "string \<Rightarrow> int option" where
  "pidFromID ident = (case Atoi ident of None \<Rightarrow> None | Some pid \<Rightarrow> if pid \<le> 0 then None else Some pid)"

definition cacheDir :: "config \<Rightarrow> string" where
  "cacheDir c = (case cfg_imageCache c of None \<Rightarrow> [] | Some d \<Rightarrow> d)"

section \<open>Containment of paths\<close>

definition isWithin :: "string \<Rightarrow> string \<Rightarrow> bool" where
  "isWithin base target =
     (if base = [] \<or> target = [] then False
      else case Rel base target of
        Inl _ \<Rightarrow> False
      | Inr rel \<Rightarrow> if rel = ''.'' then True else if rel = ''..'' then False else \<not> HasPrefix rel ''../'')"

end
