(* ===== verification/Lifecycle.thy ===== *)
theory Lifecycle
  imports Options
begin

text \<open>
  The life of a virtual machine: \<^verbatim>\<open>Run\<close> and the cleaning of the data directory in
  \<^verbatim>\<open>microvm.go\<close>, and the methods of \<^verbatim>\<open>VM\<close> in \<^verbatim>\<open>vm.go\<close>. What is
  called through an interface or a function value, and the operating system, is an environment
  of outcomes; each effect is an event, and the outcomes may depend on the events before. The
  state file is kept with the operations of \<^verbatim>\<open>state\<close>.
\<close>

section \<open>Events and outcomes\<close>

datatype event =
  RemoveAll string
| Signalled time int signal
| MadeDir string
| Pulled string
| Cloned string string
| RanHook nat string
| InjectedConfig string guest_Config
| PreparedRootFS string InitConfig
| NetStarted provider_ref net_Config
| NetStopped provider_ref
| SetOverride string int int
| VMStarted VMConfig
| VMStopped string
| SavedState State
| RanPostBoot nat

type_synonym trace = "event list"

datatype stat_result = Exists | NotExist | StatFails

record run_env =
  re_stat :: "string \<Rightarrow> stat_result"
  re_removeAll :: "trace \<Rightarrow> string \<Rightarrow> bool"
  re_readDir :: "string \<Rightarrow> string list option"
  re_mkdir :: bool
  re_check :: "string \<Rightarrow> bool"
  re_pull :: "string \<Rightarrow> RootFS option"
  re_clone :: "trace \<Rightarrow> bool"
  re_hook :: "trace \<Rightarrow> nat \<Rightarrow> bool"
  re_inject :: "trace \<Rightarrow> bool"
  re_prepare :: "trace \<Rightarrow> string \<Rightarrow> string option"
  re_netStart :: "trace \<Rightarrow> bool"
  re_socketPath :: string
  re_start :: "trace \<Rightarrow> string option"
  re_post :: "trace \<Rightarrow> nat \<Rightarrow> bool"
  re_stop :: "trace \<Rightarrow> bool"
  re_load :: "state_error + State"
  re_alive :: "int \<Rightarrow> time \<Rightarrow> bool"
  re_expected :: "int \<Rightarrow> bool"
  re_kill :: "int \<Rightarrow> signal \<Rightarrow> bool"
  re_locked :: "trace \<Rightarrow> State option"
  re_save :: "trace \<Rightarrow> bool"
  re_now :: time

text \<open>
  \<open>re_locked\<close> is the state that taking the lock gives, if it succeeds, and \<open>re_save\<close> whether
  writing it back succeeds. What may change files before it fails is an event in either case.
\<close>

datatype run_fail =
  CheckDataDir | CleanContents | CleanDir | CreateDataDir | PolicyInvalid policy_error | PreflightFailed "string list"
| PullFailed | CloneFailed | HookFailed nat | InjectFailed | PrepareFailed | OutsideRootFS string | NetworkFailed
| NegativeOverride string | GIDWithoutUID string | SpawnFailed | PostBootFailed nat | StopFailed
| RemoveRootFS | RemoveContents | RemoveDataDir

section \<open>Cleaning the data directory\<close>

definition staleTermTimeout :: duration where "staleTermTimeout = 5 * second"
definition staleTermPoll :: duration where "staleTermPoll = 250 * millisecond"

text \<open>The poll loop: the instant at which the process was seen dead, or none before the deadline.\<close>

function stale_poll :: "(time \<Rightarrow> bool) \<Rightarrow> time \<Rightarrow> time \<Rightarrow> time \<times> bool" where
  "stale_poll alive deadline now =
     (if now < deadline then
        let now = now + staleTermPoll in if \<not> alive now then (now, True) else stale_poll alive deadline now
      else (now, False))"
  by pat_completeness auto
termination
  by (relation "measure (\<lambda>(alive, deadline, now). nat (deadline - now))") (auto simp: staleTermPoll_def millisecond_def)

declare stale_poll.simps [simp del]

definition terminateStaleRunner :: "run_env \<Rightarrow> trace \<Rightarrow> trace" where
  "terminateStaleRunner v tr =
     (case re_load v of
        Inl _ \<Rightarrow> tr
      | Inr st \<Rightarrow>
          let pid = st_PID st
          in if pid \<le> 1 then tr
             else if \<not> re_alive v pid (re_now v) then tr
             else if \<not> re_expected v pid then tr
             else let tr = tr @ [Signalled (re_now v) (- pid) SIGTERM]
               in if \<not> re_kill v (- pid) SIGTERM then tr
                  else case stale_poll (re_alive v pid) (re_now v + staleTermTimeout) (re_now v) of
                    (t, True) \<Rightarrow> tr
                  | (t, False) \<Rightarrow> tr @ [Signalled t (- pid) SIGKILL])"

fun remove_except :: "run_env \<Rightarrow> string \<Rightarrow> string list \<Rightarrow> string list \<Rightarrow> trace \<Rightarrow> bool \<times> trace" where
  "remove_except v dataDir keep [] tr = (True, tr)"
| "remove_except v dataDir keep (e # es) tr =
     (let entryPath = Join dataDir e
      in if Clean entryPath \<in> set keep then remove_except v dataDir keep es tr
         else let ok = re_removeAll v tr entryPath; tr = tr @ [RemoveAll entryPath]
           in if \<not> ok then (False, tr) else remove_except v dataDir keep es tr)"

definition removeDataDirContentsExcept :: "run_env \<Rightarrow> string \<Rightarrow> string list \<Rightarrow> trace \<Rightarrow> bool \<times> trace" where
  "removeDataDirContentsExcept v dataDir keepPaths tr =
     (case re_readDir v dataDir of
        None \<Rightarrow> (False, tr)
      | Some es \<Rightarrow> remove_except v dataDir (map Clean (filter (\<lambda>p. p \<noteq> []) keepPaths)) es tr)"

definition cleanDataDir :: "run_env \<Rightarrow> config \<Rightarrow> trace \<Rightarrow> run_fail option \<times> trace" where
  "cleanDataDir v c tr =
     (if cfg_dataDir c = [] then (None, tr)
      else case re_stat v (cfg_dataDir c) of
        NotExist \<Rightarrow> (None, tr)
      | StatFails \<Rightarrow> (Some CheckDataDir, tr)
      | Exists \<Rightarrow>
          let tr = terminateStaleRunner v tr;
              keep = (if cacheDir c \<noteq> [] \<and> isWithin (cfg_dataDir c) (cacheDir c) then [cacheDir c] else []) @
                (if cfg_rootfsPath c \<noteq> [] \<and> isWithin (cfg_dataDir c) (cfg_rootfsPath c) then [cfg_rootfsPath c] else [])
          in if keep \<noteq> [] then
               (case removeDataDirContentsExcept v (cfg_dataDir c) keep tr of
                  (False, tr) \<Rightarrow> (Some CleanContents, tr)
                | (True, tr) \<Rightarrow> (None, tr))
             else (if re_removeAll v tr (cfg_dataDir c) then None else Some CleanDir, tr @ [RemoveAll (cfg_dataDir c)]))"

section \<open>The virtual machine\<close>

record VM =
  v_name :: string
  v_id :: string
  v_net :: "provider_ref option"
  v_dataDir :: string
  v_rootfsPath :: string
  v_ports :: "PortForward list"
  v_cacheDir :: string

definition stop_net :: "provider_ref option \<Rightarrow> trace \<Rightarrow> trace" where
  "stop_net p tr = (case p of None \<Rightarrow> tr | Some r \<Rightarrow> tr @ [NetStopped r])"

definition stopped_state :: "State \<Rightarrow> State" where
  "stopped_state st = st\<lparr>st_Active := False, st_PID := 0\<rparr>"

definition save_state :: "run_env \<Rightarrow> (State \<Rightarrow> State) \<Rightarrow> trace \<Rightarrow> trace" where
  "save_state v f tr =
     (case re_locked v tr of None \<Rightarrow> tr | Some st \<Rightarrow> if re_save v tr then tr @ [SavedState (f st)] else tr)"

definition vm_Stop :: "run_env \<Rightarrow> VM \<Rightarrow> trace \<Rightarrow> run_fail option \<times> trace" where
  "vm_Stop v vm tr =
     (if \<not> re_stop v tr then (Some StopFailed, tr)
      else let tr = stop_net (v_net vm) (tr @ [VMStopped (v_id vm)])
        in if v_dataDir vm = [] then (None, tr)
           else (None, save_state v stopped_state tr))"

record VMInfo =
  vi_Name :: string
  vi_Active :: bool
  vi_PID :: int
  vi_ID :: string
  vi_CPUs :: u32
  vi_Memory :: u32
  vi_Ports :: "PortForward list"
  vi_CreatedAt :: time

definition vm_Status :: "bool \<Rightarrow> VM \<Rightarrow> VMInfo" where
  "vm_Status alive vm = \<lparr>vi_Name = v_name vm, vi_Active = alive,
     vi_PID = (case pidFromID (v_id vm) of None \<Rightarrow> 0 | Some pid \<Rightarrow> pid), vi_ID = v_id vm,
     vi_CPUs = 0, vi_Memory = 0, vi_Ports = v_ports vm, vi_CreatedAt = zero_time\<rparr>"

definition RunnerPID :: "VM \<Rightarrow> int" where
  "RunnerPID vm = (case pidFromID (v_id vm) of None \<Rightarrow> 0 | Some pid \<Rightarrow> pid)"

definition vm_Remove :: "run_env \<Rightarrow> VM \<Rightarrow> trace \<Rightarrow> run_fail option \<times> trace" where
  "vm_Remove v vm tr =
     (case vm_Stop v vm tr of
        (Some e, tr) \<Rightarrow> (Some e, tr)
      | (None, tr) \<Rightarrow>
          let gone = (v_rootfsPath vm \<noteq> [] \<and> \<not> isWithin (v_cacheDir vm) (v_rootfsPath vm));
              ok = re_removeAll v tr (v_rootfsPath vm);
              tr = (if gone then tr @ [RemoveAll (v_rootfsPath vm)] else tr)
          in if gone \<and> \<not> ok then (Some RemoveRootFS, tr)
             else if v_dataDir vm = [] then (None, tr)
             else if v_cacheDir vm \<noteq> [] \<and> isWithin (v_dataDir vm) (v_cacheDir vm) then
               (case removeDataDirContentsExcept v (v_dataDir vm) [v_cacheDir vm] tr of
                  (False, tr) \<Rightarrow> (Some RemoveContents, tr)
                | (True, tr) \<Rightarrow> (None, tr))
             else (if re_removeAll v tr (v_dataDir vm) then None else Some RemoveDataDir, tr @ [RemoveAll (v_dataDir vm)]))"

section \<open>Run\<close>

text \<open>The root file system: given, or pulled and, when it belongs to the cache, cloned.\<close>

definition obtain_rootfs :: "run_env \<Rightarrow> string \<Rightarrow> config \<Rightarrow> trace \<Rightarrow> (run_fail + RootFS) \<times> trace" where
  "obtain_rootfs v imageRef c tr =
     (if cfg_rootfsPath c \<noteq> [] then (Inr \<lparr>rf_Path = cfg_rootfsPath c, rf_Config = None, FromCache = False\<rparr>, tr)
      else case re_pull v imageRef of
        None \<Rightarrow> (Inl PullFailed, tr)
      | Some r \<Rightarrow>
          let tr = tr @ [Pulled imageRef]
          in if \<not> FromCache r then (Inr r, tr)
             else let workDir = Join (cfg_dataDir c) ''rootfs-work''
               in if \<not> re_clone v tr then (Inl CloneFailed, tr)
                  else (Inr \<lparr>rf_Path = workDir, rf_Config = rf_Config r, FromCache = False\<rparr>, tr @ [Cloned (rf_Path r) workDir]))"

fun run_hooks :: "run_env \<Rightarrow> string \<Rightarrow> nat list \<Rightarrow> trace \<Rightarrow> run_fail option \<times> trace" where
  "run_hooks v path [] tr = (None, tr)"
| "run_hooks v path (h # hs) tr =
     (let ok = re_hook v tr h; tr = tr @ [RanHook h path]
      in if \<not> ok then (Some (HookFailed h), tr) else run_hooks v path hs tr)"

definition inject_config :: "run_env \<Rightarrow> string \<Rightarrow> config \<Rightarrow> trace \<Rightarrow> run_fail option \<times> trace" where
  "inject_config v path c tr =
     (let g = buildVMConfig c
      in if 0 < gc_TmpSizeMiB g \<or> gc_ReadOnlyTags g \<noteq> [] \<or> gc_DisableSSH g then
           (if re_inject v tr then None else Some InjectFailed, tr @ [InjectedConfig path g])
         else (None, tr))"

fun validate_mounts :: "VirtioFSMount list \<Rightarrow> run_fail option" where
  "validate_mounts [] = None"
| "validate_mounts (m # ms) =
     (if vf_OverrideUID m < 0 \<or> vf_OverrideGID m < 0 then Some (NegativeOverride (vf_Tag m))
      else if vf_OverrideUID m = 0 \<and> 0 < vf_OverrideGID m then Some (GIDWithoutUID (vf_Tag m))
      else validate_mounts ms)"

definition override_mounts :: "VirtioFSMount list \<Rightarrow> trace" where
  "override_mounts ms =
     map (\<lambda>m. SetOverride (vf_HostPath m) (vf_OverrideUID m) (if vf_OverrideGID m \<le> 0 then vf_OverrideUID m else vf_OverrideGID m))
       (filter (\<lambda>m. 0 < vf_OverrideUID m \<and> \<not> vf_ReadOnly m) ms)"

definition started_state :: "config \<Rightarrow> string \<Rightarrow> string \<Rightarrow> time \<Rightarrow> State \<Rightarrow> State" where
  "started_state c imageRef ident now st =
     (let st = st\<lparr>st_Active := True, st_Name := cfg_name c\<rparr>;
          st = (case pidFromID ident of None \<Rightarrow> st | Some pid \<Rightarrow> st\<lparr>st_PID := pid, st_PIDStartTime := now\<rparr>)
      in st\<lparr>st_Image := imageRef, st_CPUs := cfg_cpus c, st_MemoryMB := cfg_memory c\<rparr>)"

fun post_boot :: "run_env \<Rightarrow> VM \<Rightarrow> nat list \<Rightarrow> trace \<Rightarrow> run_fail option \<times> trace" where
  "post_boot v vm [] tr = (None, tr)"
| "post_boot v vm (h # hs) tr =
     (let ok = re_post v tr h; tr = tr @ [RanPostBoot h]
      in if \<not> ok then (Some (PostBootFailed h), snd (vm_Stop v vm tr)) else post_boot v vm hs tr)"

text \<open>The last steps: the state file and the hooks of the running machine.\<close>

definition run_started :: "run_env \<Rightarrow> string \<Rightarrow> config \<Rightarrow> string \<Rightarrow> string \<Rightarrow> trace \<Rightarrow> (run_fail + VM) \<times> trace" where
  "run_started v imageRef c rootfsPath ident tr =
     (let vm = \<lparr>v_name = cfg_name c, v_id = ident, v_net = cfg_netProvider c, v_dataDir = cfg_dataDir c,
            v_rootfsPath = rootfsPath, v_ports = cfg_ports c, v_cacheDir = cacheDir c\<rparr>;
          tr = save_state v (started_state c imageRef ident (re_now v)) tr
      in case post_boot v vm (cfg_postBootHooks c) tr of
           (Some e, tr) \<Rightarrow> (Inl e, tr)
         | (None, tr) \<Rightarrow> (Inr vm, tr))"

text \<open>Starting the network and the machine.\<close>

definition run_network :: "run_env \<Rightarrow> config \<Rightarrow> trace \<Rightarrow> (run_fail + string) \<times> trace" where
  "run_network v c tr =
     (case cfg_netProvider c of
        None \<Rightarrow> (Inr [], tr)
      | Some p \<Rightarrow>
          if \<not> re_netStart v tr then (Inl NetworkFailed, tr)
          else (Inr (re_socketPath v), tr @ [NetStarted p (buildNetConfig c)]))"

definition run_machine ::
  "run_env \<Rightarrow> string \<Rightarrow> config \<Rightarrow> string \<Rightarrow> InitConfig \<Rightarrow> string \<Rightarrow> string \<Rightarrow> trace \<Rightarrow> (run_fail + VM) \<times> trace" where
  "run_machine v imageRef c rootfsPath initCfg preparedPath netSocket tr =
     (case validate_mounts (cfg_virtioFS c) of
        Some e \<Rightarrow> (Inl e, tr)
      | None \<Rightarrow>
          let tr = tr @ override_mounts (cfg_virtioFS c);
              vmCfg = run_VMConfig c initCfg preparedPath netSocket
          in case re_start v tr of
               None \<Rightarrow> (Inl SpawnFailed, stop_net (cfg_netProvider c) tr)
             | Some ident \<Rightarrow> run_started v imageRef c rootfsPath ident (tr @ [VMStarted vmCfg]))"

text \<open>Preparing the root file system and everything after it.\<close>

definition run_prepared :: "run_env \<Rightarrow> string \<Rightarrow> config \<Rightarrow> RootFS \<Rightarrow> trace \<Rightarrow> (run_fail + VM) \<times> trace" where
  "run_prepared v imageRef c rootfs tr =
     (let initCfg = buildInitConfig (rf_Config rootfs) c
      in case re_prepare v tr (rf_Path rootfs) of
           None \<Rightarrow> (Inl PrepareFailed, tr @ [PreparedRootFS (rf_Path rootfs) initCfg])
         | Some preparedPath \<Rightarrow>
             let tr = tr @ [PreparedRootFS (rf_Path rootfs) initCfg]
             in if \<not> isWithin (rf_Path rootfs) preparedPath \<and> preparedPath \<noteq> rf_Path rootfs
                then (Inl (OutsideRootFS preparedPath), tr)
                else case run_network v c tr of
                  (Inl e, tr) \<Rightarrow> (Inl e, tr)
                | (Inr netSocket, tr) \<Rightarrow> run_machine v imageRef c (rf_Path rootfs) initCfg preparedPath netSocket tr)"

definition run_rootfs :: "run_env \<Rightarrow> string \<Rightarrow> config \<Rightarrow> trace \<Rightarrow> (run_fail + VM) \<times> trace" where
  "run_rootfs v imageRef c tr =
     (case obtain_rootfs v imageRef c tr of
        (Inl e, tr) \<Rightarrow> (Inl e, tr)
      | (Inr rootfs, tr) \<Rightarrow>
          (case run_hooks v (rf_Path rootfs) (cfg_rootfsHooks c) tr of
             (Some e, tr) \<Rightarrow> (Inl e, tr)
           | (None, tr) \<Rightarrow>
               (case inject_config v (rf_Path rootfs) c tr of
                  (Some e, tr) \<Rightarrow> (Inl e, tr)
                | (None, tr) \<Rightarrow> run_prepared v imageRef c rootfs tr)))"

definition Run :: "run_env \<Rightarrow> string \<Rightarrow> config \<Rightarrow> (run_fail + VM) \<times> trace" where
  "Run v imageRef c =
     (case (if cfg_cleanDataDir c then cleanDataDir v c [] else (None, [])) of
        (Some e, tr) \<Rightarrow> (Inl e, tr)
      | (None, tr) \<Rightarrow>
          if \<not> re_mkdir v then (Inl CreateDataDir, tr)
          else let tr = tr @ [MadeDir (cfg_dataDir c)]
            in case enforce_policy c of
                 Inl e \<Rightarrow> (Inl (PolicyInvalid e), tr)
               | Inr c \<Rightarrow>
                   let c = wireDefaultProvider c; failed = RunAll (re_check v) (cfg_preflight c)
                   in if failed \<noteq> [] then (Inl (PreflightFailed failed), tr) else run_rootfs v imageRef c tr)"

section \<open>The stale runner\<close>

lemma stale_poll_seen:
  "stale_poll alive deadline now = (t, True) \<Longrightarrow> \<not> alive t \<and> now < t \<and> t < deadline + staleTermPoll"
  by (induction alive deadline now rule: stale_poll.induct)
    (subst (asm) (2) stale_poll.simps,
     auto simp: Let_def staleTermPoll_def millisecond_def split: if_splits)

lemma stale_poll_timeout:
  "stale_poll alive deadline now = (t, False) \<Longrightarrow> now \<le> deadline \<Longrightarrow>
   deadline \<le> t \<and> t < deadline + staleTermPoll \<and> (now < deadline \<longrightarrow> alive t)"
proof (induction alive deadline now rule: stale_poll.induct)
  case (1 alive deadline now)
  show ?case
  proof (cases "now < deadline")
    case False
    with 1 show ?thesis by (subst (asm) (2) stale_poll.simps) (auto simp: staleTermPoll_def millisecond_def)
  next
    case less: True
    let ?n = "now + staleTermPoll"
    have rec: "alive ?n" "stale_poll alive deadline ?n = (t, False)"
      using "1.prems"(1) less by (auto simp: stale_poll.simps [of _ _ now] Let_def split: if_splits)
    show ?thesis
    proof (cases "?n < deadline")
      case True
      then show ?thesis using "1.IH" less rec by (simp add: less_imp_le)
    next
      case False
      then have "t = ?n" using rec(2) by (simp add: stale_poll.simps [of _ _ ?n])
      with False less rec(1) show ?thesis by simp
    qed
  qed
qed

text \<open>The signals that reach a stale runner, and the conditions under which they are sent.\<close>

definition stale_target :: "run_env \<Rightarrow> int \<Rightarrow> bool" where
  "stale_target v pid = (case re_load v of
     Inl _ \<Rightarrow> False
   | Inr st \<Rightarrow> pid = st_PID st \<and> 1 < pid \<and> re_alive v pid (re_now v) \<and> re_expected v pid)"

lemma terminateStaleRunner_signals:
  assumes "Signalled t p s \<in> set (terminateStaleRunner v tr)" "Signalled t p s \<notin> set tr"
  shows "stale_target v (- p)"
    and "s = SIGTERM \<and> t = re_now v \<or>
      s = SIGKILL \<and> re_alive v (- p) t \<and> re_now v + staleTermTimeout \<le> t \<and> t < re_now v + staleTermTimeout + staleTermPoll"
proof -
  obtain st where st: "re_load v = Inr st" using assms by (cases "re_load v") (auto simp: terminateStaleRunner_def)
  show "stale_target v (- p)"
    using assms st by (auto simp: terminateStaleRunner_def stale_target_def Let_def split: if_splits prod.splits bool.splits)
  have pos: "re_now v < re_now v + staleTermTimeout" by (simp add: staleTermTimeout_def second_def)
  show "s = SIGTERM \<and> t = re_now v \<or>
      s = SIGKILL \<and> re_alive v (- p) t \<and> re_now v + staleTermTimeout \<le> t \<and> t < re_now v + staleTermTimeout + staleTermPoll"
    using assms st stale_poll_timeout [of "re_alive v (st_PID st)" "re_now v + staleTermTimeout" "re_now v"] pos
    by (auto simp: terminateStaleRunner_def Let_def split: if_splits prod.splits bool.splits)
qed

text \<open>A runner that lives on is killed: the wait is bounded.\<close>

lemma terminateStaleRunner_kills:
  assumes "stale_target v pid" "re_kill v (- pid) SIGTERM" "\<forall>t \<ge> re_now v. re_alive v pid t"
  shows "\<exists>t. Signalled t (- pid) SIGKILL \<in> set (terminateStaleRunner v tr) \<and>
    re_now v + staleTermTimeout \<le> t \<and> t < re_now v + staleTermTimeout + staleTermPoll"
proof -
  obtain st where st: "re_load v = Inr st" "pid = st_PID st" "1 < pid" "re_alive v pid (re_now v)" "re_expected v pid"
    using assms(1) by (auto simp: stale_target_def split: sum.splits)
  obtain t b where p: "stale_poll (re_alive v pid) (re_now v + staleTermTimeout) (re_now v) = (t, b)" by fastforce
  have "\<not> b" using stale_poll_seen [of "re_alive v pid" "re_now v + staleTermTimeout" "re_now v" t] p assms(3) by (cases b) auto
  with p stale_poll_timeout [of "re_alive v pid" "re_now v + staleTermTimeout" "re_now v" t]
  have "re_now v + staleTermTimeout \<le> t" "t < re_now v + staleTermTimeout + staleTermPoll"
    by (auto simp: staleTermTimeout_def second_def)
  with p \<open>\<not> b\<close> st assms(2) show ?thesis by (auto simp: terminateStaleRunner_def Let_def)
qed

section \<open>Views of the trace\<close>

text \<open>
  A view keeps the events of a kind. A stage that makes no event of the kind keeps the view; the
  rules are conditional, so that they serve every view.
\<close>

lemma terminateStaleRunner_view [simp]:
  "(\<And>t p g. \<not> P (Signalled t p g)) \<Longrightarrow> filter P (terminateStaleRunner v tr) = filter P tr"
  by (auto simp: terminateStaleRunner_def Let_def split: sum.split prod.split bool.split)

lemma remove_except_view:
  "(\<And>p. \<not> P (RemoveAll p)) \<Longrightarrow> filter P (snd (remove_except v d k es tr)) = filter P tr"
  by (induction v d k es tr rule: remove_except.induct) (auto simp: Let_def)

lemma removeDataDirContentsExcept_view:
  "(\<And>p. \<not> P (RemoveAll p)) \<Longrightarrow> filter P (snd (removeDataDirContentsExcept v d k tr)) = filter P tr"
  by (auto simp: removeDataDirContentsExcept_def remove_except_view split: option.split)

lemma cleanDataDir_view [simp]:
  assumes "\<And>t p g. \<not> P (Signalled t p g)" "\<And>p. \<not> P (RemoveAll p)"
  shows "filter P (snd (cleanDataDir v c tr)) = filter P tr"
proof -
  have "filter P (snd (case removeDataDirContentsExcept v d k t of (False, t) \<Rightarrow> (Some CleanContents, t) | (True, t) \<Rightarrow> (None, t))) = filter P t" for d k t
    using removeDataDirContentsExcept_view [where P = P and v = v and d = d and k = k and tr = t] assms
    by (cases "removeDataDirContentsExcept v d k t") (auto split: bool.split)
  with assms show ?thesis by (simp add: cleanDataDir_def Let_def split: stat_result.split)
qed

lemma run_hooks_view: "(\<And>h q. \<not> P (RanHook h q)) \<Longrightarrow> filter P (snd (run_hooks v p hs tr)) = filter P tr"
  by (induction v p hs tr rule: run_hooks.induct) (auto simp: Let_def)

lemma inject_config_view: "(\<And>q g. \<not> P (InjectedConfig q g)) \<Longrightarrow> filter P (snd (inject_config v p c tr)) = filter P tr"
  by (auto simp: inject_config_def Let_def)

lemma override_mounts_view [simp]: "(\<And>q a b. \<not> P (SetOverride q a b)) \<Longrightarrow> filter P (override_mounts ms) = []"
  by (induction ms) (auto simp: override_mounts_def)

lemma save_state_view [simp]: "(\<And>st. \<not> P (SavedState st)) \<Longrightarrow> filter P (save_state v f tr) = filter P tr"
  by (auto simp: save_state_def split: option.split)

section \<open>The network and the machine\<close>

definition life_event :: "event \<Rightarrow> bool" where
  "life_event e = (case e of NetStarted p n \<Rightarrow> True | NetStopped p \<Rightarrow> True | VMStarted vc \<Rightarrow> True | VMStopped i \<Rightarrow> True | _ \<Rightarrow> False)"

abbreviation life :: "trace \<Rightarrow> trace" where
  "life \<equiv> filter life_event"

lemma life_event_simps [simp]:
  "life_event (NetStarted p n)" "life_event (NetStopped p)" "\<not> life_event (RemoveAll s)" "\<not> life_event (Signalled t i g)"
  "\<not> life_event (MadeDir s)" "\<not> life_event (Pulled s)" "\<not> life_event (Cloned s d)" "\<not> life_event (RanHook h s)"
  "\<not> life_event (InjectedConfig s g')" "\<not> life_event (PreparedRootFS s ic)" "\<not> life_event (SetOverride s a b)"
  "life_event (VMStarted vc)" "life_event (VMStopped s)" "\<not> life_event (SavedState st)" "\<not> life_event (RanPostBoot h)"
  by (simp_all add: life_event_def)

lemma obtain_rootfs_life [simp]: "life (snd (obtain_rootfs v ref c tr)) = life tr"
  by (auto simp: obtain_rootfs_def Let_def split: option.split)

definition net_stops :: "provider_ref option \<Rightarrow> trace" where
  "net_stops p = (case p of None \<Rightarrow> [] | Some r \<Rightarrow> [NetStopped r])"

definition net_starts :: "config \<Rightarrow> trace" where
  "net_starts c = (case cfg_netProvider c of None \<Rightarrow> [] | Some r \<Rightarrow> [NetStarted r (buildNetConfig c)])"

lemma stop_net_life [simp]: "life (stop_net p tr) = life tr @ net_stops p"
  by (auto simp: stop_net_def net_stops_def split: option.split)

lemma vm_Stop_life:
  "life (snd (vm_Stop v vm tr)) = life tr @ (if re_stop v tr then VMStopped (v_id vm) # net_stops (v_net vm) else [])"
  by (auto simp: vm_Stop_def Let_def)

lemma post_boot_life:
  "case post_boot v vm hs tr of
     (None, tr') \<Rightarrow> life tr' = life tr
   | (Some e, tr') \<Rightarrow> (\<exists>h. e = PostBootFailed h) \<and>
       (life tr' = life tr \<or> life tr' = life tr @ VMStopped (v_id vm) # net_stops (v_net vm))"
  by (induction v vm hs tr rule: post_boot.induct) (auto simp: Let_def vm_Stop_life split: prod.splits option.splits)

text \<open>The protocol of the network and the machine, for each result of \<open>Run\<close>.\<close>

fun mount_error :: "run_fail \<Rightarrow> bool" where
  "mount_error (NegativeOverride t) = True"
| "mount_error (GIDWithoutUID t) = True"
| "mount_error e = False"

fun early_error :: "run_fail \<Rightarrow> bool" where
  "early_error SpawnFailed = False"
| "early_error (PostBootFailed h) = False"
| "early_error e = (\<not> mount_error e)"

definition protocol :: "config \<Rightarrow> VMConfig \<Rightarrow> string \<Rightarrow> bool \<Rightarrow> run_fail + VM \<Rightarrow> trace" where
  "protocol c vc ident stopped r =
     (case r of
        Inr vm \<Rightarrow> net_starts c @ [VMStarted vc]
      | Inl e \<Rightarrow>
          if early_error e then []
          else if mount_error e then net_starts c
          else if e = SpawnFailed then net_starts c @ net_stops (cfg_netProvider c)
          else net_starts c @ VMStarted vc # (if stopped then VMStopped ident # net_stops (cfg_netProvider c) else []))"

definition follows :: "config \<Rightarrow> VMConfig \<Rightarrow> (run_fail + VM) \<times> trace \<Rightarrow> bool" where
  "follows c vc out \<longleftrightarrow> (\<exists>ident stopped. life (snd out) = protocol c vc ident stopped (fst out))"

lemma follows_early: "early_error e \<Longrightarrow> life tr = [] \<Longrightarrow> follows c vc (Inl e, tr)"
  by (simp add: follows_def protocol_def)

lemma run_started_follows:
  assumes "life tr = net_starts c @ [VMStarted vc]"
  shows "follows c vc (run_started v ref c p i tr)"
proof -
  let ?vm = "\<lparr>v_name = cfg_name c, v_id = i, v_net = cfg_netProvider c, v_dataDir = cfg_dataDir c,
    v_rootfsPath = p, v_ports = cfg_ports c, v_cacheDir = cacheDir c\<rparr>"
  let ?tr = "save_state v (started_state c ref i (re_now v)) tr"
  obtain e tr' where pb: "post_boot v ?vm (cfg_postBootHooks c) ?tr = (e, tr')" by fastforce
  show ?thesis
  proof (cases e)
    case None
    then have "life tr' = life tr" using post_boot_life [where v = v and vm = ?vm and hs = "cfg_postBootHooks c" and tr = ?tr] pb by simp
    with None pb assms show ?thesis by (simp add: run_started_def Let_def follows_def protocol_def)
  next
    case (Some x)
    then obtain h where h: "x = PostBootFailed h"
      and "life tr' = life tr \<or> life tr' = life tr @ VMStopped i # net_stops (cfg_netProvider c)"
      using post_boot_life [where v = v and vm = ?vm and hs = "cfg_postBootHooks c" and tr = ?tr] pb by auto
    then have "\<exists>stopped. life tr' = protocol c vc i stopped (Inl x)"
      using assms by (auto simp: protocol_def intro: exI [of _ True] exI [of _ False])
    with Some pb show ?thesis by (auto simp: run_started_def Let_def follows_def)
  qed
qed

lemma validate_mounts_error: "validate_mounts ms = Some e \<Longrightarrow> mount_error e \<and> \<not> early_error e"
  by (induction ms) (auto split: if_splits)

lemma run_machine_follows:
  assumes "life tr = net_starts c"
  shows "follows c (run_VMConfig c ic pp ns) (run_machine v ref c p ic pp ns tr)"
proof (cases "validate_mounts (cfg_virtioFS c)")
  case None
  let ?tr = "tr @ override_mounts (cfg_virtioFS c)" and ?vc = "run_VMConfig c ic pp ns"
  show ?thesis
  proof (cases "re_start v ?tr")
    case None
    with \<open>validate_mounts _ = None\<close> assms show ?thesis
      by (simp add: run_machine_def follows_def protocol_def)
  next
    case (Some i)
    have "follows c ?vc (run_started v ref c p i (?tr @ [VMStarted ?vc]))"
      by (rule run_started_follows) (simp add: assms)
    with Some \<open>validate_mounts _ = None\<close> show ?thesis by (simp add: run_machine_def)
  qed
next
  case (Some e)
  then show ?thesis using assms validate_mounts_error [OF Some]
    by (simp add: run_machine_def follows_def protocol_def)
qed

definition socket_of :: "run_env \<Rightarrow> config \<Rightarrow> string" where
  "socket_of v c = (case cfg_netProvider c of None \<Rightarrow> [] | Some p \<Rightarrow> re_socketPath v)"

lemma run_network_cases:
  "run_network v c tr = (Inl NetworkFailed, tr) \<or> run_network v c tr = (Inr (socket_of v c), tr @ net_starts c)"
  by (auto simp: run_network_def socket_of_def net_starts_def split: option.split)

lemma life_net_starts [simp]: "life (net_starts c) = net_starts c"
  by (auto simp: net_starts_def split: option.split)

text \<open>The tree the machine boots from lies in the tree that was prepared.\<close>

definition boots :: "run_env \<Rightarrow> config \<Rightarrow> RootFS \<Rightarrow> VMConfig \<Rightarrow> bool" where
  "boots v c rootfs vc \<longleftrightarrow> (\<exists>pp. (isWithin (rf_Path rootfs) pp \<or> pp = rf_Path rootfs) \<and>
     vc = run_VMConfig c (buildInitConfig (rf_Config rootfs) c) pp (socket_of v c))"

lemma run_prepared_follows:
  assumes "life tr = []"
  shows "\<exists>vc. boots v c rootfs vc \<and> follows c vc (run_prepared v ref c rootfs tr)"
proof -
  let ?ic = "buildInitConfig (rf_Config rootfs) c"
  let ?tr = "tr @ [PreparedRootFS (rf_Path rootfs) ?ic]"
  have some: "\<exists>vc. boots v c rootfs vc" unfolding boots_def by blast
  show ?thesis
  proof (cases "\<exists>pp. re_prepare v tr (rf_Path rootfs) = Some pp \<and> (isWithin (rf_Path rootfs) pp \<or> pp = rf_Path rootfs)")
    case False
    then have "\<exists>e. early_error e \<and> run_prepared v ref c rootfs tr = (Inl e, ?tr)"
      by (auto simp: run_prepared_def Let_def split: option.split)
    with some assms show ?thesis by (auto simp: follows_early)
  next
    case True
    then obtain pp where pp: "re_prepare v tr (rf_Path rootfs) = Some pp" "isWithin (rf_Path rootfs) pp \<or> pp = rf_Path rootfs"
      by blast
    let ?vc = "run_VMConfig c ?ic pp (socket_of v c)"
    have "follows c ?vc (run_prepared v ref c rootfs tr)"
      using run_network_cases [of v c ?tr] pp assms
      by (auto simp: run_prepared_def Let_def follows_early run_machine_follows)
    moreover have "boots v c rootfs ?vc" using pp(2) unfolding boots_def by blast
    ultimately show ?thesis by blast
  qed
qed

text \<open>The configuration that \<open>Run\<close> works with, after the policy has been enforced.\<close>

definition run_config :: "config \<Rightarrow> config option" where
  "run_config c = (case enforce_policy c of Inl e \<Rightarrow> None | Inr c \<Rightarrow> Some (wireDefaultProvider c))"

lemma run_hooks_error: "run_hooks v p hs tr = (Some e, tr') \<Longrightarrow> early_error e"
  by (induction v p hs tr rule: run_hooks.induct) (auto simp: Let_def split: if_splits)

text \<open>The tree that the machine is given, whenever it is obtained.\<close>

definition work_tree :: "run_env \<Rightarrow> string \<Rightarrow> config \<Rightarrow> RootFS option" where
  "work_tree v ref c =
     (if cfg_rootfsPath c \<noteq> [] then Some \<lparr>rf_Path = cfg_rootfsPath c, rf_Config = None, FromCache = False\<rparr>
      else map_option (\<lambda>r. if FromCache r then \<lparr>rf_Path = Join (cfg_dataDir c) ''rootfs-work'', rf_Config = rf_Config r, FromCache = False\<rparr>
        else r) (re_pull v ref))"

lemma obtain_rootfs_tree: "obtain_rootfs v ref c tr = (Inr rf, tr') \<Longrightarrow> work_tree v ref c = Some rf"
  by (auto simp: obtain_rootfs_def work_tree_def Let_def split: if_splits option.splits)

lemma obtain_rootfs_error: "obtain_rootfs v ref c tr = (Inl e, tr') \<Longrightarrow> early_error e"
  by (auto simp: obtain_rootfs_def Let_def split: if_splits option.splits)

lemma inject_config_error: "inject_config v p c tr = (Some e, tr') \<Longrightarrow> early_error e"
  by (auto simp: inject_config_def Let_def split: if_splits)

text \<open>The stages up to the preparation, as one case rule.\<close>

lemma run_rootfs_cases:
  obtains (error) e where "fst (run_rootfs v ref c tr) = Inl e" "early_error e" "snd (run_rootfs v ref c tr) = snd (obtain_rootfs v ref c tr)"
  | (prepared) rf t1 t2 t3 where "obtain_rootfs v ref c tr = (Inr rf, t1)" "work_tree v ref c = Some rf"
      "t2 = snd (run_hooks v (rf_Path rf) (cfg_rootfsHooks c) t1)" "t3 = snd (inject_config v (rf_Path rf) c t2)"
      "run_rootfs v ref c tr = run_prepared v ref c rf t3 \<or>
       (\<exists>e. early_error e \<and> (run_rootfs v ref c tr = (Inl e, t2) \<or> run_rootfs v ref c tr = (Inl e, t3)))"
proof -
  obtain o1 t1 where o: "obtain_rootfs v ref c tr = (o1, t1)" by fastforce
  show ?thesis
  proof (cases o1)
    case (Inl e)
    with o show ?thesis by (intro error [of e]) (auto simp: run_rootfs_def obtain_rootfs_error)
  next
    case (Inr rf)
    obtain h t2 where h: "run_hooks v (rf_Path rf) (cfg_rootfsHooks c) t1 = (h, t2)" by fastforce
    obtain j t3 where j: "inject_config v (rf_Path rf) c t2 = (j, t3)" by fastforce
    have he: "h = Some e \<Longrightarrow> early_error e" and je: "j = Some e \<Longrightarrow> early_error e" for e
      using h j run_hooks_error inject_config_error by blast+
    show ?thesis
    proof (rule prepared [of rf t1 t2 t3])
      show "run_rootfs v ref c tr = run_prepared v ref c rf t3 \<or>
       (\<exists>e. early_error e \<and> (run_rootfs v ref c tr = (Inl e, t2) \<or> run_rootfs v ref c tr = (Inl e, t3)))"
        using o Inr h j he je by (cases h; cases j) (auto simp: run_rootfs_def)
    qed (use o Inr h j obtain_rootfs_tree in auto)
  qed
qed

lemma run_rootfs_follows:
  assumes "life tr = []"
  shows "\<exists>vc. follows c vc (run_rootfs v ref c tr) \<and>
    (VMStarted vc \<in> set (snd (run_rootfs v ref c tr)) \<longrightarrow> (\<exists>rf. work_tree v ref c = Some rf \<and> boots v c rf vc))"
proof (cases rule: run_rootfs_cases [of v ref c tr])
  case (error e)
  have l: "life (snd (run_rootfs v ref c tr)) = []" using error(3) assms by simp
  then have "VMStarted vc \<notin> set (snd (run_rootfs v ref c tr))" for vc by (auto simp: filter_empty_conv)
  with l error follows_early [of e] show ?thesis by (metis prod.collapse)
next
  case (prepared rf t1 t2 t3)
  have t1: "life t1 = []" using obtain_rootfs_life [of v ref c tr] prepared(1) assms by simp
  have t2: "life t2 = []" using prepared(3) t1 by (simp add: run_hooks_view)
  have t3: "life t3 = []" using prepared(4) t2 by (simp add: inject_config_view)
  obtain vc where vc: "boots v c rf vc" "follows c vc (run_prepared v ref c rf t3)"
    using run_prepared_follows [OF t3] by blast
  then have "follows c vc (run_rootfs v ref c tr)" using prepared(5) t2 t3 by (auto simp: follows_early)
  with vc(1) prepared(2) show ?thesis by blast
qed

lemma cleanDataDir_error: "cleanDataDir v c tr = (Some e, tr') \<Longrightarrow> early_error e"
  by (auto simp: cleanDataDir_def Let_def split: if_splits stat_result.splits prod.splits bool.splits)

text \<open>\<open>Run\<close> either fails before the root file system or is \<open>run_rootfs\<close> on a quiet trace.\<close>

fun cleaning :: "event \<Rightarrow> bool" where
  "cleaning (RemoveAll p) = True"
| "cleaning (Signalled t p g) = True"
| "cleaning (MadeDir d) = True"
| "cleaning e = False"

definition quiet :: "trace \<Rightarrow> bool" where
  "quiet tr \<longleftrightarrow> filter (\<lambda>e. \<not> cleaning e) tr = []"

lemma quiet_view:
  assumes "quiet tr" "\<And>t p g. \<not> P (Signalled t p g)" "\<And>p. \<not> P (RemoveAll p)" "\<And>d. \<not> P (MadeDir d)"
  shows "filter P tr = []"
proof -
  have "\<not> P e" if "cleaning e" for e using that assms(2-4) by (cases e rule: cleaning.cases) auto
  with assms(1) show ?thesis by (auto simp: quiet_def filter_empty_conv)
qed

lemma quiet_clean: "quiet (snd (cleanDataDir v c []))"
  by (simp add: quiet_def)

lemma Run_cases:
  obtains (early) e tr where "Run v ref c = (Inl e, tr)" "early_error e" "quiet tr"
  | (rootfs) c' tr where "run_config c = Some c'" "Run v ref c = run_rootfs v ref c' tr" "quiet tr"
proof -
  obtain r t where cl: "(if cfg_cleanDataDir c then cleanDataDir v c [] else (None, [])) = (r, t)" by fastforce
  then have "t = snd (cleanDataDir v c []) \<or> t = []" by (auto split: if_splits)
  then have q: "quiet t" using quiet_clean [of v c] by (auto simp: quiet_def)
  then have q': "quiet (t @ [MadeDir d])" for d by (simp add: quiet_def)
  show ?thesis
  proof (cases r)
    case (Some e)
    then have "early_error e" using cl cleanDataDir_error by (auto split: if_splits)
    with Some cl q show ?thesis by (intro early) (auto simp: Run_def)
  next
    case None
    show ?thesis
    proof (cases "re_mkdir v")
      case False
      with None cl q show ?thesis by (intro early [of CreateDataDir]) (auto simp: Run_def)
    next
      case True
      show ?thesis
      proof (cases "enforce_policy c")
        case (Inl e)
        with None cl q' True show ?thesis by (intro early [of "PolicyInvalid e"]) (auto simp: Run_def Let_def)
      next
        case (Inr c1)
        let ?c = "wireDefaultProvider c1" and ?f = "RunAll (re_check v) (cfg_preflight (wireDefaultProvider c1))"
        show ?thesis
        proof (cases "?f = []")
          case f: True
          with None cl q' True Inr show ?thesis
            by (intro rootfs [of ?c]) (auto simp: Run_def Let_def run_config_def)
        next
          case False
          with None cl q' True Inr show ?thesis
            by (intro early [of "PreflightFailed ?f"]) (auto simp: Run_def Let_def)
        qed
      qed
    qed
  qed
qed

lemma Run_follows:
  obtains (early) e tr where "Run v ref c = (Inl e, tr)" "early_error e" "life tr = []"
  | (late) c' vc where "run_config c = Some c'" "follows c' vc (Run v ref c)"
      "VMStarted vc \<in> set (snd (Run v ref c)) \<Longrightarrow> \<exists>rf. work_tree v ref c' = Some rf \<and> boots v c' rf vc"
proof (cases rule: Run_cases [of v ref c])
  case (early e tr)
  then show ?thesis by (intro that(1)) (auto intro: quiet_view)
next
  case (rootfs c' tr)
  have "life tr = []" using rootfs(3) by (auto intro: quiet_view)
  from run_rootfs_follows [OF this, of c' v ref] rootfs show ?thesis by (auto intro: that(2))
qed

section \<open>Isolation of the shared tree\<close>

fun touch_path :: "event \<Rightarrow> string option" where
  "touch_path (RanHook h p) = Some p"
| "touch_path (InjectedConfig p g) = Some p"
| "touch_path (PreparedRootFS p ic) = Some p"
| "touch_path e = None"

fun prep_event :: "event \<Rightarrow> bool" where
  "prep_event (Cloned s d) = True"
| "prep_event e = (touch_path e \<noteq> None)"

text \<open>What follows the preparation touches the tree no more.\<close>

lemma vm_Stop_prep: "filter prep_event (snd (vm_Stop v vm tr)) = filter prep_event tr"
  by (auto simp: vm_Stop_def stop_net_def Let_def split: option.split)

lemma post_boot_prep: "filter prep_event (snd (post_boot v vm hs tr)) = filter prep_event tr"
  by (induction v vm hs tr rule: post_boot.induct) (auto simp: Let_def vm_Stop_prep)

lemma run_started_prep: "filter prep_event (snd (run_started v ref c p i tr)) = filter prep_event tr"
proof -
  have "snd (case x of (Some e, tr) \<Rightarrow> (Inl e, tr) | (None, tr) \<Rightarrow> (Inr vm, tr)) = snd x" for x :: "run_fail option \<times> trace" and vm :: VM
    by (auto split: prod.split option.split)
  then show ?thesis by (simp add: run_started_def Let_def post_boot_prep)
qed

lemma run_machine_prep: "filter prep_event (snd (run_machine v ref c p ic pp ns tr)) = filter prep_event tr"
  by (auto simp: run_machine_def Let_def run_started_prep stop_net_def split: option.split)

definition touches_only :: "string \<Rightarrow> trace \<Rightarrow> trace \<Rightarrow> bool" where
  "touches_only p tr tr' \<longleftrightarrow> (\<exists>ts. filter prep_event tr' = filter prep_event tr @ ts \<and> (\<forall>e \<in> set ts. touch_path e = Some p))"

lemma touches_only_refl: "filter prep_event tr' = filter prep_event tr \<Longrightarrow> touches_only p tr tr'"
  by (auto simp: touches_only_def)

lemma touches_only_trans: "touches_only p a b \<Longrightarrow> touches_only p b c \<Longrightarrow> touches_only p a c"
  by (auto simp: touches_only_def)

lemma touches_only_snoc: "touch_path e = Some p \<Longrightarrow> touches_only p tr (tr @ [e])"
  by (cases e) (auto simp: touches_only_def)

lemma run_hooks_touches: "touches_only p tr (snd (run_hooks v p hs tr))"
proof (induction v p hs tr rule: run_hooks.induct)
  case (2 v p h hs tr)
  have "touches_only p tr (tr @ [RanHook h p])" by (rule touches_only_snoc) simp
  with 2 show ?case by (auto simp: Let_def intro: touches_only_trans)
qed (simp add: touches_only_refl)

lemma inject_config_touches: "touches_only p tr (snd (inject_config v p c tr))"
  by (auto simp: inject_config_def Let_def intro: touches_only_refl touches_only_snoc)

lemma run_prepared_touches: "touches_only (rf_Path rf) tr (snd (run_prepared v ref c rf tr))"
proof -
  let ?tr = "tr @ [PreparedRootFS (rf_Path rf) (buildInitConfig (rf_Config rf) c)]"
  have "touches_only (rf_Path rf) tr ?tr" by (rule touches_only_snoc) simp
  moreover have "filter prep_event (net_starts c) = []" by (simp add: net_starts_def split: option.split)
  then have "touches_only (rf_Path rf) ?tr (snd (run_prepared v ref c rf tr))"
    using run_network_cases [of v c ?tr]
    by (auto simp: run_prepared_def Let_def run_machine_prep intro!: touches_only_refl split: option.split)
  ultimately show ?thesis by (rule touches_only_trans)
qed

lemma run_rootfs_touches:
  assumes "work_tree v ref c = Some rf"
  shows "touches_only (rf_Path rf) (snd (obtain_rootfs v ref c tr)) (snd (run_rootfs v ref c tr))"
proof (cases rule: run_rootfs_cases [of v ref c tr])
  case (prepared rf' t1 t2 t3)
  have rf: "rf' = rf" using assms prepared(2) by simp
  have "touches_only (rf_Path rf) t1 t2" "touches_only (rf_Path rf) t2 t3"
    using prepared(3,4) rf run_hooks_touches inject_config_touches by auto
  then have t3: "touches_only (rf_Path rf) t1 t2" "touches_only (rf_Path rf) t1 t3" by (auto intro: touches_only_trans)
  have "touches_only (rf_Path rf) t1 (snd (run_prepared v ref c rf t3))"
    using t3(2) run_prepared_touches by (rule touches_only_trans)
  with t3 prepared(1,5) rf show ?thesis by auto
qed (simp add: touches_only_refl)

section \<open>Properties of Run\<close>

definition demo_run :: run_env where
  "demo_run =
     \<lparr>re_stat = (\<lambda>_. Exists), re_removeAll = (\<lambda>_ _. True), re_readDir = (\<lambda>_. Some [''cache'', ''console.log'']), re_mkdir = True,
      re_check = (\<lambda>_. True), re_pull = (\<lambda>_. Some \<lparr>rf_Path = ''/d/cache/img'', rf_Config = None, FromCache = True\<rparr>),
      re_clone = (\<lambda>_. True), re_hook = (\<lambda>_ _. True), re_inject = (\<lambda>_. True), re_prepare = (\<lambda>_ p. Some p),
      re_netStart = (\<lambda>_. True), re_socketPath = ''/d/net.sock'', re_start = (\<lambda>_. Some ''42''), re_post = (\<lambda>_ _. True),
      re_stop = (\<lambda>_. True), re_load = Inr demo_state, re_alive = (\<lambda>_ _. True), re_expected = (\<lambda>_. True),
      re_kill = (\<lambda>_ _. True), re_locked = (\<lambda>_. None), re_save = (\<lambda>_. True), re_now = 0\<rparr>"

definition demo_host :: EgressHost where
  "demo_host = \<lparr>eh_Name = ''example.com'', eh_Ports = [443], eh_Protocol = 6\<rparr>"

definition demo_config :: config where
  "demo_config = (defaultConfig ''/d'')\<lparr>cfg_preflight := [], cfg_egressPolicy := Some [demo_host], cfg_rootfsHooks := [1]\<rparr>"

definition bad_mount :: VirtioFSMount where
  "bad_mount = \<lparr>vf_Tag = ''t'', vf_HostPath = ''/h'', vf_ReadOnly = False, vf_OverrideUID = 0, vf_OverrideGID = 5\<rparr>"

lemmas run_eval = Run_def enforce_policy_def wireDefaultProvider_def RunAll_def run_rootfs_def obtain_rootfs_def
  inject_config_def run_prepared_def run_network_def run_machine_def buildVMConfig_def demo_run_def demo_config_def demo_host_def
  bad_mount_def defaultConfig_def HasPrefix_def override_mounts_def run_started_def save_state_def stop_net_def

lemma life_mem: "life_event e \<Longrightarrow> e \<in> set tr \<longleftrightarrow> e \<in> set (life tr)"
  by simp

lemma Run_network_leak:
  assumes "Run v ref c = (Inl e, tr)" "NetStarted p nc \<in> set tr"
  shows "NetStopped p \<notin> set tr \<longleftrightarrow> mount_error e \<or> (\<exists>h. e = PostBootFailed h) \<and> (\<forall>i. VMStopped i \<notin> set tr)"
proof (cases rule: Run_follows [of v ref c])
  case (early e' tr')
  with assms have "NetStarted p nc \<notin> set (life tr)" by simp
  with assms(2) show ?thesis by simp
next
  case (late c' vc)
  then obtain ident stopped where l: "life tr = protocol c' vc ident stopped (Inl e)"
    using assms(1) by (auto simp: follows_def)
  have mem: "NetStarted p nc \<in> set (life tr)" "NetStopped p \<in> set tr \<longleftrightarrow> NetStopped p \<in> set (life tr)"
    "\<And>i. VMStopped i \<in> set tr \<longleftrightarrow> VMStopped i \<in> set (life tr)"
    using assms(2) by auto
  show ?thesis
    using mem(1) unfolding mem(2,3) l
    by (cases e) (auto simp: protocol_def net_starts_def net_stops_def split: if_splits option.splits)
qed

lemma follows_started:
  assumes "follows c vc out" "VMStarted vc' \<in> set (snd out)"
  shows "vc' = vc" "\<exists>rest. life (snd out) = net_starts c @ VMStarted vc # rest"
proof -
  obtain ident stopped where l: "life (snd out) = protocol c vc ident stopped (fst out)"
    using assms(1) by (auto simp: follows_def)
  moreover have "VMStarted vc' \<in> set (life (snd out))" using assms(2) by simp
  ultimately show "vc' = vc" "\<exists>rest. life (snd out) = net_starts c @ VMStarted vc # rest"
    by (auto simp: protocol_def net_starts_def net_stops_def split: if_splits option.splits sum.splits)
qed

lemma Run_started:
  assumes "Run v ref c = (r, tr)" "VMStarted vc \<in> set tr"
  obtains c' rf rest where "run_config c = Some c'" "work_tree v ref c' = Some rf" "boots v c' rf vc"
    "life tr = net_starts c' @ VMStarted vc # rest"
proof (cases rule: Run_follows [of v ref c])
  case (early e tr')
  from early(1) assms(1) have "tr' = tr" by simp
  with early(3) assms(2) show ?thesis by (auto simp: filter_empty_conv)
next
  case (late c' vc')
  have "vc = vc'" "\<exists>rest. life tr = net_starts c' @ VMStarted vc' # rest"
    using follows_started [OF late(2)] assms by auto
  with late assms that show ?thesis by auto
qed

lemma run_config_tree:
  "run_config c = Some c' \<Longrightarrow> cfg_rootfsPath c' = cfg_rootfsPath c \<and> cfg_dataDir c' = cfg_dataDir c"
  by (auto simp: run_config_def enforce_policy_def wireDefaultProvider_def Let_def split: option.splits sum.splits if_splits)

lemma Run_prep:
  assumes "cfg_rootfsPath c = []" "re_pull v ref = Some img" "FromCache img"
  shows "filter prep_event (snd (Run v ref c)) = [] \<or>
      (\<exists>ts. filter prep_event (snd (Run v ref c)) = Cloned (rf_Path img) (Join (cfg_dataDir c) ''rootfs-work'') # ts \<and>
        (\<forall>e \<in> set ts. touch_path e = Some (Join (cfg_dataDir c) ''rootfs-work'')))"
proof (cases rule: Run_cases [of v ref c])
  case (early e tr)
  then show ?thesis by (auto intro: quiet_view)
next
  case (rootfs c' tr)
  have tr: "filter prep_event tr = []" using rootfs(3) by (auto intro: quiet_view)
  have c': "cfg_rootfsPath c' = []" "cfg_dataDir c' = cfg_dataDir c" using run_config_tree [OF rootfs(1)] assms by auto
  show ?thesis
  proof (cases "re_clone v (tr @ [Pulled ref])")
    case False
    then have "obtain_rootfs v ref c' tr = (Inl CloneFailed, tr @ [Pulled ref])" using assms c' by (simp add: obtain_rootfs_def)
    then show ?thesis using rootfs(2) tr by (simp add: run_rootfs_def)
  next
    case True
    let ?w = "Join (cfg_dataDir c) ''rootfs-work''"
    have o: "snd (obtain_rootfs v ref c' tr) = tr @ [Pulled ref, Cloned (rf_Path img) ?w]"
      using assms c' True by (simp add: obtain_rootfs_def Let_def)
    have "work_tree v ref c' = Some \<lparr>rf_Path = ?w, rf_Config = rf_Config img, FromCache = False\<rparr>"
      using assms c' by (simp add: work_tree_def)
    from run_rootfs_touches [OF this, of tr] show ?thesis using o tr rootfs(2) by (simp add: touches_only_def)
  qed
qed

lemma copy_hosts: "map (\<lambda>h. \<lparr>eh_Name = eh_Name h, eh_Ports = eh_Ports h, eh_Protocol = eh_Protocol h\<rparr>) hosts = (hosts :: EgressHost list)"
  by (rule map_idI) simp

lemma run_config_policy:
  assumes "run_config c = Some c'" "cfg_egressPolicy c = Some hosts"
  shows "validate_hosts 0 hosts = None" "cfg_egressPolicy c' = Some hosts" "cfg_firewallDefaultAction c' = Deny"
    "\<exists>p. cfg_netProvider c' = Some p \<and> (cfg_netProvider c = None \<longrightarrow> p = Hosted)" "cfg_firewallRules c' = cfg_firewallRules c"
  using assms by (auto simp: run_config_def enforce_policy_def wireDefaultProvider_def Let_def split: option.splits if_splits)

text \<open>
  C29. When \<open>Run\<close> fails after it has started the network provider, the provider is stopped, with
  exactly two exceptions: a shared directory whose ownership override is invalid, which is only
  noticed once the network is up, and a failing post-boot hook whose machine cannot be stopped.
\<close>

theorem Run_releases_network:
  assumes "Run v ref c = (Inl e, tr)" "NetStarted p nc \<in> set tr"
  shows "NetStopped p \<notin> set tr \<longleftrightarrow> mount_error e \<or> (\<exists>h. e = PostBootFailed h) \<and> (\<forall>i. VMStopped i \<notin> set tr)"
  using assms by (rule Run_network_leak)

theorem Run_releases_network_witness:
  "\<exists>nc tr. Run demo_run ''img'' (demo_config\<lparr>cfg_virtioFS := [bad_mount]\<rparr>) = (Inl (GIDWithoutUID ''t''), tr) \<and>
     NetStarted Hosted nc \<in> set tr \<and> NetStopped Hosted \<notin> set tr"
proof -
  let ?c = "demo_config\<lparr>cfg_virtioFS := [bad_mount]\<rparr>"
  obtain nc tr where r: "Run demo_run ''img'' ?c = (Inl (GIDWithoutUID ''t''), tr)" "NetStarted Hosted nc \<in> set tr"
    by (simp add: run_eval Let_def)
  from Run_releases_network [OF r] r show ?thesis by auto
qed

text \<open>
  C8. The shared tree of the image cache is never written. When the image comes from the cache,
  the first thing done to a tree is to clone the cached one into the data directory; the hooks, the
  guest configuration and the backend then work on the clone only, and the machine boots from
  a directory within it.
\<close>

theorem Run_isolates_cache:
  assumes "Run v ref c = (r, tr)" "cfg_rootfsPath c = []" "re_pull v ref = Some img" "FromCache img"
  shows "(filter prep_event tr = [] \<or>
      (\<exists>ts. filter prep_event tr = Cloned (rf_Path img) (Join (cfg_dataDir c) ''rootfs-work'') # ts \<and>
        (\<forall>e \<in> set ts. touch_path e = Some (Join (cfg_dataDir c) ''rootfs-work'')))) \<and>
    (\<forall>vc. VMStarted vc \<in> set tr \<longrightarrow> vc_RootFSPath vc = Join (cfg_dataDir c) ''rootfs-work'' \<or>
       isWithin (Join (cfg_dataDir c) ''rootfs-work'') (vc_RootFSPath vc))"
proof (intro conjI allI impI)
  fix vc
  assume "VMStarted vc \<in> set tr"
  then obtain c' rf where c': "run_config c = Some c'" and rf: "work_tree v ref c' = Some rf" "boots v c' rf vc"
    using Run_started [OF assms(1)] by metis
  have "rf_Path rf = Join (cfg_dataDir c) ''rootfs-work''"
    using rf(1) run_config_tree [OF c'] assms by (auto simp: work_tree_def)
  with rf(2) show "vc_RootFSPath vc = Join (cfg_dataDir c) ''rootfs-work'' \<or>
       isWithin (Join (cfg_dataDir c) ''rootfs-work'') (vc_RootFSPath vc)"
    by (auto simp: boots_def run_VMConfig_def)
qed (use Run_prep [OF assms(2-4)] assms(1) in simp)

theorem Run_isolates_cache_witness:
  "\<exists>vc vm tr. Run demo_run ''img'' demo_config = (Inr vm, tr) \<and> VMStarted vc \<in> set tr \<and>
     (vc_RootFSPath vc = ''/d/rootfs-work'' \<or> isWithin ''/d/rootfs-work'' (vc_RootFSPath vc))"
proof -
  obtain vc vm tr where r: "Run demo_run ''img'' demo_config = (Inr vm, tr)" "VMStarted vc \<in> set tr"
    by (simp add: run_eval Let_def)
  have d: "Join (cfg_dataDir demo_config) ''rootfs-work'' = ''/d/rootfs-work''" by code_simp
  from Run_isolates_cache [OF r(1)] r show ?thesis unfolding d by (auto simp: demo_config_def demo_run_def defaultConfig_def)
qed

text \<open>
  C4. A machine with an egress policy never runs on an unfiltered network. Before it starts, the
  provider has been started, the hosted one unless the caller gave another, with the policy and
  the default action Deny; the names of the policy are not empty and no wildcard covers
  a top-level domain; the machine is attached to the provider's socket; and a hosted provider so configured
  builds the relay of the policy.
\<close>

theorem Run_enforces_policy:
  assumes "Run v ref c = (r, tr)" "VMStarted vc \<in> set tr" "cfg_egressPolicy c = Some hosts" "re_socketPath v \<noteq> []"
  shows "\<exists>p nc rest. life tr = NetStarted p nc # VMStarted vc # rest \<and> (cfg_netProvider c = None \<longrightarrow> p = Hosted) \<and>
    net_EgressPolicy nc = Some hosts \<and> FirewallRules nc = cfg_firewallRules c \<and> FirewallDefaultAction nc = Deny \<and>
    validate_hosts 0 hosts = None \<and> vc_NetEndpoint vc = \<lparr>ep_Type = NetEndpointUnixSocket, ep_Path = re_socketPath v\<rparr> \<and>
    (\<forall>svcs. start_relay nc svcs = Some (buildEgressRelay nc hosts svcs))"
proof -
  obtain c' rf rest where c': "run_config c = Some c'" and "work_tree v ref c' = Some rf" and rf: "boots v c' rf vc"
    and l: "life tr = net_starts c' @ VMStarted vc # rest"
    by (rule Run_started [OF assms(1,2)])
  obtain p where p: "cfg_netProvider c' = Some p" "cfg_netProvider c = None \<longrightarrow> p = Hosted"
    using run_config_policy(4) [OF c' assms(3)] by (elim exE conjE)
  let ?nc = "buildNetConfig c'"
  note policy = run_config_policy [OF c' assms(3)]
  have nc: "net_EgressPolicy ?nc = Some hosts" "FirewallRules ?nc = cfg_firewallRules c" "FirewallDefaultAction ?nc = Deny"
    using policy by (simp_all add: buildNetConfig_def copy_hosts)
  then have relay: "start_relay ?nc svcs = Some (buildEgressRelay ?nc hosts svcs)" for svcs by (simp add: start_relay_def)
  have net: "vc_NetEndpoint vc = \<lparr>ep_Type = NetEndpointUnixSocket, ep_Path = re_socketPath v\<rparr>"
    using rf p assms(4) by (auto simp: boots_def run_VMConfig_def socket_of_def)
  have "life tr = NetStarted p ?nc # VMStarted vc # rest" using l p by (simp add: net_starts_def)
  with p(2) nc relay net policy(1) show ?thesis
    by (intro exI [of _ p] exI [of _ ?nc] exI [of _ rest]) simp
qed

theorem Run_enforces_policy_witness:
  "\<exists>vc vm tr p nc rest. Run demo_run ''img'' demo_config = (Inr vm, tr) \<and> VMStarted vc \<in> set tr \<and>
     life tr = NetStarted p nc # VMStarted vc # rest \<and> p = Hosted \<and> net_EgressPolicy nc = Some [demo_host]"
proof -
  obtain vc vm tr where r: "Run demo_run ''img'' demo_config = (Inr vm, tr)" "VMStarted vc \<in> set tr"
    by (simp add: run_eval Let_def)
  from Run_enforces_policy [OF r, of "[demo_host]"] r show ?thesis
    by (auto simp: demo_config_def defaultConfig_def demo_run_def)
qed

text \<open>
  C30. Cleaning the data directory signals a left-over runner and nothing else. A signal goes only to
  the group of the process the state file names, which is alive, is the runner's binary and has an id
  greater than one: first SIGTERM, and SIGKILL only if the process is still alive five
  seconds later; and a runner that ignores SIGTERM is sent SIGKILL within a quarter of a second
  after that.
\<close>

theorem terminateStaleRunner_correct:
  assumes "tr = terminateStaleRunner v []"
  shows "(\<forall>t p s. Signalled t p s \<in> set tr \<longrightarrow> stale_target v (- p) \<and>
      (s = SIGTERM \<and> t = re_now v \<or>
       s = SIGKILL \<and> re_alive v (- p) t \<and> re_now v + staleTermTimeout \<le> t \<and> t < re_now v + staleTermTimeout + staleTermPoll)) \<and>
    (\<forall>pid. stale_target v pid \<and> re_kill v (- pid) SIGTERM \<and> (\<forall>t \<ge> re_now v. re_alive v pid t) \<longrightarrow>
      (\<exists>t. Signalled t (- pid) SIGKILL \<in> set tr \<and> re_now v + staleTermTimeout \<le> t \<and> t < re_now v + staleTermTimeout + staleTermPoll))"
  using terminateStaleRunner_signals [of _ _ _ v "[]"] terminateStaleRunner_kills [of v _ "[]"] assms by auto

theorem terminateStaleRunner_correct_witness:
  "\<exists>t. Signalled t (- 42) SIGKILL \<in> set (terminateStaleRunner demo_run []) \<and> staleTermTimeout \<le> t \<and> t < staleTermTimeout + staleTermPoll"
  using terminateStaleRunner_correct [of "terminateStaleRunner demo_run []" demo_run]
  by (simp add: stale_target_def demo_run_def demo_state_def)

section \<open>Removal and the image cache\<close>

lemma isWithin_abs_path:
  assumes "\<forall>c \<in> set as. proper c" "\<forall>c \<in> set bs. proper c"
  shows "isWithin (abs_path as) (abs_path bs) \<longleftrightarrow> (\<exists>us. bs = as @ us)"
proof -
  obtain rel where r: "Rel (abs_path as) (abs_path bs) = Inr rel" using Rel_abs_path [OF assms] by metis
  have "isWithin (abs_path as) (abs_path bs) \<longleftrightarrow> \<not> escapes rel"
    using r by (auto simp: isWithin_def escapes_def abs_path_def HasPrefix_def)
  with Rel_inside [OF assms r] show ?thesis by simp
qed

lemma Join_name: "\<forall>c \<in> set as. proper c \<Longrightarrow> proper n \<Longrightarrow> Join (abs_path as) n = abs_path (as @ [n])"
  using Join_names [of as "[n]"] by simp

text \<open>The paths a call asks to be removed.\<close>

definition removed :: "trace \<Rightarrow> string set" where
  "removed tr = {p. RemoveAll p \<in> set tr}"

lemma removed_simps [simp]: "removed [] = {}" "removed (a @ b) = removed a \<union> removed b" "removed [RemoveAll p] = {p}"
  by (auto simp: removed_def)

lemma vm_Stop_removed: "removed (snd (vm_Stop v vm tr)) = removed tr"
  by (auto simp: removed_def vm_Stop_def stop_net_def save_state_def Let_def split: option.split)

lemma remove_except_removed:
  "removed (snd (remove_except v d k es tr)) \<subseteq> removed tr \<union> Join d ` {e \<in> set es. Clean (Join d e) \<notin> set k}"
proof (induction es arbitrary: tr)
  case (Cons e es)
  show ?case using Cons [of "tr @ [RemoveAll (Join d e)]"] Cons [of tr] by (auto simp: Let_def)
qed simp

lemma remove_except_removes:
  assumes "\<And>tr p. re_removeAll v tr p"
  shows "removed (snd (remove_except v d k es tr)) = removed tr \<union> Join d ` {e \<in> set es. Clean (Join d e) \<notin> set k}"
proof (induction es arbitrary: tr)
  case (Cons e es)
  show ?case using Cons [of "tr @ [RemoveAll (Join d e)]"] Cons [of tr] assms by (auto simp: Let_def)
qed simp

text \<open>A removal spares a directory if it removes neither it nor one above it.\<close>

definition spares :: "trace \<Rightarrow> string \<Rightarrow> bool" where
  "spares tr dir \<longleftrightarrow> (\<forall>p \<in> removed tr. \<not> isWithin p dir)"

lemma vm_Remove_removed:
  assumes "v_dataDir vm \<noteq> []" "v_cacheDir vm \<noteq> []" "isWithin (v_dataDir vm) (v_cacheDir vm)" "re_readDir v (v_dataDir vm) = Some es"
  shows "removed (snd (vm_Remove v vm [])) \<subseteq>
      {v_rootfsPath vm} \<union> Join (v_dataDir vm) ` {e \<in> set es. Clean (Join (v_dataDir vm) e) \<noteq> Clean (v_cacheDir vm)}"
    and "(\<And>tr. re_stop v tr) \<Longrightarrow> (\<And>tr p. re_removeAll v tr p) \<Longrightarrow>
      Join (v_dataDir vm) ` {e \<in> set es. Clean (Join (v_dataDir vm) e) \<noteq> Clean (v_cacheDir vm)} \<subseteq> removed (snd (vm_Remove v vm []))"
proof -
  obtain e t where st: "vm_Stop v vm [] = (e, t)" by fastforce
  have t: "removed t = {}" using vm_Stop_removed [of v vm "[]"] st by simp
  let ?t = "if v_rootfsPath vm \<noteq> [] \<and> \<not> isWithin (v_cacheDir vm) (v_rootfsPath vm) then t @ [RemoveAll (v_rootfsPath vm)] else t"
  let ?d = "v_dataDir vm" and ?k = "[Clean (v_cacheDir vm)]"
  have x: "snd (case p of (False, tr) \<Rightarrow> (Some RemoveContents, tr) | (True, tr) \<Rightarrow> (None, tr)) = snd p" for p :: "bool \<times> trace"
    by (auto split: prod.split bool.split)
  have r: "removed ?t \<subseteq> {v_rootfsPath vm}" using t by auto
  have out: "snd (vm_Remove v vm []) \<in> {t, ?t, snd (remove_except v ?d ?k es ?t)}"
    using st assms x by (auto simp: vm_Remove_def removeDataDirContentsExcept_def Let_def split: option.split)
  show "removed (snd (vm_Remove v vm [])) \<subseteq> {v_rootfsPath vm} \<union> Join ?d ` {e \<in> set es. Clean (Join ?d e) \<noteq> Clean (v_cacheDir vm)}"
    using out t r remove_except_removed [of v ?d ?k es ?t] by fastforce
  assume ok: "\<And>tr. re_stop v tr" "\<And>tr p. re_removeAll v tr p"
  have "e = None" using st ok by (auto simp: vm_Stop_def Let_def split: if_splits)
  then have "snd (vm_Remove v vm []) = snd (remove_except v ?d ?k es ?t)"
    using st assms ok x by (simp add: vm_Remove_def removeDataDirContentsExcept_def Let_def)
  then show "Join ?d ` {e \<in> set es. Clean (Join ?d e) \<noteq> Clean (v_cacheDir vm)} \<subseteq> removed (snd (vm_Remove v vm []))"
    using remove_except_removes [OF ok(2), of ?d ?k es ?t] by auto
qed

text \<open>
  C31. Removing a machine and the image cache in its data directory. A cache that is a direct
  child of the data directory is spared, whatever fails: nothing that is removed is the cache or
  lies above it, provided the root file system does not lie above it. A cache deeper in the data
  directory, which is within it by the same test, is lost: its first ancestor is removed.
\<close>

theorem vm_Remove_cache:
  assumes "v_dataDir vm = abs_path d" "v_cacheDir vm = abs_path (d @ n # us)" "v_rootfsPath vm = abs_path r"
    and "\<forall>x \<in> set (d @ n # us @ r @ es). proper x" "re_readDir v (abs_path d) = Some es" "n \<in> set es"
    and "\<not> (\<exists>ws. d @ n # us = r @ ws)"
  shows "(us = [] \<longrightarrow> spares (snd (vm_Remove v vm [])) (v_cacheDir vm)) \<and>
    (us \<noteq> [] \<and> (\<forall>tr. re_stop v tr) \<and> (\<forall>tr p. re_removeAll v tr p) \<longrightarrow> \<not> spares (snd (vm_Remove v vm [])) (v_cacheDir vm))"
proof -
  let ?c = "d @ n # us"
  have p: "\<forall>x \<in> set d. proper x" "\<forall>x \<in> set ?c. proper x" "\<forall>x \<in> set r. proper x" "\<forall>x \<in> set es. proper x" using assms(4) by auto
  have w: "isWithin (v_dataDir vm) (v_cacheDir vm)" using isWithin_abs_path [OF p(1,2)] assms(1,2) by simp
  have ne: "v_dataDir vm \<noteq> []" "v_cacheDir vm \<noteq> []" using assms(1,2) by (simp_all add: abs_path_def)
  note rm = vm_Remove_removed [OF ne w, of v es, unfolded assms(1,2), OF assms(5)]
  have j: "Join (abs_path d) e = abs_path (d @ [e])" "isWithin (abs_path (d @ [e])) (abs_path ?c) \<longleftrightarrow> e = n"
    "Clean (abs_path (d @ [e])) = Clean (abs_path ?c) \<longleftrightarrow> e = n \<and> us = []" if "e \<in> set es" for e
  proof -
    have pe: "proper e" "\<forall>x \<in> set (d @ [e]). proper x" using that p by auto
    show "Join (abs_path d) e = abs_path (d @ [e])" using p(1) pe(1) by (rule Join_name)
    show "isWithin (abs_path (d @ [e])) (abs_path ?c) \<longleftrightarrow> e = n" using isWithin_abs_path [OF pe(2) p(2)] by auto
    show "Clean (abs_path (d @ [e])) = Clean (abs_path ?c) \<longleftrightarrow> e = n \<and> us = []"
      using Clean_abs_path [OF pe(2)] Clean_abs_path [OF p(2)] abs_path_inj [OF pe(2) p(2)] by auto
  qed
  have "\<not> isWithin (abs_path r) (abs_path ?c)" using isWithin_abs_path [OF p(3,2)] assms(7) by simp
  then have "spares (snd (vm_Remove v vm [])) (v_cacheDir vm)" if "us = []"
    using rm(1) j that assms(2,3) by (fastforce simp: spares_def)
  moreover have "\<not> spares (snd (vm_Remove v vm [])) (v_cacheDir vm)" if "us \<noteq> []" "\<forall>tr. re_stop v tr" "\<forall>tr p. re_removeAll v tr p"
    using rm(2) that j [OF assms(6)] assms(2,6) by (force simp: spares_def)
  ultimately show ?thesis by blast
qed

definition demo_vm_handle :: VM where
  "demo_vm_handle = \<lparr>v_name = ''vm'', v_id = ''42'', v_net = None, v_dataDir = ''/d'', v_rootfsPath = ''/d/rootfs-work'',
     v_ports = [], v_cacheDir = ''/d/cache''\<rparr>"

theorem vm_Remove_cache_witness:
  "spares (snd (vm_Remove demo_run demo_vm_handle [])) ''/d/cache''"
  using vm_Remove_cache [of demo_vm_handle "[''d'']" "''cache''" "[]" "[''d'', ''rootfs-work'']" "[''cache'', ''console.log'']" demo_run]
  by (simp add: demo_vm_handle_def demo_run_def abs_path_def proper_def)

end
