(* ===== verification/TimeSync.thy ===== *)
theory TimeSync
  imports GoStrings
begin

text \<open>
  The clock of the guest: \<^verbatim>\<open>timesync/timesync.go\<close> on the host, which measures the skew and
  steps the clock with a reserved command, and \<^verbatim>\<open>guest/sshd/settime.go\<close>, which
  carries the command out. Epochs and durations are 64-bit integers that wrap around.
\<close>

section \<open>The host\<close>

type_synonym i64 = "64 word"

definition DefaultInterval :: duration where "DefaultInterval = 60 * second"
definition DefaultThreshold :: duration where "DefaultThreshold = 2 * second"
definition SetTimeCommand :: string where "SetTimeCommand = ''go-microvm-settime''"

record Syncer =
  sy_interval :: duration
  sy_threshold :: duration

record Result =
  Skew :: i64
  Stepped :: bool

definition WithInterval :: "duration \<Rightarrow> Syncer \<Rightarrow> Syncer" where
  "WithInterval d s = s\<lparr>sy_interval := d\<rparr>"

definition WithThreshold :: "duration \<Rightarrow> Syncer \<Rightarrow> Syncer" where
  "WithThreshold d s = s\<lparr>sy_threshold := d\<rparr>"

definition NewSyncer :: "(Syncer \<Rightarrow> Syncer) list \<Rightarrow> Syncer" where
  "NewSyncer opts = fold (\<lambda>o' s. o' s) opts \<lparr>sy_interval = DefaultInterval, sy_threshold = DefaultThreshold\<rparr>"

text \<open>\<^verbatim>\<open>Duration.Abs\<close>: the smallest value, which has no negative, gives the largest one.\<close>

definition Duration_Abs :: "i64 \<Rightarrow> i64" where
  "Duration_Abs d = (if 0 \<le> sint d then d else if sint d = - (2 ^ 63) then word_of_int (2 ^ 63 - 1) else - d)"

datatype sync_error = ReadGuest | ParseGuest | StepGuest

text \<open>
  \<open>run\<close> executes a command in the guest; \<open>now1\<close> and \<open>now2\<close> are the seconds of the
  host's clock at the two places it is read.
\<close>

definition SyncOnce ::
  "(string \<Rightarrow> 'g \<Rightarrow> (unit + string) \<times> 'g) \<Rightarrow> Syncer \<Rightarrow> int \<Rightarrow> int \<Rightarrow> 'g \<Rightarrow> sync_error option \<times> Result \<times> 'g" where
  "SyncOnce run s now1 now2 g =
     (case run ''date -u +%s'' g of
        (Inl _, g) \<Rightarrow> (Some ReadGuest, \<lparr>Skew = 0, Stepped = False\<rparr>, g)
      | (Inr out, g) \<Rightarrow>
          (case Atoi (TrimSpace out) of
             None \<Rightarrow> (Some ParseGuest, \<lparr>Skew = 0, Stepped = False\<rparr>, g)
           | Some guestEpoch \<Rightarrow>
               let res = \<lparr>Skew = (word_of_int guestEpoch - word_of_int now1) * word_of_int second, Stepped = False\<rparr>
               in if sint (Duration_Abs (Skew res)) < sy_threshold s then (None, res, g)
                  else case run (SetTimeCommand @ '' '' @ decimal_int now2) g of
                    (Inl _, g) \<Rightarrow> (Some StepGuest, res, g)
                  | (Inr _, g) \<Rightarrow> (None, res\<lparr>Stepped := True\<rparr>, g)))"

definition syncAndLog :: "(string \<Rightarrow> 'g \<Rightarrow> (unit + string) \<times> 'g) \<Rightarrow> Syncer \<Rightarrow> int \<times> int \<Rightarrow> 'g \<Rightarrow> 'g" where
  "syncAndLog run s now g = snd (snd (SyncOnce run s (fst now) (snd now) g))"

text \<open>The loop up to the end of the context: once at the start and once per tick.\<close>

definition Syncer_Run ::
  "(string \<Rightarrow> 'g \<Rightarrow> (unit + string) \<times> 'g) \<Rightarrow> Syncer \<Rightarrow> int \<times> int \<Rightarrow> (int \<times> int) list \<Rightarrow> 'g \<Rightarrow> 'g" where
  "Syncer_Run run s first ticks g = fold (syncAndLog run s) ticks (syncAndLog run s first g)"

section \<open>The guest\<close>

text \<open>
  The result: whether the command was a request to set the time, and if so the exit status, and
  the clock. \<open>settime\<close> says whether the kernel accepts a time.
\<close>

definition handleSettime :: "(int \<Rightarrow> bool) \<Rightarrow> string \<Rightarrow> int \<Rightarrow> nat option \<times> int" where
  "handleSettime settime command clock =
     (let fields = Fields command
      in case fields of
           [] \<Rightarrow> (None, clock)
         | f # fs \<Rightarrow>
             if f \<noteq> SetTimeCommand then (None, clock)
             else (case fs of
                 [arg] \<Rightarrow>
                   (case Atoi arg of
                      None \<Rightarrow> (Some 1, clock)
                    | Some epoch \<Rightarrow>
                        if epoch < 0 then (Some 1, clock)
                        else if \<not> settime epoch then (Some 1, clock)
                        else (Some 0, epoch))
               | _ \<Rightarrow> (Some 1, clock)))"

text \<open>
  A command given to the guest over SSH: the reserved one is handled by the server, any other by
  the shell of the image, which is a parameter.
\<close>

definition guest_exec :: "(string \<Rightarrow> int \<Rightarrow> unit + string) \<Rightarrow> (int \<Rightarrow> bool) \<Rightarrow> string \<Rightarrow> int \<Rightarrow> (unit + string) \<times> int" where
  "guest_exec shell settime command clock =
     (case handleSettime settime command clock of
        (None, clock) \<Rightarrow> (shell command clock, clock)
      | (Some status, clock) \<Rightarrow> (if status = 0 then Inr [] else Inl (), clock))"

section \<open>Properties\<close>

text \<open>What \<^verbatim>\<open>date -u +%s\<close> prints.\<close>

definition date_doc :: "(string \<Rightarrow> int \<Rightarrow> unit + string) \<Rightarrow> bool" where
  "date_doc shell \<longleftrightarrow> (\<forall>clock. shell ''date -u +%s'' clock = Inr (decimal_int clock @ [CHR 0x0A]))"

lemma guest_date: "guest_exec shell settime ''date -u +%s'' clock = (shell ''date -u +%s'' clock, clock)"
proof -
  have sp: "is_space (CHR '' '')" "\<forall>c \<in> set ''date''. \<not> is_space c" by code_simp+
  then have "Fields (''date'' @ '' -u +%s'') = ''date'' # Fields '' -u +%s''" by (intro Fields_word) auto
  then have "handleSettime settime ''date -u +%s'' clock = (None, clock)"
    by (simp add: handleSettime_def Let_def SetTimeCommand_def)
  then show ?thesis by (simp add: guest_exec_def)
qed

lemma guest_settime:
  assumes "0 \<le> epoch" "epoch < 2 ^ 63" "settime epoch"
  shows "guest_exec shell settime (SetTimeCommand @ '' '' @ decimal_int epoch) clock = (Inr [], epoch)"
proof -
  have "\<forall>c \<in> set SetTimeCommand. \<not> is_space c" "SetTimeCommand \<noteq> []" by code_simp+
  then have "Fields (SetTimeCommand @ '' '' @ decimal_int epoch) = [SetTimeCommand, decimal_int epoch]"
    using decimal_int_not_space decimal_int_nonempty by (intro Fields_two) auto
  then show ?thesis using assms by (simp add: guest_exec_def handleSettime_def Atoi_decimal_int)
qed

lemma sint_small: "- (2 ^ 63) \<le> x \<Longrightarrow> x < 2 ^ 63 \<Longrightarrow> sint (word_of_int x :: i64) = x"
  by (simp add: signed_of_int signed_take_bit_int_eq_self)

lemma skew_exact:
  assumes "\<bar>a - b\<bar> * second < 2 ^ 63"
  shows "sint ((word_of_int a - word_of_int b) * word_of_int second :: i64) = (a - b) * second"
    and "sint (Duration_Abs ((word_of_int a - word_of_int b) * word_of_int second)) = \<bar>a - b\<bar> * second"
proof -
  let ?x = "(a - b) * second"
  have b: "\<bar>?x\<bar> < 2 ^ 63" using assms by (auto simp: second_def abs_if split: if_splits)
  have w: "(word_of_int a - word_of_int b) * word_of_int second = (word_of_int ?x :: i64)" by (simp add: wi_hom_syms)
  have s: "sint (word_of_int ?x :: i64) = ?x" "sint (word_of_int (- ?x) :: i64) = - ?x" by (rule sint_small; use b in linarith)+
  show "sint ((word_of_int a - word_of_int b) * word_of_int second :: i64) = ?x" unfolding w by (rule s)
  have "- (word_of_int ?x :: i64) = word_of_int (- ?x)" by (simp add: wi_hom_syms)
  then have "sint (Duration_Abs (word_of_int ?x)) = \<bar>?x\<bar>" using s b by (auto simp: Duration_Abs_def)
  then show "sint (Duration_Abs ((word_of_int a - word_of_int b) * word_of_int second)) = \<bar>a - b\<bar> * second"
    unfolding w abs_mult by (simp add: second_def)
qed

text \<open>
  C33. A synchronisation sets the guest's clock right. As long as the skew fits the nanosecond
  counter, which covers 292 years, it is measured exactly, the clock is stepped exactly when it is off by
  the threshold or more, and then it is the host's time: the command that the host builds is
  the one the guest's server takes, and no other command is needed.
\<close>

theorem SyncOnce_corrects:
  assumes "date_doc shell" "settime now2" "0 \<le> now2" "now2 < 2 ^ 63" "- (2 ^ 63) \<le> clock" "clock < 2 ^ 63"
    and "\<bar>clock - now1\<bar> * second < 2 ^ 63"
  shows "case SyncOnce (guest_exec shell settime) s now1 now2 clock of (err, res, clock') \<Rightarrow>
    err = None \<and> sint (Skew res) = (clock - now1) * second \<and>
    (Stepped res \<longleftrightarrow> sy_threshold s \<le> \<bar>clock - now1\<bar> * second) \<and> clock' = (if Stepped res then now2 else clock)"
proof -
  have out: "TrimSpace (decimal_int clock @ [CHR 0x0A]) = decimal_int clock"
    using decimal_int_nonempty decimal_int_not_space by (intro TrimSpace_line_word) auto
  have atoi: "Atoi (decimal_int clock) = Some clock" using assms(5,6) by (rule Atoi_decimal_int)
  show ?thesis
    using assms(1) skew_exact [OF assms(7)] guest_settime [of now2 settime shell, OF assms(3,4,2)]
    by (simp add: SyncOnce_def guest_date date_doc_def out atoi Let_def not_less)
qed

definition demo_shell :: "string \<Rightarrow> int \<Rightarrow> unit + string" where
  "demo_shell command clock = (if command = ''date -u +%s'' then Inr (decimal_int clock @ [CHR 0x0A]) else Inl ())"

theorem SyncOnce_corrects_witness:
  "\<exists>res. SyncOnce (guest_exec demo_shell (\<lambda>_. True)) (NewSyncer []) 1000 1001 40 = (None, res, 1001)"
  using SyncOnce_corrects [of demo_shell "\<lambda>_. True" 1001 40 1000 "NewSyncer []"]
  by (auto simp: date_doc_def demo_shell_def NewSyncer_def DefaultThreshold_def second_def split: prod.splits)

text \<open>Beyond that, the skew wraps around: a clock that is ahead by \<open>2 ^ 55\<close> seconds passes for exact.\<close>

theorem SyncOnce_wraps:
  assumes "date_doc shell" "- (2 ^ 63) \<le> now1" "now1 + 2 ^ 55 < 2 ^ 63"
  shows "SyncOnce (guest_exec shell settime) (NewSyncer []) now1 now2 (now1 + 2 ^ 55) =
    (None, \<lparr>Skew = 0, Stepped = False\<rparr>, now1 + 2 ^ 55)"
proof -
  have "(word_of_int (now1 + 2 ^ 55) - word_of_int now1) * word_of_int second = (word_of_int (2 ^ 55 * second) :: i64)"
    by (simp add: wi_hom_syms)
  also have "\<dots> = 0" by (simp add: second_def word_of_int_eq_0_iff)
  finally have skew: "(word_of_int (now1 + 2 ^ 55) - word_of_int now1) * word_of_int second = (0 :: i64)" .
  have out: "TrimSpace (decimal_int c @ [CHR 0x0A]) = decimal_int c" for c
    using decimal_int_nonempty decimal_int_not_space by (intro TrimSpace_line_word) auto
  have "Atoi (decimal_int (now1 + 2 ^ 55)) = Some (now1 + 2 ^ 55)" using assms(2,3) by (intro Atoi_decimal_int) auto
  then show ?thesis
    using assms(1) skew unfolding date_doc_def
    by (simp add: SyncOnce_def guest_date out Let_def Duration_Abs_def NewSyncer_def DefaultThreshold_def second_def)
qed

end
