(* ===== verification/Disk.thy ===== *)
theory Disk
  imports Budget
begin

text \<open>
  Disk images, \<^verbatim>\<open>image/disk\<close>: the download of a file into a cache with retries and a checksum
  (\<^verbatim>\<open>fetch.go\<close>), and the extraction of a compressed archive (\<^verbatim>\<open>decompress.go\<close>)
  over the file system of \<^verbatim>\<open>image\<close>. The HTTP client, the back-off and the decoder are
  arguments.
\<close>

section \<open>fetch.go\<close>

text \<open>The cache directory: what a path is, a file with its content or a directory.\<close>

datatype disk_node = DiskFile bytes | DiskDir

type_synonym disk_fs = "string \<rightharpoonup> disk_node"

record fetchConfig =
  fc_checksum :: string

definition WithChecksum :: "string \<Rightarrow> fetchConfig \<Rightarrow> fetchConfig" where
  "WithChecksum h c = c\<lparr>fc_checksum := h\<rparr>"

datatype fetch_error =
  NoFilename | CreateCacheDir | DownloadFailed | OpenChecksum | ReadChecksum | ChecksumMismatch

text \<open>\<^verbatim>\<open>strings.EqualFold\<close> on ASCII strings.\<close>

definition lower :: "char \<Rightarrow> char" where
  "lower c = (let n = of_char c :: nat in if 65 \<le> n \<and> n \<le> 90 then char_of (n + 32) else c)"

definition EqualFold :: "string \<Rightarrow> string \<Rightarrow> bool" where
  "EqualFold a b \<longleftrightarrow> map lower a = map lower b"

definition verifyChecksum :: "(bytes \<Rightarrow> string) \<Rightarrow> disk_fs \<Rightarrow> string \<Rightarrow> string \<Rightarrow> fetch_error option" where
  "verifyChecksum sha256 fs path expected =
     (case fs path of
        None \<Rightarrow> Some OpenChecksum
      | Some DiskDir \<Rightarrow> Some ReadChecksum
      | Some (DiskFile data) \<Rightarrow> if EqualFold (sha256 data) expected then None else Some ChecksumMismatch)"

text \<open>
  What one request meets: the request cannot be made, the connection fails, a status, and then
  the file: the temporary file cannot be created, the body ends early, closing or renaming
  fails, or all is well.
\<close>

datatype body = TempFails | BodyFails | CloseFails | RenameFails | Complete bytes

datatype attempt = RequestInvalid | ConnectFails | Response nat body

datatype download_result = Downloaded | Transient | Permanent

definition downloadFile :: "attempt \<Rightarrow> string \<Rightarrow> disk_fs \<Rightarrow> download_result \<times> disk_fs" where
  "downloadFile a destPath fs =
     (case a of
        RequestInvalid \<Rightarrow> (Permanent, fs)
      | ConnectFails \<Rightarrow> (Transient, fs)
      | Response status body \<Rightarrow>
          if status < 200 \<or> 300 \<le> status then
            (if 400 \<le> status \<and> status < 500 then Permanent else Transient, fs)
          else case body of
            TempFails \<Rightarrow> (Permanent, fs)
          | BodyFails \<Rightarrow> (Transient, fs)
          | CloseFails \<Rightarrow> (Permanent, fs)
          | RenameFails \<Rightarrow> (Permanent, fs)
          | Complete data \<Rightarrow>
              if fs destPath = Some DiskDir then (Permanent, fs)
              else (Downloaded, fs(destPath \<mapsto> DiskFile data)))"

text \<open>
  \<^verbatim>\<open>backoff.Retry\<close>: the operation is repeated until it succeeds or fails for good, as long
  as the time allows; \<open>n\<close> is the number of attempts it allows.
\<close>

fun retry_download :: "(nat \<Rightarrow> attempt) \<Rightarrow> nat \<Rightarrow> nat \<Rightarrow> string \<Rightarrow> disk_fs \<Rightarrow> bool \<times> disk_fs" where
  "retry_download web 0 i destPath fs = (False, fs)"
| "retry_download web (Suc n) i destPath fs =
     (case downloadFile (web i) destPath fs of
        (Downloaded, fs) \<Rightarrow> (True, fs)
      | (Permanent, fs) \<Rightarrow> (False, fs)
      | (Transient, fs) \<Rightarrow> retry_download web n (Suc i) destPath fs)"

text \<open>\<^verbatim>\<open>os.Remove\<close>: of a directory only if it is empty, which is an outcome here.\<close>

definition remove_path :: "bool \<Rightarrow> string \<Rightarrow> disk_fs \<Rightarrow> disk_fs" where
  "remove_path dir_empty p fs = (if fs p = Some DiskDir \<and> \<not> dir_empty then fs else fs(p := None))"

definition fetch_filename :: "string \<Rightarrow> fetch_error + string" where
  "fetch_filename url =
     (let filename = Base url
      in if filename = [] \<or> filename = ''.'' \<or> filename = ''/'' then Inl NoFilename
         else Inr (takeWhile (\<lambda>c. c \<noteq> CHR ''?'') filename))"

definition Fetch ::
  "(bytes \<Rightarrow> string) \<Rightarrow> (nat \<Rightarrow> attempt) \<Rightarrow> nat \<Rightarrow> bool \<Rightarrow> bool \<Rightarrow> string \<Rightarrow> string \<Rightarrow> fetchConfig \<Rightarrow> disk_fs \<Rightarrow>
   (fetch_error + string) \<times> disk_fs" where
  "Fetch sha256 web n mkdir dir_empty url cacheDir cfg fs =
     (case fetch_filename url of
        Inl e \<Rightarrow> (Inl e, fs)
      | Inr filename \<Rightarrow>
          let destPath = Join cacheDir filename;
              (hit, fs) =
                (case fs destPath of
                   None \<Rightarrow> (False, fs)
                 | Some _ \<Rightarrow>
                     if fc_checksum cfg \<noteq> [] then
                       (case verifyChecksum sha256 fs destPath (fc_checksum cfg) of
                          Some e \<Rightarrow> (False, remove_path dir_empty destPath fs)
                        | None \<Rightarrow> (True, fs))
                     else (True, fs))
          in if hit then (Inr destPath, fs)
             else if \<not> mkdir then (Inl CreateCacheDir, fs)
             else case retry_download web n 0 destPath (if fs cacheDir = None then fs(cacheDir \<mapsto> DiskDir) else fs) of
               (False, fs) \<Rightarrow> (Inl DownloadFailed, fs)
             | (True, fs) \<Rightarrow>
                 if fc_checksum cfg = [] then (Inr destPath, fs)
                 else case verifyChecksum sha256 fs destPath (fc_checksum cfg) of
                   Some e \<Rightarrow> (Inl e, remove_path dir_empty destPath fs)
                 | None \<Rightarrow> (Inr destPath, fs))"

section \<open>decompress.go\<close>

definition MaxDecompressedSize :: int where "MaxDecompressedSize = 30 * 2 ^ 30"

text \<open>\<open>broken\<close>: the bytes after which reading the entry fails, if it fails.\<close>

definition extractRegFile ::
  "nat option \<Rightarrow> tar_entry \<Rightarrow> string \<Rightarrow> string \<Rightarrow> int \<Rightarrow> fs \<Rightarrow> extract_error option \<times> int \<times> fs" where
  "extractRegFile broken e target rootDir written s =
     (case mkdirAllNoSymlink rootDir (Dir target) 0x1ED s of
        (Some err, s) \<Rightarrow> (Some err, written, s)
      | (None, s) \<Rightarrow>
          (case validateNoSymlinkLeaf target s of
             Some err \<Rightarrow> (Some err, written, s)
           | None \<Rightarrow>
               (case OpenTrunc s target (Perm (hdr_Mode (te_header e)) OR 0x100) of
                  Inl err \<Rightarrow> (Some (OsError err), written, s)
                | Inr (f, s) \<Rightarrow>
                    (case broken of
                       Some k \<Rightarrow> (Some CopyFailed, written, write_node f (take k (te_data e)) s)
                     | None \<Rightarrow> (None, written + int (length (te_data e)), write_node f (te_data e) s)))))"

text \<open>Directories, symbolic and hard links take the same steps as in \<^verbatim>\<open>image/pull.go\<close>.\<close>

definition disk_extractSymlink :: "tar_header \<Rightarrow> string \<Rightarrow> string \<Rightarrow> fs \<Rightarrow> extract_error option \<times> fs" where
  "disk_extractSymlink hdr target rootDir s = extractSymlink hdr target rootDir s"

definition disk_extractHardlink :: "tar_header \<Rightarrow> string \<Rightarrow> string \<Rightarrow> fs \<Rightarrow> extract_error option \<times> fs" where
  "disk_extractHardlink hdr target rootDir s = extractHardlink hdr target rootDir s"

definition extractEntry ::
  "nat option \<Rightarrow> tar_entry \<Rightarrow> string \<Rightarrow> string \<Rightarrow> int \<Rightarrow> fs \<Rightarrow> extract_error option \<times> int \<times> fs" where
  "extractEntry broken e target rootDir written s =
     (let hdr = te_header e
      in case hdr_Typeflag hdr of
           TypeDir \<Rightarrow> (case make_directory hdr target rootDir s of (err, s) \<Rightarrow> (err, written, s))
         | TypeReg \<Rightarrow> extractRegFile broken e target rootDir written s
         | TypeSymlink \<Rightarrow> (case disk_extractSymlink hdr target rootDir s of (err, s) \<Rightarrow> (err, written, s))
         | TypeLink \<Rightarrow> (case disk_extractHardlink hdr target rootDir s of (err, s) \<Rightarrow> (err, written, s))
         | TypeOther \<Rightarrow> (None, written, s))"

fun decompress_loop ::
  "(nat \<Rightarrow> bool) \<Rightarrow> bool \<Rightarrow> (nat \<Rightarrow> nat option) \<Rightarrow> string \<Rightarrow> nat \<Rightarrow> int \<Rightarrow> tar_entry list \<Rightarrow> fs \<Rightarrow> extract_error option \<times> fs" where
  "decompress_loop cancelled clean broken dst count written [] s =
     (if cancelled count then (Some Cancelled, s)
      else if \<not> clean then (Some TarReadFailed, s)
      else if count = 0 then (Some EmptyArchive, s) else (None, s))"
| "decompress_loop cancelled clean broken dst count written (e # es) s =
     (if cancelled count then (Some Cancelled, s)
      else case SanitizeTarPath dst (hdr_Name (te_header e)) of
        Inl _ \<Rightarrow> decompress_loop cancelled clean broken dst (count + 1) written es s
      | Inr target \<Rightarrow>
          (case extractEntry (broken count) e target dst written s of
             (Some err, written, s) \<Rightarrow> (Some err, s)
           | (None, written, s) \<Rightarrow>
               if MaxDecompressedSize < written then (Some TooLarge, s)
               else decompress_loop cancelled clean broken dst (count + 1) written es s))"

text \<open>\<open>None\<close> for the archive: the decoder cannot be created.\<close>

definition Decompress ::
  "(nat \<Rightarrow> bool) \<Rightarrow> bool \<Rightarrow> (nat \<Rightarrow> nat option) \<Rightarrow> tar_entry list option \<Rightarrow> string \<Rightarrow> fs \<Rightarrow> extract_error option \<times> fs" where
  "Decompress cancelled clean broken src destDir s =
     (case src of
        None \<Rightarrow> (Some TarReadFailed, s)
      | Some es \<Rightarrow> decompress_loop cancelled clean broken destDir 0 0 es s)"

section \<open>Downloads\<close>

lemma verifyChecksum_None:
  "verifyChecksum sha256 fs p h = None \<longleftrightarrow> (\<exists>data. fs p = Some (DiskFile data) \<and> EqualFold (sha256 data) h)"
  by (auto simp: verifyChecksum_def split: option.splits disk_node.splits)

lemma retry_download_file:
  "retry_download web n i p fs = (True, fs') \<Longrightarrow> \<exists>data. fs' p = Some (DiskFile data)"
proof (induction web n i p fs rule: retry_download.induct)
  case (2 web n i p fs)
  show ?case
  proof (cases "downloadFile (web i) p fs")
    case (Pair r fs1)
    have "\<exists>data. fs1 p = Some (DiskFile data)" if "r = Downloaded"
      using Pair that by (auto simp: downloadFile_def split: attempt.splits body.splits if_splits)
    then show ?thesis using 2 Pair by (cases r) auto
  qed
qed simp

lemma remove_file: "fs p \<noteq> Some DiskDir \<Longrightarrow> remove_path e p fs p = None"
  by (simp add: remove_path_def)

text \<open>
  A checked download delivers what was asked for. Whether the file was cached or downloaded, after
  any number of failing attempts, the path that \<open>Fetch\<close> returns for a checksum holds a file with
  this checksum; and when the checksum of the download is wrong, the file is removed.
\<close>

theorem Fetch_verified:
  assumes "fc_checksum cfg \<noteq> []"
  shows "case Fetch sha256 web n mkdir dir_empty url cacheDir cfg fs of
      (Inr p, fs') \<Rightarrow> (\<exists>data. fs' p = Some (DiskFile data) \<and> EqualFold (sha256 data) (fc_checksum cfg))
    | (Inl e, fs') \<Rightarrow> e = ChecksumMismatch \<longrightarrow> (\<exists>name. fetch_filename url = Inr name \<and> fs' (Join cacheDir name) = None)"
proof (cases "fetch_filename url")
  case (Inl e)
  then have "e = NoFilename" by (auto simp: fetch_filename_def Let_def split: if_splits)
  with Inl show ?thesis by (simp add: Fetch_def)
next
  case (Inr name)
  let ?p = "Join cacheDir name" and ?h = "fc_checksum cfg"
  show ?thesis
  proof (cases "fs ?p \<noteq> None \<and> verifyChecksum sha256 fs ?p ?h = None")
    case True
    then obtain data where "fs ?p = Some (DiskFile data)" "EqualFold (sha256 data) ?h" by (auto simp: verifyChecksum_None)
    with Inr True assms show ?thesis by (simp add: Fetch_def Let_def)
  next
    case False
    define fs1 where "fs1 = (if fs ?p = None then fs else remove_path dir_empty ?p fs)"
    define fs2 where "fs2 = (if fs1 cacheDir = None then fs1(cacheDir \<mapsto> DiskDir) else fs1)"
    have F: "Fetch sha256 web n mkdir dir_empty url cacheDir cfg fs =
      (if \<not> mkdir then (Inl CreateCacheDir, fs1)
       else case retry_download web n 0 ?p fs2 of
         (False, fs) \<Rightarrow> (Inl DownloadFailed, fs)
       | (True, fs) \<Rightarrow>
           if ?h = [] then (Inr ?p, fs)
           else case verifyChecksum sha256 fs ?p ?h of
             Some e \<Rightarrow> (Inl e, remove_path dir_empty ?p fs) | None \<Rightarrow> (Inr ?p, fs))"
      using Inr False assms
      by (cases "fs ?p"; cases "verifyChecksum sha256 fs ?p ?h") (simp_all add: Fetch_def Let_def fs1_def fs2_def)
    obtain ok fs3 where r: "retry_download web n 0 ?p fs2 = (ok, fs3)" by fastforce
    show ?thesis
    proof (cases "mkdir \<and> ok")
      case True
      with r obtain data where "fs3 ?p = Some (DiskFile data)" using retry_download_file [of web n 0 ?p fs2 fs3] by auto
      then show ?thesis
        using F r True Inr assms by (cases "verifyChecksum sha256 fs3 ?p ?h") (auto simp: verifyChecksum_None remove_file)
    qed (use F r in auto)
  qed
qed

text \<open>
  The name is tested before the query is cut off: a URL whose last component is only a query gives
  the cache directory itself, which exists and is returned as the download.
\<close>

lemma Fetch_returns_directory:
  "fst (Fetch sha256 web n True False ''https://host/?v=1'' ''/cache'' \<lparr>fc_checksum = []\<rparr> [''/cache'' \<mapsto> DiskDir]) = Inr ''/cache''"
proof -
  have "fetch_filename ''https://host/?v=1'' = Inr []" "Join ''/cache'' [] = ''/cache''" by code_simp+
  then show ?thesis by (simp add: Fetch_def Let_def)
qed

section \<open>Decompression\<close>

text \<open>Reading without a limit, as a meter of the extraction in \<^verbatim>\<open>image\<close>.\<close>

definition unlimited :: "nat option \<Rightarrow> int meter_ops" where
  "unlimited broken =
     \<lparr>m_next = \<lambda>e n. NextOk n,
      m_copy = \<lambda>chunks n. (case broken of
          Some k \<Rightarrow> (take k (concat chunks), False, n)
        | None \<Rightarrow> (concat chunks, True, n + int (length (concat chunks)))),
      m_full = \<lambda>n. MaxDecompressedSize < n\<rparr>"

lemma extractRegFile_unlimited: "extractRegFile broken e t r n s = extractRegularFile (unlimited broken) e t r n s"
  by (cases broken)
    (auto simp: extractRegFile_def extractRegularFile_def unlimited_def te_data_def Let_def split: prod.split option.split sum.split)

lemma extractRegFile_written: "extractRegFile None e t r n s = (None, n', s') \<Longrightarrow> n' = n + int (length (te_data e))"
  by (auto simp: extractRegFile_def split: option.splits sum.splits prod.splits)

lemma disk_entry_inside:
  assumes "root_stable Out rc R s0" "\<forall>c \<in> set rc. proper c" "confined Out R s0 s" "rc \<noteq> []"
    and "\<forall>c \<in> set us. proper c" "hdr_Typeflag (te_header e) \<noteq> TypeLink"
    and "extractEntry broken e (abs_path (rc @ us)) (abs_path rc) n s = (err, n', s')"
  shows "confined Out R s0 s'"
proof (cases "hdr_Typeflag (te_header e)")
  case TypeDir
  then show ?thesis
    using assms(7) directory_inside [OF assms(1-3,5), where hdr = "te_header e" and s' = s'] by (auto simp: extractEntry_def Let_def split: prod.splits)
next
  case TypeReg
  then show ?thesis
    using assms(7) regular_inside [OF assms(1-5), where e = e and s' = s' and M = "unlimited broken"]
    by (auto simp: extractEntry_def Let_def extractRegFile_unlimited)
next
  case TypeSymlink
  then show ?thesis
    using assms(7) symlink_entry_inside [OF assms(1-5), where hdr = "te_header e" and s' = s']
    by (auto simp: extractEntry_def disk_extractSymlink_def Let_def split: prod.splits)
qed (use assms(3,6,7) in \<open>auto simp: extractEntry_def Let_def\<close>)

lemma decompress_loop_inside:
  assumes "root_stable Out rc R s0" "\<forall>c \<in> set rc. proper c" "rc \<noteq> []" "confined Out R s0 s"
    and "\<forall>e \<in> set es. hdr_Typeflag (te_header e) \<noteq> TypeLink"
  shows "confined Out R s0 (snd (decompress_loop cancelled clean broken (abs_path rc) count n es s))"
  using assms(4,5)
proof (induction es arbitrary: count n s)
  case (Cons e es)
  show ?case
  proof (cases "SanitizeTarPath (abs_path rc) (hdr_Name (te_header e))")
    case (Inr t)
    obtain us where us: "\<forall>c \<in> set us. proper c" "t = abs_path (rc @ us)"
      using Contains_inside [OF assms(2)] Inr by (auto simp: SanitizeTarPath_def)
    obtain e1 n1 s1 where r: "extractEntry (broken count) e t (abs_path rc) n s = (e1, n1, s1)" by (metis surj_pair)
    have "confined Out R s0 s1"
      using disk_entry_inside [OF assms(1,2) Cons.prems(1) assms(3) us(1)] r us(2) Cons.prems(2) by auto
    with Cons Inr r show ?thesis by (cases e1) auto
  qed (use Cons in auto)
qed simp

text \<open>
  C35. The limit of a decompression does not limit it. The size is tested after an entry has been
  written as a whole: a single entry of any size ends up on the disk, and only then is the
  archive refused.
\<close>

theorem Decompress_unbounded:
  "case Decompress (\<lambda>_. False) True (\<lambda>_. None) (Some [entry ''f'' [] TypeReg data]) ''/dst'' host_fs of
    (err, s') \<Rightarrow> map_option kind (nodes s' 3) = Some (File data) \<and>
      err = (if MaxDecompressedSize < int (length data) then Some TooLarge else None)"
proof -
  let ?e = "entry ''f'' [] TypeReg data"
  obtain err n s' where r: "extractEntry None ?e ''/dst/f'' ''/dst'' 0 host_fs = (err, n, s')" by (metis surj_pair)
  have "fst (extractEntry None ?e ''/dst/f'' ''/dst'' 0 host_fs) = None" by code_simp
  then have err: "err = None" using r by simp
  have "map_option kind (nodes (snd (snd (extractEntry None ?e ''/dst/f'' ''/dst'' 0 host_fs))) 3) = Some (File (data @ []))"
    by code_simp
  then have f: "map_option kind (nodes s' 3) = Some (File data)" using r by simp
  have n: "n = int (length data)"
    using r err extractRegFile_written [of ?e "''/dst/f''" "''/dst''" 0 host_fs n s']
    by (simp add: extractEntry_def entry_def te_data_def Let_def)
  have "SanitizeTarPath ''/dst'' ''f'' = Inr ''/dst/f''" by code_simp
  then show ?thesis using r err f n by (simp add: Decompress_def entry_def)
qed

text \<open>
  C34. Extracting a disk archive without hard links changes nothing outside its destination.
\<close>

theorem Decompress_confined:
  assumes "destination Out rc R s" "\<forall>e \<in> set es. hdr_Typeflag (te_header e) \<noteq> TypeLink" "i \<in> Out"
  shows "nodes (snd (Decompress cancelled clean broken (Some es) (abs_path rc) s)) i = nodes s i"
proof -
  have "confined Out R s (snd (Decompress cancelled clean broken (Some es) (abs_path rc) s))"
    unfolding Decompress_def option.case
    by (rule decompress_loop_inside) (use assms in \<open>auto simp: destination_def\<close>)
  then show ?thesis using assms(3) by (simp add: confined_def same_outside_def)
qed

theorem Decompress_confined_witness:
  "nodes (snd (Decompress (\<lambda>_. False) True (\<lambda>_. None)
     (Some [entry ''a'' ''/'' TypeSymlink [], entry ''a/secret'' [] TypeReg [9], entry ''../secret'' [] TypeReg [9]])
     (abs_path [''dst'']) host_fs)) 1 = nodes host_fs 1"
  using Decompress_confined [OF host_destination, of _ 1] by (simp add: entry_def)

end
