(* ===== verification/Bundle.thy ===== *)
theory Bundle
  imports GoPath "HOL-Library.AList"
begin

text \<open>
  The bundles of runtime files, \<^verbatim>\<open>extract\<close>: a bundle is unpacked once into a directory of the
  cache that carries its hash, and verified against the manifest in it on every later use. SHA-256
  and the JSON of the manifest are arguments; \<open>others\<close> is what other processes do to the cache
  between the first look and the lock. A directory maps the names of its files, which are taken to
  be clean relative paths.
\<close>

section \<open>bundle.go\<close>

definition manifestName :: string where "manifestName = ''.manifest.json''"

record manifest =
  mf_Version :: string
  mf_Hash :: string
  mf_Files :: "(string \<times> string) list"

record bundle_file =
  bf_Name :: string
  bf_Content :: string
  bf_Mode :: u32

record Symlink =
  sl_Target :: string
  sl_Name :: string

record Bundle =
  bn_version :: string
  bn_files :: "bundle_file list"
  bn_links :: "Symlink list"

definition NewBundle :: "string \<Rightarrow> bundle_file list \<Rightarrow> Symlink list \<Rightarrow> Bundle" where
  "NewBundle version files links = \<lparr>bn_version = version, bn_files = files, bn_links = links\<rparr>"

text \<open>A directory of the cache: its files with their content and mode, and its links.\<close>

record cache_dir =
  cd_files :: "string \<rightharpoonup> string \<times> u32"
  cd_links :: "string \<rightharpoonup> string"

type_synonym cache_fs = "string \<rightharpoonup> cache_dir"

definition empty_dir :: cache_dir where "empty_dir = \<lparr>cd_files = Map.empty, cd_links = Map.empty\<rparr>"

definition computeHash :: "(string \<Rightarrow> string) \<Rightarrow> Bundle \<Rightarrow> string" where
  "computeHash sha256 b = sha256 (bn_version b @ concat (map (\<lambda>f. bf_Name f @ bf_Content f) (bn_files b)))"

definition hashFileOnDisk :: "(string \<Rightarrow> string) \<Rightarrow> cache_dir \<Rightarrow> string \<Rightarrow> string option" where
  "hashFileOnDisk sha256 d name = map_option (sha256 \<circ> fst) (cd_files d name)"

definition isValid :: "(string \<Rightarrow> string) \<Rightarrow> (string \<Rightarrow> manifest option) \<Rightarrow> cache_dir option \<Rightarrow> string \<Rightarrow> bool" where
  "isValid sha256 dec target hash =
     (case target of
        None \<Rightarrow> False
      | Some d \<Rightarrow>
          (case cd_files d manifestName of
             None \<Rightarrow> False
           | Some (data, _) \<Rightarrow>
               (case dec data of
                  None \<Rightarrow> False
                | Some m \<Rightarrow>
                    if mf_Hash m \<noteq> hash then False
                    else list_all (\<lambda>(name, want). hashFileOnDisk sha256 d name = Some want) (mf_Files m))))"

datatype bundle_error =
  CreateCache | AcquireFileLock | CreateTempDir | ExtractFailed string | SymlinkFailed string | WriteManifest
| RemoveStale | RenameTarget | EmptyCacheDir | NoDirectory

text \<open>The outcomes of the calls; a file or a link that cannot be made is named.\<close>

record bundle_env =
  be_mkdir :: bool
  be_lock :: bool
  be_temp :: bool
  be_file :: "string \<Rightarrow> bool"
  be_link :: "string \<Rightarrow> bool"
  be_write :: bool
  be_remove :: bool
  be_rename :: bool

definition extractFile :: "bundle_env \<Rightarrow> bundle_file \<Rightarrow> cache_dir \<Rightarrow> bool \<times> cache_dir" where
  "extractFile v f d =
     (if be_file v (bf_Name f) then (True, d\<lparr>cd_files := (cd_files d)(bf_Name f \<mapsto> (bf_Content f, bf_Mode f))\<rparr>) else (False, d))"

text \<open>A link is not made where there is a file or a link already.\<close>

definition createSymlink :: "bundle_env \<Rightarrow> Symlink \<Rightarrow> cache_dir \<Rightarrow> bool \<times> cache_dir" where
  "createSymlink v l d =
     (if be_link v (sl_Name l) \<and> cd_files d (sl_Name l) = None \<and> cd_links d (sl_Name l) = None
      then (True, d\<lparr>cd_links := (cd_links d)(sl_Name l \<mapsto> sl_Target l)\<rparr>) else (False, d))"

fun extract_files :: "bundle_env \<Rightarrow> bundle_file list \<Rightarrow> cache_dir \<Rightarrow> bundle_error option \<times> cache_dir" where
  "extract_files v [] d = (None, d)"
| "extract_files v (f # fs) d =
     (case extractFile v f d of (False, d) \<Rightarrow> (Some (ExtractFailed (bf_Name f)), d) | (True, d) \<Rightarrow> extract_files v fs d)"

fun create_links :: "bundle_env \<Rightarrow> Symlink list \<Rightarrow> cache_dir \<Rightarrow> bundle_error option \<times> cache_dir" where
  "create_links v [] d = (None, d)"
| "create_links v (l # ls) d =
     (case createSymlink v l d of (False, d) \<Rightarrow> (Some (SymlinkFailed (sl_Name l)), d) | (True, d) \<Rightarrow> create_links v ls d)"

definition file_hashes :: "(string \<Rightarrow> string) \<Rightarrow> bundle_file list \<Rightarrow> (string \<times> string) list" where
  "file_hashes sha256 files = fold (\<lambda>f. AList.update (bf_Name f) (sha256 (bf_Content f))) files []"

definition bundle_manifest :: "(string \<Rightarrow> string) \<Rightarrow> Bundle \<Rightarrow> string \<Rightarrow> manifest" where
  "bundle_manifest sha256 b hash =
     \<lparr>mf_Version = bn_version b, mf_Hash = hash, mf_Files = file_hashes sha256 (bn_files b)\<rparr>"

text \<open>The content of the temporary directory, when everything has been written to it.\<close>

definition fill_temp ::
  "(string \<Rightarrow> string) \<Rightarrow> (manifest \<Rightarrow> string) \<Rightarrow> bundle_env \<Rightarrow> Bundle \<Rightarrow> string \<Rightarrow> bundle_error + cache_dir" where
  "fill_temp sha256 enc v b hash =
     (case extract_files v (bn_files b) empty_dir of
        (Some e, d) \<Rightarrow> Inl e
      | (None, d) \<Rightarrow>
          (case create_links v (bn_links b) d of
             (Some e, d) \<Rightarrow> Inl e
           | (None, d) \<Rightarrow>
               if \<not> be_write v then Inl WriteManifest
               else Inr (d\<lparr>cd_files := (cd_files d)(manifestName \<mapsto> (enc (bundle_manifest sha256 b hash), 0x180))\<rparr>)))"

definition extract_locked ::
  "(string \<Rightarrow> string) \<Rightarrow> (manifest \<Rightarrow> string) \<Rightarrow> bundle_env \<Rightarrow> Bundle \<Rightarrow> string \<Rightarrow> string \<Rightarrow> string \<Rightarrow> cache_fs \<Rightarrow>
   (bundle_error + string) \<times> cache_fs" where
  "extract_locked sha256 enc v b hash tmpDir targetDir fs =
     (if \<not> be_temp v then (Inl CreateTempDir, fs)
      else case fill_temp sha256 enc v b hash of
        Inl e \<Rightarrow> (Inl e, fs(tmpDir := None))
      | Inr d \<Rightarrow>
          if fs targetDir \<noteq> None \<and> \<not> be_remove v then (Inl RemoveStale, fs(tmpDir := None))
          else let fs = fs(targetDir := None)
            in if \<not> be_rename v then (Inl RenameTarget, fs(tmpDir := None))
               else (Inr targetDir, fs(tmpDir := None, targetDir \<mapsto> d)))"

definition Ensure ::
  "(string \<Rightarrow> string) \<Rightarrow> (manifest \<Rightarrow> string) \<Rightarrow> (string \<Rightarrow> manifest option) \<Rightarrow> bundle_env \<Rightarrow> (cache_fs \<Rightarrow> cache_fs) \<Rightarrow>
   Bundle \<Rightarrow> string \<Rightarrow> string \<Rightarrow> cache_fs \<Rightarrow> (bundle_error + string) \<times> cache_fs" where
  "Ensure sha256 enc dec v others b tmpDir cacheDir fs =
     (let hash = computeHash sha256 b; targetDir = Join cacheDir (''extract-'' @ take 16 hash)
      in if isValid sha256 dec (fs targetDir) hash then (Inr targetDir, fs)
         else if \<not> be_mkdir v then (Inl CreateCache, fs)
         else if \<not> be_lock v then (Inl AcquireFileLock, others fs)
         else let fs = others fs
           in if isValid sha256 dec (fs targetDir) hash then (Inr targetDir, fs)
              else extract_locked sha256 enc v b hash tmpDir targetDir fs)"

section \<open>source.go, libname.go\<close>

definition RunnerBinaryName :: string where "RunnerBinaryName = ''go-microvm-runner''"

definition LibName :: "string \<Rightarrow> nat \<Rightarrow> string" where
  "LibName base major = ''lib'' @ base @ ''.so.'' @ decimal major"

definition bundleSource_Ensure ::
  "(string \<Rightarrow> string) \<Rightarrow> (manifest \<Rightarrow> string) \<Rightarrow> (string \<Rightarrow> manifest option) \<Rightarrow> bundle_env \<Rightarrow> (cache_fs \<Rightarrow> cache_fs) \<Rightarrow>
   Bundle \<Rightarrow> string \<Rightarrow> string \<Rightarrow> cache_fs \<Rightarrow> (bundle_error + string) \<times> cache_fs" where
  "bundleSource_Ensure sha256 enc dec v others b tmpDir cacheDir fs =
     (if cacheDir = [] then (Inl EmptyCacheDir, fs) else Ensure sha256 enc dec v others b tmpDir cacheDir fs)"

definition dirSource_Ensure :: "(string \<Rightarrow> bool option) \<Rightarrow> string \<Rightarrow> bundle_error + string" where
  "dirSource_Ensure stat path = (if stat path = Some True then Inr path else Inl NoDirectory)"

definition RuntimeBundle :: "string \<Rightarrow> string \<Rightarrow> string \<Rightarrow> bundle_file list \<Rightarrow> Bundle" where
  "RuntimeBundle version runner libkrun extraLibs =
     NewBundle version
       ([\<lparr>bf_Name = RunnerBinaryName, bf_Content = runner, bf_Mode = 0x1ED\<rparr>,
         \<lparr>bf_Name = LibName ''krun'' 1, bf_Content = libkrun, bf_Mode = 0x1ED\<rparr>] @ extraLibs) []"

definition FirmwareBundle :: "string \<Rightarrow> nat \<Rightarrow> string \<Rightarrow> Bundle" where
  "FirmwareBundle version major firmware =
     NewBundle version [\<lparr>bf_Name = LibName ''krunfw'' major, bf_Content = firmware, bf_Mode = 0x1ED\<rparr>] []"

section \<open>Properties\<close>

lemma map_of_file_hashes:
  "map_of (fold (\<lambda>f. AList.update (bf_Name f) (sha256 (bf_Content f))) files al) =
   map_of al ++ map_of (rev (map (\<lambda>f. (bf_Name f, sha256 (bf_Content f))) files))"
  by (induction files arbitrary: al) (auto simp: AList.update_conv' map_add_def fun_eq_iff split: option.split)

lemma file_hashes_lookup:
  assumes "distinct (map bf_Name files)" "f \<in> set files"
  shows "map_of (file_hashes sha256 files) (bf_Name f) = Some (sha256 (bf_Content f))"
proof -
  let ?xs = "rev (map (\<lambda>f. (bf_Name f, sha256 (bf_Content f))) files)"
  have "map fst ?xs = rev (map bf_Name files)" by (simp add: rev_map comp_def)
  then have "distinct (map fst ?xs)" using assms(1) by simp
  moreover have "(bf_Name f, sha256 (bf_Content f)) \<in> set ?xs" using assms(2) by auto
  ultimately have "map_of ?xs (bf_Name f) = Some (sha256 (bf_Content f))" by (rule map_of_is_SomeI)
  then show ?thesis by (simp add: file_hashes_def map_of_file_hashes)
qed

lemma update_mem: "x \<in> set (AList.update k v al) \<Longrightarrow> x = (k, v) \<or> x \<in> set al"
  by (induction al) (auto split: if_splits)

lemma file_hashes_mem:
  "(n, h) \<in> set (fold (\<lambda>f. AList.update (bf_Name f) (sha256 (bf_Content f))) files al) \<Longrightarrow>
   (n, h) \<in> set al \<or> (\<exists>f \<in> set files. n = bf_Name f \<and> h = sha256 (bf_Content f))"
proof (induction files arbitrary: al)
  case (Cons f files)
  then show ?case using update_mem by fastforce
qed simp

lemma extract_files_content:
  assumes "extract_files v files d = (None, d')"
  shows "n \<notin> bf_Name ` set files \<Longrightarrow> cd_files d' n = cd_files d n"
    and "distinct (map bf_Name files) \<Longrightarrow> f \<in> set files \<Longrightarrow> cd_files d' (bf_Name f) = Some (bf_Content f, bf_Mode f)"
proof -
  have same: "extract_files v files d = (None, d') \<Longrightarrow> n \<notin> bf_Name ` set files \<Longrightarrow> cd_files d' n = cd_files d n" for files d n
    by (induction files arbitrary: d) (auto simp: extractFile_def split: if_splits)
  then show "n \<notin> bf_Name ` set files \<Longrightarrow> cd_files d' n = cd_files d n" using assms by blast
  show "distinct (map bf_Name files) \<Longrightarrow> f \<in> set files \<Longrightarrow> cd_files d' (bf_Name f) = Some (bf_Content f, bf_Mode f)"
    using assms
  proof (induction files arbitrary: d)
    case (Cons g files)
    then show ?case using same [of files] by (auto simp: extractFile_def split: if_splits)
  qed simp
qed

lemma create_links_files: "create_links v ls d = (e, d') \<Longrightarrow> cd_files d' = cd_files d"
  by (induction ls arbitrary: d) (auto simp: createSymlink_def split: if_splits)

text \<open>The files of a directory have the hashes of the bundle's files.\<close>

definition holds_bundle :: "(string \<Rightarrow> string) \<Rightarrow> Bundle \<Rightarrow> cache_dir \<Rightarrow> bool" where
  "holds_bundle sha256 b d \<longleftrightarrow> (\<forall>f \<in> set (bn_files b). hashFileOnDisk sha256 d (bf_Name f) = Some (sha256 (bf_Content f)))"

definition wf_bundle :: "Bundle \<Rightarrow> bool" where
  "wf_bundle b \<longleftrightarrow> distinct (map bf_Name (bn_files b)) \<and> (\<forall>f \<in> set (bn_files b). bf_Name f \<noteq> manifestName)"

lemma fill_temp_valid:
  assumes "fill_temp sha256 enc v b hash = Inr d" "wf_bundle b"
    and "dec (enc (bundle_manifest sha256 b hash)) = Some (bundle_manifest sha256 b hash)"
  shows "holds_bundle sha256 b d" "isValid sha256 dec (Some d) hash"
proof -
  obtain d1 d2 where x: "extract_files v (bn_files b) empty_dir = (None, d1)" "create_links v (bn_links b) d1 = (None, d2)"
    and d: "d = d2\<lparr>cd_files := (cd_files d2)(manifestName \<mapsto> (enc (bundle_manifest sha256 b hash), 0x180))\<rparr>"
    using assms(1) by (auto simp: fill_temp_def split: prod.splits option.splits if_splits)
  have f: "cd_files d (bf_Name f) = Some (bf_Content f, bf_Mode f)" if "f \<in> set (bn_files b)" for f
    using extract_files_content(2) [OF x(1) _ that] create_links_files [OF x(2)] assms(2) d that
    by (simp add: wf_bundle_def)
  then show "holds_bundle sha256 b d" by (simp add: holds_bundle_def hashFileOnDisk_def)
  have "hashFileOnDisk sha256 d n = Some h" if "(n, h) \<in> set (file_hashes sha256 (bn_files b))" for n h
    using file_hashes_mem [of n h sha256 "bn_files b" "[]"] that f by (auto simp: file_hashes_def hashFileOnDisk_def)
  then show "isValid sha256 dec (Some d) hash"
    using d assms(3) by (auto simp: isValid_def bundle_manifest_def list_all_iff)
qed

text \<open>A manifest is genuine if, when it carries the hash of the bundle, it lists the bundle's files.\<close>

definition genuine :: "(string \<Rightarrow> string) \<Rightarrow> (string \<Rightarrow> manifest option) \<Rightarrow> Bundle \<Rightarrow> cache_dir option \<Rightarrow> bool" where
  "genuine sha256 dec b target \<longleftrightarrow>
     (\<forall>d data mode m. target = Some d \<and> cd_files d manifestName = Some (data, mode) \<and> dec data = Some m \<and>
        mf_Hash m = computeHash sha256 b \<longrightarrow> map_of (mf_Files m) = map_of (file_hashes sha256 (bn_files b)))"

lemma valid_genuine:
  assumes "isValid sha256 dec target (computeHash sha256 b)" "genuine sha256 dec b target" "wf_bundle b"
  shows "\<exists>d. target = Some d \<and> holds_bundle sha256 b d"
proof -
  obtain d data mode m where d: "target = Some d" "cd_files d manifestName = Some (data, mode)" "dec data = Some m"
    "mf_Hash m = computeHash sha256 b" "list_all (\<lambda>(name, want). hashFileOnDisk sha256 d name = Some want) (mf_Files m)"
    using assms(1) by (auto simp: isValid_def split: option.splits if_splits)
  have "map_of (mf_Files m) = map_of (file_hashes sha256 (bn_files b))" using assms(2) d by (auto simp: genuine_def)
  then have "(bf_Name f, sha256 (bf_Content f)) \<in> set (mf_Files m)" if "f \<in> set (bn_files b)" for f
    using file_hashes_lookup [of "bn_files b" f sha256] assms(3) that by (metis map_of_SomeD wf_bundle_def)
  then show ?thesis using d by (fastforce simp: holds_bundle_def list_all_iff)
qed


definition demo_bundle :: Bundle where
  "demo_bundle = RuntimeBundle ''1'' ''ELF'' ''SO'' []"

definition demo_manifest :: manifest where
  "demo_manifest = bundle_manifest id demo_bundle (computeHash id demo_bundle)"

definition demo_dec :: "string \<Rightarrow> manifest option" where
  "demo_dec data = (if data = ''{}'' then Some demo_manifest else None)"

definition demo_env :: bundle_env where
  "demo_env = \<lparr>be_mkdir = True, be_lock = True, be_temp = True, be_file = (\<lambda>_. True), be_link = (\<lambda>_. True),
     be_write = True, be_remove = True, be_rename = True\<rparr>"

definition demo_dir :: cache_dir where
  "demo_dir = \<lparr>cd_files = [''go-microvm-runner'' \<mapsto> (''ELF'', 0x1ED), ''libkrun.so.1'' \<mapsto> (''SO'', 0x1ED), ''.manifest.json'' \<mapsto> (''{}'', 0x180)],
     cd_links = Map.empty\<rparr>"

lemma demo_LibName: "LibName ''krun'' (Suc 0) = ''libkrun.so.1''"
  by code_simp

lemma demo_fill: "fill_temp id (\<lambda>_. ''{}'') demo_env demo_bundle (computeHash id demo_bundle) = Inr demo_dir"
  by (simp add: fill_temp_def demo_bundle_def RuntimeBundle_def NewBundle_def extractFile_def demo_env_def empty_dir_def demo_dir_def
      RunnerBinaryName_def demo_LibName manifestName_def)


text \<open>A failing call leaves no temporary directory, and no other target than before or none.\<close>

lemma Ensure_fails_clean:
  assumes "Ensure sha256 enc dec v others b tmpDir cacheDir fs = (Inl e, fs')" "fs tmpDir = None" "others fs tmpDir = None"
  shows "fs' tmpDir = None" "p \<noteq> Join cacheDir (''extract-'' @ take 16 (computeHash sha256 b)) \<Longrightarrow> fs' p = fs p \<or> fs' p = others fs p"
  using assms by (auto simp: Ensure_def extract_locked_def Let_def split: if_splits sum.splits)

text \<open>The manifest is trusted: one that carries the hash and lists nothing makes any directory valid.\<close>

lemma isValid_trusts_manifest:
  assumes "dec data = Some \<lparr>mf_Version = v, mf_Hash = hash, mf_Files = []\<rparr>"
  shows "isValid sha256 dec (Some \<lparr>cd_files = [manifestName \<mapsto> (data, 0x180), RunnerBinaryName \<mapsto> (tampered, 0x1ED)], cd_links = Map.empty\<rparr>) hash"
  using assms by (simp add: isValid_def manifestName_def RunnerBinaryName_def)

end
