(* ===== verification/Sshd.thy ===== *)
theory Sshd
  imports TimeSync
begin

text \<open>
  The SSH server of the guest, \<^verbatim>\<open>guest/sshd/server.go\<close> and \<^verbatim>\<open>session.go\<close>, and the reaper
  of the guest's init process, \<^verbatim>\<open>guest/reaper\<close>. The SSH protocol is that of
  \<^verbatim>\<open>golang.org/x/crypto/ssh\<close>: keys, channels and requests are values it delivers, with a payload
  of \<open>None\<close> where \<^verbatim>\<open>ssh.Unmarshal\<close> fails. The kernel and the processes are arguments
  or, for the interleaving of the reaper with the sessions, a step relation.
\<close>

section \<open>server.go\<close>

definition maxConcurrentConns :: nat where "maxConcurrentConns = 4"
definition maxChannelsPerConn :: nat where "maxChannelsPerConn = 10"
definition handshakeTimeout :: duration where "handshakeTimeout = 30 * second"

text \<open>A public key by its two methods.\<close>

record PublicKey =
  pk_Type :: string
  pk_Marshal :: bytes

record sshd_Config =
  sc_Port :: int
  sc_AuthorizedKeys :: "PublicKey list"
  sc_Env :: "string list"
  sc_DefaultUID :: u32
  sc_DefaultGID :: u32
  sc_DefaultUser :: string
  sc_DefaultHome :: string
  sc_DefaultShell :: string
  sc_DefaultWorkDir :: string
  sc_AgentForwarding :: bool
  sc_AllowTCPForwarding :: bool
  sc_HostKey :: "nat option"

definition PublicKeyCallback :: "sshd_Config \<Rightarrow> PublicKey \<Rightarrow> bool" where
  "PublicKeyCallback cfg key \<longleftrightarrow>
     list_ex (\<lambda>ak. pk_Type ak = pk_Type key \<and> pk_Marshal ak = pk_Marshal key) (sc_AuthorizedKeys cfg)"

text \<open>The server: its configuration and the number of its host key; \<open>gen\<close> generates one, if it can.\<close>

record Server =
  sv_cfg :: sshd_Config
  sv_MaxAuthTries :: nat
  sv_hostKey :: nat

definition NewServer :: "nat option \<Rightarrow> sshd_Config \<Rightarrow> unit + Server" where
  "NewServer gen cfg =
     (case sc_HostKey cfg of
        Some k \<Rightarrow> Inr \<lparr>sv_cfg = cfg, sv_MaxAuthTries = 1, sv_hostKey = k\<rparr>
      | None \<Rightarrow>
          (case gen of
             None \<Rightarrow> Inl ()
           | Some k \<Rightarrow> Inr \<lparr>sv_cfg = cfg, sv_MaxAuthTries = 1, sv_hostKey = k\<rparr>))"

text \<open>
  \<^verbatim>\<open>Serve\<close> with its connections, step by step: a connection is accepted, waits for a slot,
  is handled and ends; \<^verbatim>\<open>Close\<close> closes the listener after it has asked the loop to quit, and the
  loop returns at its next failing accept.
\<close>

record serve_state =
  ss_open :: bool
  ss_waiting :: bool
  ss_running :: nat
  ss_quit :: bool
  ss_returned :: bool

inductive serve_step :: "serve_state \<Rightarrow> serve_state \<Rightarrow> bool" where
  accept: "\<not> ss_returned s \<Longrightarrow> \<not> ss_waiting s \<Longrightarrow> ss_open s \<Longrightarrow> serve_step s (s\<lparr>ss_waiting := True\<rparr>)"
| start: "ss_waiting s \<Longrightarrow> ss_running s < maxConcurrentConns \<Longrightarrow>
    serve_step s (s\<lparr>ss_waiting := False, ss_running := ss_running s + 1\<rparr>)"
| finish: "ss_running s = Suc n \<Longrightarrow> serve_step s (s\<lparr>ss_running := n\<rparr>)"
| quit: "serve_step s (s\<lparr>ss_quit := True\<rparr>)"
| close_listener: "ss_quit s \<Longrightarrow> serve_step s (s\<lparr>ss_open := False\<rparr>)"
| accept_error: "\<not> ss_returned s \<Longrightarrow> \<not> ss_waiting s \<Longrightarrow> serve_step s (s\<lparr>ss_returned := ss_quit s\<rparr>)"

definition serve_start :: serve_state where
  "serve_start = \<lparr>ss_open = True, ss_waiting = False, ss_running = 0, ss_quit = False, ss_returned = False\<rparr>"

text \<open>
  The channels of a connection: what the client asks for, whether \<^verbatim>\<open>Accept\<close> and, for a forward,
  the dial succeed; and what is done.
\<close>

datatype new_channel = NewChannel (ch_type: string) (ch_ok: bool)

datatype channel_action = Session | Forward | ForwardFailed | AcceptFailed | RejectShortage | RejectType

definition handleDirectTCPIP :: "new_channel \<Rightarrow> channel_action" where
  "handleDirectTCPIP c = (if ch_ok c then Forward else ForwardFailed)"

fun handleChannels :: "sshd_Config \<Rightarrow> nat \<Rightarrow> new_channel list \<Rightarrow> channel_action list" where
  "handleChannels cfg channelCount [] = []"
| "handleChannels cfg channelCount (c # cs) =
     (if ch_type c = ''direct-tcpip'' \<and> sc_AllowTCPForwarding cfg then
        (if maxChannelsPerConn < channelCount + 1 then RejectShortage # handleChannels cfg (channelCount + 1) cs
         else handleDirectTCPIP c # handleChannels cfg (channelCount + 1) cs)
      else if ch_type c \<noteq> ''session'' then RejectType # handleChannels cfg channelCount cs
      else if maxChannelsPerConn < channelCount + 1 then RejectShortage # handleChannels cfg (channelCount + 1) cs
      else if \<not> ch_ok c then AcceptFailed # handleChannels cfg (channelCount + 1) cs
      else Session # handleChannels cfg (channelCount + 1) cs)"

text \<open>A connection: the handshake with the client's key, and then its channels.\<close>

definition handleConnection :: "sshd_Config \<Rightarrow> PublicKey \<Rightarrow> bool \<Rightarrow> new_channel list \<Rightarrow> channel_action list" where
  "handleConnection cfg key in_time chans =
     (if \<not> in_time \<or> \<not> PublicKeyCallback cfg key then [] else handleChannels cfg 0 chans)"

section \<open>session.go\<close>

record ptyRequest =
  pr_Term :: string
  pr_Width :: u32
  pr_Height :: u32

definition sshSignalToOS :: "string \<Rightarrow> nat option" where
  "sshSignalToOS = map_of [(''ABRT'', 6), (''ALRM'', 14), (''FPE'', 8), (''HUP'', 1), (''ILL'', 4), (''INT'', 2), (''KILL'', 9),
     (''PIPE'', 13), (''QUIT'', 3), (''SEGV'', 11), (''TERM'', 15), (''USR1'', 10), (''USR2'', 12)]"

definition allowedEnvVars :: "string list" where
  "allowedEnvVars = [''TERM'', ''LANG'', ''LC_ALL'', ''LC_CTYPE'', ''COLORTERM'', ''EDITOR'', ''VISUAL'']"

record sessionState =
  se_ptyReq :: "ptyRequest option"
  se_env :: "string \<rightharpoonup> string"

datatype session_request =
  PtyReq "ptyRequest option"
| EnvReq "(string \<times> string) option"
| AgentReq
| ExecReq "string option"
| ShellReq
| WindowChange
| OtherReq string

text \<open>How a session ends: without a command, with the clock set, or in a command (none is a login shell).\<close>

datatype session_end = NoCommand | ClockCommand nat | RunCommand string

text \<open>The replies, the state, whether agent forwarding is on for the connection, the end, and the clock.\<close>

fun handleSession ::
  "sshd_Config \<Rightarrow> (int \<Rightarrow> bool) \<Rightarrow> session_request list \<Rightarrow> sessionState \<Rightarrow> bool \<Rightarrow> int \<Rightarrow>
   bool list \<times> sessionState \<times> bool \<times> session_end \<times> int" where
  "handleSession cfg settime [] st agent clock = ([], st, agent, NoCommand, clock)"
| "handleSession cfg settime (r # rs) st agent clock =
     (let next = (\<lambda>reply st agent. apfst ((#) reply) (handleSession cfg settime rs st agent clock))
      in case r of
           PtyReq None \<Rightarrow> next False st agent
         | PtyReq (Some pr) \<Rightarrow> next True (st\<lparr>se_ptyReq := Some pr, se_env := (se_env st)(''TERM'' \<mapsto> pr_Term pr)\<rparr>) agent
         | EnvReq None \<Rightarrow> next False st agent
         | EnvReq (Some (name, value)) \<Rightarrow>
             if name \<in> set allowedEnvVars then next True (st\<lparr>se_env := (se_env st)(name \<mapsto> value)\<rparr>) agent
             else next False st agent
         | AgentReq \<Rightarrow> if sc_AgentForwarding cfg then next True st True else next False st agent
         | ExecReq None \<Rightarrow> next False st agent
         | ExecReq (Some command) \<Rightarrow>
             (case handleSettime settime command clock of
                (Some status, clock') \<Rightarrow> ([True], st, agent, ClockCommand status, clock')
              | (None, _) \<Rightarrow> ([True], st, agent, RunCommand command, clock))
         | ShellReq \<Rightarrow> ([True], st, agent, RunCommand [], clock)
         | WindowChange \<Rightarrow> next False st agent
         | OtherReq _ \<Rightarrow> next False st agent)"

definition new_session :: sessionState where
  "new_session = \<lparr>se_ptyReq = None, se_env = Map.empty\<rparr>"

definition defaultPATH :: string where
  "defaultPATH = ''PATH=/usr/local/sbin:/usr/local/bin:/usr/sbin:/usr/bin:/sbin:/bin''"

text \<open>\<open>overrides\<close> are the entries of the session's map, in the order in which Go happens to iterate.\<close>

definition buildEnv :: "sshd_Config \<Rightarrow> (string \<times> string) list \<Rightarrow> string list" where
  "buildEnv cfg overrides =
     (let env = sc_Env cfg @ [''USER='' @ sc_DefaultUser cfg, ''HOME='' @ sc_DefaultHome cfg, ''SHELL='' @ sc_DefaultShell cfg] @
            map (\<lambda>(k, v). k @ ''='' @ v) overrides
      in if list_ex (\<lambda>e. HasPrefix e ''PATH='') env then env else env @ [defaultPATH])"

text \<open>What is started: \<^verbatim>\<open>exec.Cmd\<close> with its attributes, \<open>cm_Credential\<close> none if left alone.\<close>

record cmd =
  cm_args :: "string list"
  cm_env :: "string list"
  cm_dir :: string
  cm_credential :: "(u32 \<times> u32) option"

definition work_dir :: "sshd_Config \<Rightarrow> (string \<Rightarrow> bool) \<Rightarrow> string" where
  "work_dir cfg exists =
     (let workDir = (if sc_DefaultWorkDir cfg = [] then sc_DefaultHome cfg else sc_DefaultWorkDir cfg)
      in if workDir \<noteq> [] \<and> \<not> exists workDir then sc_DefaultHome cfg else workDir)"

definition session_cmd ::
  "sshd_Config \<Rightarrow> u32 \<times> u32 \<Rightarrow> (string \<Rightarrow> bool) \<Rightarrow> (string \<times> string) list \<Rightarrow> string option \<Rightarrow> string \<Rightarrow> cmd" where
  "session_cmd cfg self exists overrides sock command =
     \<lparr>cm_args = (if command = [] then [sc_DefaultShell cfg, ''-l''] else [sc_DefaultShell cfg, ''-c'', command]),
      cm_env = buildEnv cfg overrides @ (case sock of None \<Rightarrow> [] | Some p \<Rightarrow> [''SSH_AUTH_SOCK='' @ p]),
      cm_dir = work_dir cfg exists,
      cm_credential =
        (if sc_DefaultUID cfg \<noteq> fst self \<or> sc_DefaultGID cfg \<noteq> snd self then Some (sc_DefaultUID cfg, sc_DefaultGID cfg) else None)\<rparr>"

text \<open>What \<^verbatim>\<open>exec.Cmd.Wait\<close> returns: an exit status, a signal, or another error.\<close>

datatype wait_result = Exited int | Signaled nat | WaitError

definition exitCode :: "wait_result \<Rightarrow> int" where
  "exitCode r = (case r of Exited n \<Rightarrow> n | Signaled sig \<Rightarrow> 128 + int sig | WaitError \<Rightarrow> 1)"

definition exit_status_payload :: "int \<Rightarrow> u32" where
  "exit_status_payload code = word_of_int code"

text \<open>\<open>wait\<close> is none if the command does not start.\<close>

definition runCommand :: "wait_result option \<Rightarrow> int" where
  "runCommand wait = (case wait of None \<Rightarrow> 1 | Some r \<Rightarrow> exitCode r)"

text \<open>Requests while the command runs: the signals that are sent and the window sizes that are set.\<close>

definition setWinsize :: "u32 \<Rightarrow> u32 \<Rightarrow> u16 \<times> u16" where
  "setWinsize width height = (ucast height, ucast width)"

datatype running_request = SignalReq "string option" | WindowReq "(u32 \<times> u32) option" | RunningOther

datatype running_effect = SendSignal nat | SetWindow "u16 \<times> u16" | ReplyFalse

definition signalProcess :: "string option \<Rightarrow> running_effect list" where
  "signalProcess sr =
     (case sr of
        None \<Rightarrow> []
      | Some s \<Rightarrow> (case sshSignalToOS s of None \<Rightarrow> [] | Some sig \<Rightarrow> [SendSignal sig]))"

definition running_with_pty :: "running_request \<Rightarrow> running_effect list" where
  "running_with_pty r =
     (case r of
        SignalReq sr \<Rightarrow> signalProcess sr
      | WindowReq None \<Rightarrow> []
      | WindowReq (Some (w, h)) \<Rightarrow> [SetWindow (setWinsize w h)]
      | RunningOther \<Rightarrow> [ReplyFalse])"

definition running_without_pty :: "running_request \<Rightarrow> running_effect list" where
  "running_without_pty r = (case r of SignalReq sr \<Rightarrow> signalProcess sr | _ \<Rightarrow> [ReplyFalse])"

text \<open>
  The agent socket: the paths that exist, with permissions and owner. \<open>ok\<close> says which of the five
  calls after the first succeed, in order.
\<close>

type_synonym sock_fs = "string \<rightharpoonup> u32 \<times> (u32 \<times> u32)"

datatype agent_error = AgentDir | ChmodDir | ChownDir | ListenAgent | ChmodSock | ChownSock

definition remove_dir :: "string \<Rightarrow> sock_fs \<Rightarrow> sock_fs" where
  "remove_dir d fs = (\<lambda>p. if HasPrefix p (d @ ''/'') \<or> p = d then None else fs p)"

definition setupAgentSocket ::
  "string option \<Rightarrow> (nat \<Rightarrow> bool) \<Rightarrow> u32 \<times> u32 \<Rightarrow> u32 \<times> u32 \<Rightarrow> sock_fs \<Rightarrow> (agent_error + string) \<times> sock_fs" where
  "setupAgentSocket tmp ok self user fs =
     (case tmp of
        None \<Rightarrow> (Inl AgentDir, fs)
      | Some d \<Rightarrow>
          let fs = fs(d \<mapsto> (0x1C0, self)) in
          if \<not> ok 1 then (Inl ChmodDir, remove_dir d fs)
          else let fs = fs(d \<mapsto> (0x1C0, self)) in
          if \<not> ok 2 then (Inl ChownDir, remove_dir d fs)
          else let fs = fs(d \<mapsto> (0x1C0, user)); p = d @ ''/agent.sock'' in
          if \<not> ok 3 then (Inl ListenAgent, remove_dir d fs)
          else let fs = fs(p \<mapsto> (0x1ED, self)) in
          if \<not> ok 4 then (Inl ChmodSock, remove_dir d fs)
          else let fs = fs(p \<mapsto> (0x180, self)) in
          if \<not> ok 5 then (Inl ChownSock, remove_dir d fs)
          else (Inr p, fs(p \<mapsto> (0x180, user))))"

definition agent_cleanup :: "string \<Rightarrow> sock_fs \<Rightarrow> sock_fs" where
  "agent_cleanup = remove_dir"

section \<open>reaper.go\<close>

text \<open>
  The children of the init process, as the kernel keeps them, and the two that wait for them: a
  session waits for its own child with \<^verbatim>\<open>cmd.Wait\<close>, the reaper for any child whenever a
  \<^verbatim>\<open>SIGCHLD\<close> is pending. A session whose child is gone gets \<^verbatim>\<open>ECHILD\<close>.
\<close>

datatype child = Alive | Zombie wait_result

record init_state =
  is_children :: "nat \<rightharpoonup> child"
  is_signal :: bool
  is_sessions :: "nat set"
  is_status :: "nat \<rightharpoonup> wait_result"
  is_truth :: "nat \<rightharpoonup> wait_result"

definition start_child :: "nat \<Rightarrow> bool \<Rightarrow> init_state \<Rightarrow> init_state" where
  "start_child pid session s =
     s\<lparr>is_children := (is_children s)(pid \<mapsto> Alive), is_sessions := (if session then insert pid (is_sessions s) else is_sessions s)\<rparr>"

definition exit_child :: "nat \<Rightarrow> wait_result \<Rightarrow> init_state \<Rightarrow> init_state" where
  "exit_child pid r s =
     s\<lparr>is_children := (is_children s)(pid \<mapsto> Zombie r), is_signal := True, is_truth := (is_truth s)(pid \<mapsto> r)\<rparr>"

text \<open>One round of the reaper's loop: a child that has exited is waited for, or there is none and the loop ends.\<close>

definition reap_one :: "nat \<Rightarrow> init_state \<Rightarrow> init_state" where
  "reap_one pid s = s\<lparr>is_children := (is_children s)(pid := None)\<rparr>"

definition reap_end :: "init_state \<Rightarrow> init_state" where
  "reap_end s = s\<lparr>is_signal := False\<rparr>"

definition session_wait :: "nat \<Rightarrow> init_state \<Rightarrow> init_state" where
  "session_wait pid s =
     (case is_children s pid of
        Some Alive \<Rightarrow> s
      | Some (Zombie r) \<Rightarrow> s\<lparr>is_children := (is_children s)(pid := None), is_status := (is_status s)(pid \<mapsto> r)\<rparr>
      | None \<Rightarrow> s\<lparr>is_status := (is_status s)(pid \<mapsto> WaitError)\<rparr>)"

inductive init_step :: "bool \<Rightarrow> init_state \<Rightarrow> init_state \<Rightarrow> bool" for reaper :: bool where
  fork: "is_children s pid = None \<Longrightarrow> is_truth s pid = None \<Longrightarrow> pid \<notin> is_sessions s \<Longrightarrow> init_step reaper s (start_child pid session s)"
| exit: "is_children s pid = Some Alive \<Longrightarrow> r \<noteq> WaitError \<Longrightarrow> init_step reaper s (exit_child pid r s)"
| reaped: "reaper \<Longrightarrow> is_signal s \<Longrightarrow> is_children s pid = Some (Zombie r) \<Longrightarrow> init_step reaper s (reap_one pid s)"
| idle: "reaper \<Longrightarrow> is_signal s \<Longrightarrow> \<forall>pid r. is_children s pid \<noteq> Some (Zombie r) \<Longrightarrow> init_step reaper s (reap_end s)"
| waited: "pid \<in> is_sessions s \<Longrightarrow> is_status s pid = None \<Longrightarrow> is_children s pid \<noteq> Some Alive \<Longrightarrow>
    init_step reaper s (session_wait pid s)"

definition init_start :: init_state where
  "init_start = \<lparr>is_children = Map.empty, is_signal = False, is_sessions = {}, is_status = Map.empty, is_truth = Map.empty\<rparr>"

section \<open>Properties\<close>

inductive_cases serve_stepE: "serve_step s t"

subsection \<open>Connections and channels\<close>

text \<open>At most four connections are handled at a time, and none is accepted after the loop has returned.\<close>

lemma serve_bounded: "serve_step\<^sup>*\<^sup>* serve_start s \<Longrightarrow> ss_running s \<le> maxConcurrentConns"
proof (induction rule: rtranclp_induct)
  case base
  then show ?case by (simp add: serve_start_def)
next
  case (step s t)
  from step(2) show ?case by (cases rule: serve_stepE) (use step(3) in auto)
qed

lemma serve_returns: "ss_quit s \<Longrightarrow> \<not> ss_waiting s \<Longrightarrow> \<not> ss_returned s \<Longrightarrow> \<exists>t. serve_step s t \<and> ss_returned t"
  using serve_step.accept_error [of s] by (intro exI [of _ "s\<lparr>ss_returned := True\<rparr>"]) simp

definition started :: "channel_action \<Rightarrow> bool" where
  "started a \<longleftrightarrow> a = Session \<or> a = Forward"

lemma handleChannels_bounded:
  "n \<le> maxChannelsPerConn \<Longrightarrow> length (filter started (handleChannels cfg n cs)) + n \<le> maxChannelsPerConn"
  "maxChannelsPerConn < n \<Longrightarrow> filter started (handleChannels cfg n cs) = []"
proof (induction cs arbitrary: n)
  case (Cons c cs)
  {
    case 1
    then show ?case using Cons [of n] Cons [of "n + 1"] by (cases "n + 1 \<le> maxChannelsPerConn") (auto simp: started_def handleDirectTCPIP_def)
  next
    case 2
    then show ?case using Cons [of n] Cons [of "n + 1"] by (auto simp: started_def handleDirectTCPIP_def)
  }
qed auto

lemma handleChannels_forward: "Forward \<in> set (handleChannels cfg n cs) \<Longrightarrow> sc_AllowTCPForwarding cfg"
  by (induction cs arbitrary: n) (auto simp: handleDirectTCPIP_def split: if_splits)

lemma PublicKeyCallback_iff: "PublicKeyCallback cfg key \<longleftrightarrow> key \<in> set (sc_AuthorizedKeys cfg)"
proof -
  have "pk_Type ak = pk_Type key \<and> pk_Marshal ak = pk_Marshal key \<longleftrightarrow> ak = key" for ak :: PublicKey
    by (cases ak, cases key) auto
  then show ?thesis by (auto simp: PublicKeyCallback_def list_ex_iff)
qed

subsection \<open>The environment of a session\<close>

text \<open>The value a process finds: \<^verbatim>\<open>os/exec\<close> keeps the last of several entries for a name.\<close>

definition getenv :: "string list \<Rightarrow> string \<Rightarrow> string option" where
  "getenv env k =
     (let es = filter (\<lambda>e. HasPrefix e (k @ ''='')) env in if es = [] then None else Some (drop (length k + 1) (last es)))"

lemma entry_prefix:
  assumes "CHR ''='' \<notin> set k" "CHR ''='' \<notin> set k'"
  shows "HasPrefix (k' @ ''='' @ v) (k @ ''='') \<longleftrightarrow> k = k'"
proof
  assume "HasPrefix (k' @ ''='' @ v) (k @ ''='')"
  then obtain w where "k' @ CHR ''='' # v = k @ CHR ''='' # w"
    by (metis HasPrefix_def append.assoc append_Cons append_Nil append_take_drop_id)
  then show "k = k'" using assms by (auto simp: append_eq_append_conv2 append_eq_Cons_conv Cons_eq_append_conv)
qed (simp add: HasPrefix_def)

lemma getenv_Nil [simp]: "getenv [] k = None"
  by (simp add: getenv_def)

lemma getenv_append: "getenv (xs @ ys) k = (case getenv ys k of None \<Rightarrow> getenv xs k | Some v \<Rightarrow> Some v)"
  by (simp add: getenv_def Let_def)

lemma getenv_single:
  assumes "CHR ''='' \<notin> set k" "CHR ''='' \<notin> set k'"
  shows "getenv [k' @ ''='' @ v] k = (if k = k' then Some v else None)"
  using entry_prefix [OF assms, of v] by (simp add: getenv_def)

lemma getenv_overrides:
  assumes "CHR ''='' \<notin> set k" "\<forall>(k', v) \<in> set ovr. CHR ''='' \<notin> set k' \<and> k' \<noteq> k"
  shows "getenv (map (\<lambda>(k, v). k @ ''='' @ v) ovr) k = None"
  using assms(2)
proof (induction ovr rule: rev_induct)
  case (snoc kv ovr)
  then show ?case using getenv_single [OF assms(1), of "fst kv" "snd kv"] by (auto simp: getenv_append split: prod.splits)
qed simp

lemma has_PATH: "list_ex (\<lambda>e. HasPrefix e ''PATH='') env \<longleftrightarrow> getenv env ''PATH'' \<noteq> None"
  by (auto simp: getenv_def list_ex_iff filter_empty_conv Let_def)

text \<open>The variables a client may set, by requests or with a terminal.\<close>

lemma handleSession_env:
  "dom (se_env st) \<subseteq> set allowedEnvVars \<Longrightarrow>
   dom (se_env (fst (snd (handleSession cfg settime rs st agent clock)))) \<subseteq> set allowedEnvVars"
proof (induction rs arbitrary: st agent)
  case (Cons r rs)
  have T: "''TERM'' \<in> set allowedEnvVars" by (simp add: allowedEnvVars_def)
  show ?case
  proof (cases r)
    case (PtyReq p)
    then show ?thesis using Cons.prems T by (cases p) (auto intro!: Cons.IH simp: Let_def dest: subsetD [OF _ domI] split: if_split_asm)
  next
    case (EnvReq p)
    have "dom (se_env (st\<lparr>se_env := (se_env st)(n \<mapsto> v)\<rparr>)) \<subseteq> set allowedEnvVars" if "n \<in> set allowedEnvVars" for n v
      using Cons.prems that by simp
    then show ?thesis using EnvReq Cons.prems Cons.IH by (cases p) (simp_all add: Let_def split: prod.split)
  next
    case (ExecReq c)
    then show ?thesis using Cons.prems by (cases c) (auto intro!: Cons.IH simp: Let_def split: prod.split option.split)
  qed (use Cons.prems in \<open>auto intro!: Cons.IH simp: Let_def\<close>)
qed simp

lemma allowed_plain: "k \<in> set allowedEnvVars \<Longrightarrow> CHR ''='' \<notin> set k \<and> k \<notin> {''USER'', ''HOME'', ''SHELL'', ''PATH'', ''LD_PRELOAD''}"
  by (auto simp: allowedEnvVars_def)

definition fixed_env :: "sshd_Config \<Rightarrow> string \<Rightarrow> string option" where
  "fixed_env cfg k =
     (if k = ''USER'' then Some (sc_DefaultUser cfg) else if k = ''HOME'' then Some (sc_DefaultHome cfg)
      else if k = ''SHELL'' then Some (sc_DefaultShell cfg)
      else case getenv (sc_Env cfg) k of
        Some v \<Rightarrow> Some v
      | None \<Rightarrow> if k = ''PATH'' then Some (drop 5 defaultPATH) else None)"

lemma buildEnv_fixed:
  assumes "\<forall>(k', v) \<in> set ovr. k' \<in> set allowedEnvVars" "k \<notin> set allowedEnvVars" "CHR ''='' \<notin> set k"
  shows "getenv (buildEnv cfg ovr) k = fixed_env cfg k"
proof -
  let ?ids = "[''USER='' @ sc_DefaultUser cfg, ''HOME='' @ sc_DefaultHome cfg, ''SHELL='' @ sc_DefaultShell cfg]"
  let ?ov = "map (\<lambda>(k, v). k @ ''='' @ v) ovr"
  have ov: "getenv ?ov k = None" if "k \<notin> set allowedEnvVars" "CHR ''='' \<notin> set k" for k
  proof (rule getenv_overrides [OF that(2)])
    show "\<forall>(k', v) \<in> set ovr. CHR ''='' \<notin> set k' \<and> k' \<noteq> k" using assms(1) that(1) allowed_plain by blast
  qed
  have ids: "getenv ?ids k = (if k = ''USER'' then Some (sc_DefaultUser cfg) else if k = ''HOME'' then Some (sc_DefaultHome cfg)
      else if k = ''SHELL'' then Some (sc_DefaultShell cfg) else None)" if "CHR ''='' \<notin> set k" for k
  proof -
    have u: "getenv [''USER='' @ v] k = (if k = ''USER'' then Some v else None)"
      and h: "getenv [''HOME='' @ v] k = (if k = ''HOME'' then Some v else None)"
      and sh: "getenv [''SHELL='' @ v] k = (if k = ''SHELL'' then Some v else None)" for v
      using getenv_single [OF that, of "''USER''" v] getenv_single [OF that, of "''HOME''" v] getenv_single [OF that, of "''SHELL''" v]
      by simp_all
    have "?ids = [''USER='' @ sc_DefaultUser cfg] @ [''HOME='' @ sc_DefaultHome cfg] @ [''SHELL='' @ sc_DefaultShell cfg]"
      by simp
    then show ?thesis by (simp only: getenv_append u h sh split: option.split) auto
  qed
  have P: "''PATH'' \<notin> set allowedEnvVars" "CHR ''='' \<notin> set ''PATH''" by (auto simp: allowedEnvVars_def)
  have path: "list_ex (\<lambda>e. HasPrefix e ''PATH='') (sc_Env cfg @ ?ids @ ?ov) \<longleftrightarrow> getenv (sc_Env cfg) ''PATH'' \<noteq> None"
    unfolding has_PATH getenv_append ov [OF P] ids [OF P(2)] by simp
  have d: "getenv [defaultPATH] k = (if k = ''PATH'' then Some (drop 5 defaultPATH) else None)"
    using getenv_single [OF assms(3), of "''PATH''" "drop 5 defaultPATH"] by (simp add: defaultPATH_def)
  show ?thesis
    unfolding buildEnv_def Let_def path if_distrib [of "\<lambda>e. getenv e k"] getenv_append ov [OF assms(2,3)] ids [OF assms(3)] d fixed_env_def
    by (auto split: option.split)
qed

text \<open>
  The server does for a client no more than it is configured to do. A key that is not among the
  authorized ones gets nothing; a connection never starts more than ten sessions and
  forwards; and there are no forwards unless they are allowed.
\<close>

theorem connection_policy:
  shows "(key \<notin> set (sc_AuthorizedKeys cfg) \<longrightarrow> handleConnection cfg key in_time chans = []) \<and>
    length (filter started (handleConnection cfg key in_time chans)) \<le> maxChannelsPerConn \<and>
    (\<not> sc_AllowTCPForwarding cfg \<longrightarrow> Forward \<notin> set (handleConnection cfg key in_time chans))"
  using handleChannels_bounded(1) [of 0 cfg chans] handleChannels_forward [of cfg 0 chans]
  by (auto simp: handleConnection_def PublicKeyCallback_iff)

definition demo_key :: PublicKey where
  "demo_key = \<lparr>pk_Type = ''ecdsa'', pk_Marshal = [1, 2]\<rparr>"

definition demo_sshd :: sshd_Config where
  "demo_sshd = \<lparr>sc_Port = 22, sc_AuthorizedKeys = [demo_key], sc_Env = [''USER=root'', ''A=1''], sc_DefaultUID = 1000, sc_DefaultGID = 1000,
     sc_DefaultUser = ''sandbox'', sc_DefaultHome = ''/home/sandbox'', sc_DefaultShell = ''/bin/bash'', sc_DefaultWorkDir = ''/workspace'',
     sc_AgentForwarding = False, sc_AllowTCPForwarding = False, sc_HostKey = None\<rparr>"

theorem connection_policy_witness:
  "handleConnection demo_sshd \<lparr>pk_Type = ''ecdsa'', pk_Marshal = [3]\<rparr> True [NewChannel ''session'' True] = [] \<and>
   length (filter started (handleConnection demo_sshd demo_key True (replicate 12 (NewChannel ''session'' True)))) \<le> maxChannelsPerConn \<and>
   Forward \<notin> set (handleConnection demo_sshd demo_key True [NewChannel ''direct-tcpip'' True])"
  using connection_policy [of "\<lparr>pk_Type = ''ecdsa'', pk_Marshal = [3]\<rparr>" demo_sshd True "[NewChannel ''session'' True]"]
    connection_policy [of demo_key demo_sshd True "replicate 12 (NewChannel ''session'' True)"]
    connection_policy [of demo_key demo_sshd True "[NewChannel ''direct-tcpip'' True]"]
  by (simp add: demo_sshd_def demo_key_def)



subsection \<open>Exit statuses\<close>

lemma init_invariant:
  assumes "(init_step reaper)\<^sup>*\<^sup>* init_start s"
  shows "(\<forall>pid r. is_children s pid = Some (Zombie r) \<longrightarrow> is_truth s pid = Some r) \<and>
    (\<forall>pid. is_children s pid = Some Alive \<longrightarrow> is_truth s pid = None \<and> is_status s pid = None) \<and>
    (\<forall>pid. is_children s pid = None \<and> pid \<in> is_sessions s \<and> is_status s pid = None \<longrightarrow> reaper) \<and>
    (\<forall>pid. is_children s pid \<noteq> None \<longrightarrow> is_status s pid = None) \<and>
    (\<forall>pid r. is_status s pid = Some r \<longrightarrow> pid \<in> is_sessions s \<and> (is_truth s pid = Some r \<or> reaper \<and> r = WaitError))"
  using assms
proof (induction rule: rtranclp_induct)
  case base
  then show ?case by (simp add: init_start_def)
next
  case (step s t)
  from step(2) show ?case
  proof (cases rule: init_step.cases)
    case (fork pid session)
    have "is_status s pid = None" using fork step(3) by (metis not_None_eq)
    then show ?thesis using fork step(3) by (auto simp: start_child_def)
  next
    case (exit pid r)
    then show ?thesis using step(3) by (auto simp: exit_child_def)
  next
    case (reaped pid r)
    then show ?thesis using step(3) by (auto simp: reap_one_def)
  next
    case idle
    then show ?thesis using step(3) by (auto simp: reap_end_def)
  next
    case (waited pid)
    then show ?thesis using step(3) by (auto simp: session_wait_def split: option.splits child.splits)
  qed
qed

text \<open>
  C40. The reaper takes exit statuses away from the sessions. It waits for every child, so that a
  command that succeeds may be reported to the client with status 1, because its session finds no
  child left to wait for.
\<close>

theorem reaper_steals_status:
  "\<exists>s pid. (init_step True)\<^sup>*\<^sup>* init_start s \<and> is_truth s pid = Some (Exited 0) \<and>
     is_status s pid = Some WaitError \<and> runCommand (is_status s pid) = 1"
proof -
  let ?s1 = "start_child 7 True init_start"
  let ?s2 = "exit_child 7 (Exited 0) ?s1"
  let ?s3 = "reap_one 7 ?s2"
  let ?s4 = "session_wait 7 ?s3"
  have "init_step True init_start ?s1" by (rule init_step.fork) (simp_all add: init_start_def)
  moreover have "init_step True ?s1 ?s2" by (rule init_step.exit) (simp_all add: start_child_def)
  moreover have "init_step True ?s2 ?s3" by (rule init_step.reaped [of _ _ _ "Exited 0"]) (simp_all add: exit_child_def)
  moreover have "init_step True ?s3 ?s4"
    by (rule init_step.waited) (simp_all add: reap_one_def exit_child_def start_child_def init_start_def)
  ultimately have "(init_step True)\<^sup>*\<^sup>* init_start ?s4" by (meson converse_rtranclp_into_rtranclp rtranclp.rtrancl_refl)
  moreover have "is_truth ?s4 7 = Some (Exited 0)" "is_status ?s4 7 = Some WaitError"
    by (simp_all add: session_wait_def reap_one_def exit_child_def start_child_def)
  ultimately show ?thesis by (intro exI [of _ ?s4] exI [of _ 7]) (simp add: runCommand_def exitCode_def)
qed

text \<open>Without the reaper, every status is the true one; with it, any other status than an error is.\<close>

lemma status_true:
  assumes "(init_step reaper)\<^sup>*\<^sup>* init_start s" "is_status s pid = Some r" "\<not> reaper \<or> r \<noteq> WaitError"
  shows "is_truth s pid = Some r"
  using init_invariant [OF assms(1)] assms(2,3) by blast

text \<open>
  Statuses that the kernel gives, 0 to 255 and signals below 128, arrive at the client as they are;
  a signal is told apart from an exit only by convention.
\<close>

lemma exit_status_faithful:
  "0 \<le> n \<Longrightarrow> n < 256 \<Longrightarrow> uint (exit_status_payload (exitCode (Exited n))) = n"
  "sig < 128 \<Longrightarrow> uint (exit_status_payload (exitCode (Signaled sig))) = 128 + int sig"
  unfolding exit_status_payload_def exitCode_def by (simp_all add: uint_word_of_int_eq take_bit_int_eq_self_iff del: of_int_add)

subsection \<open>The agent socket\<close>

text \<open>A socket that cannot be set up leaves nothing; one that is set up belongs to the user alone, and goes with its directory.\<close>

lemma setupAgentSocket_clean:
  assumes "setupAgentSocket tmp ok self user fs = (r, fs')" "\<forall>d p. tmp = Some d \<and> HasPrefix p d \<longrightarrow> fs p = None"
  shows "case r of
      Inl _ \<Rightarrow> fs' = fs
    | Inr p \<Rightarrow> \<exists>d. tmp = Some d \<and> p = d @ ''/agent.sock'' \<and> fs' d = Some (0x1C0, user) \<and> fs' p = Some (0x180, user) \<and> agent_cleanup d fs' = fs"
proof -
  have pre: "HasPrefix (d @ x) d" for d x :: string by (simp add: HasPrefix_def)
  have self: "fs d = None" if "tmp = Some d" for d using assms(2) that pre [of d "[]"] by auto
  have sub: "fs p = None" if "tmp = Some d" "HasPrefix p (d @ ''/'')" for d p
    using assms(2) that by (metis HasPrefix_def append_take_drop_id append.assoc pre)
  have clean: "remove_dir d g = fs" if "tmp = Some d" "\<forall>p. \<not> HasPrefix p (d @ ''/'') \<and> p \<noteq> d \<longrightarrow> g p = fs p" for d g
    using that self [OF that(1)] sub [OF that(1)] by (auto simp: remove_dir_def fun_eq_iff)
  show ?thesis
    using assms(1) pre
    by (auto simp: setupAgentSocket_def Let_def agent_cleanup_def HasPrefix_def split: option.splits if_splits intro!: clean)
qed

end
