(* ===== verification/Guest.thy ===== *)
theory Guest
  imports Sshd Hooks Provider
begin

text \<open>
  The boot of a guest: mounts (\<^verbatim>\<open>guest/mount\<close>), network (\<^verbatim>\<open>guest/netcfg\<close>), hardening
  (\<^verbatim>\<open>guest/harden\<close>), the home directory and the sequence itself (\<^verbatim>\<open>guest/boot\<close>), and
  the reader of the machine's configuration (\<^verbatim>\<open>guest/vmconfig\<close>). The kernel, netlink and the
  seccomp library are a record of outcomes; each change they make is an effect, and an operation
  returns its effects in order.
\<close>

section \<open>Effects\<close>

record mountEntry =
  me_source :: string
  me_target :: string
  me_fstype :: string
  me_flags :: u64
  me_data :: string

datatype secbpf_action = ActionAllow | ActionKillProcess | ActionErrno

datatype secbpf_operation = Equal | BitsSet

record ArgumentCondition =
  ac_Argument :: nat
  ac_Operation :: secbpf_operation
  ac_Value :: u64

record SyscallGroup =
  sg_Action :: secbpf_action
  sg_Names :: "string list"
  sg_NamesWithConditions :: "(string \<times> ArgumentCondition list) list"

datatype filter_flag = FilterFlagTSync | FilterFlagLog

record secbpf_Filter =
  sf_NoNewPrivs :: bool
  sf_Flag :: "filter_flag list"
  sf_DefaultAction :: secbpf_action
  sf_Syscalls :: "SyscallGroup list"

datatype guest_effect =
  MadeDir string
| Mounted mountEntry
| Unmounted string
| Removed string
| Linked string string
| Chowned string int int
| Chmoded string u32
| Addressed string
| LinkUp
| DefaultRoute string
| Wrote string string
| Slept duration
| HomeFixed string u32 u32
| CapDropped u64
| NoNewPrivs
| Listening sshd_Config
| Filtered secbpf_Filter

definition emit :: "guest_effect list \<Rightarrow> 'a \<times> guest_effect list \<Rightarrow> 'a \<times> guest_effect list" where
  "emit es r = (fst r, es @ snd r)"

datatype call_result = CallDone | CallExists | CallFailed

datatype boot_error =
  CreateMountPoint string | MountFailed string | PtmxLink | DevLink string | WorkspacePoint | WorkspaceChown | WorkspaceMount
| FindLink | ParseAddr | SetAddr | SetLinkUp | SetRoute | WriteResolv
| LoadEnv | DropCap u64 | SetNoNewPrivsFailed | OpenKeys | ReadKeys | NoKeys | CreateServer | ListenPort | SSHNotBuilt | LoadFilter

record guest_env =
  ge_mkdir :: "string \<Rightarrow> bool"
  ge_mount :: "mountEntry \<Rightarrow> call_result"
  ge_remove :: "string \<Rightarrow> bool"
  ge_symlink :: "string \<Rightarrow> call_result"
  ge_virtiofs :: "nat \<Rightarrow> bool"
  ge_chown :: "string \<Rightarrow> bool"
  ge_unmount :: "string \<Rightarrow> bool"
  ge_link :: bool
  ge_addr :: bool
  ge_setaddr :: bool
  ge_linkup :: bool
  ge_route :: bool
  ge_write :: "string \<Rightarrow> bool"
  ge_chmod :: "string \<Rightarrow> bool"
  ge_read :: "string \<Rightarrow> string option"
  ge_capdrop :: "u64 \<Rightarrow> bool"
  ge_nnp :: bool
  ge_parsekey :: "string \<Rightarrow> PublicKey option"
  ge_hostkey :: "string \<Rightarrow> nat option"
  ge_genkey :: "nat option"
  ge_listen :: "int \<Rightarrow> bool"
  ge_loadfilter :: "secbpf_Filter \<Rightarrow> bool"
  ge_sshd_built :: bool

section \<open>mount.go\<close>

definition MS_RDONLY :: u64 where "MS_RDONLY = 1"
definition MS_NOSUID :: u64 where "MS_NOSUID = 2"
definition MS_NODEV :: u64 where "MS_NODEV = 4"
definition MS_NOEXEC :: u64 where "MS_NOEXEC = 8"

definition defaultTmpSizeMiB :: u32 where "defaultTmpSizeMiB = 256"

definition mount_entry :: "string \<Rightarrow> string \<Rightarrow> u64 \<Rightarrow> string \<Rightarrow> mountEntry" where
  "mount_entry fstype target flags data =
     \<lparr>me_source = fstype, me_target = target, me_fstype = fstype, me_flags = flags, me_data = data\<rparr>"

definition essentialMounts :: "u32 \<Rightarrow> mountEntry list" where
  "essentialMounts tmpSizeMiB =
     (let tmp = (if tmpSizeMiB = 0 then defaultTmpSizeMiB else tmpSizeMiB)
      in [mount_entry ''proc'' ''/proc'' (MS_NOSUID OR MS_NODEV OR MS_NOEXEC) [],
          mount_entry ''sysfs'' ''/sys'' (MS_NOSUID OR MS_NODEV OR MS_NOEXEC) [],
          mount_entry ''devtmpfs'' ''/dev'' (MS_NOSUID OR MS_NOEXEC) [],
          mount_entry ''devpts'' ''/dev/pts'' (MS_NOSUID OR MS_NOEXEC) ''newinstance,ptmxmode=0666,mode=0620,gid=5'',
          mount_entry ''tmpfs'' ''/tmp'' (MS_NOSUID OR MS_NODEV) (''size='' @ decimal (unat tmp) @ ''m''),
          mount_entry ''tmpfs'' ''/run'' (MS_NOSUID OR MS_NODEV OR MS_NOEXEC) ''size=64m''])"

text \<open>A mount that is busy is there already.\<close>

fun essential_mounts :: "guest_env \<Rightarrow> mountEntry list \<Rightarrow> boot_error option \<times> guest_effect list" where
  "essential_mounts v [] = (None, [])"
| "essential_mounts v (m # ms) =
     (if \<not> ge_mkdir v (me_target m) then (Some (CreateMountPoint (me_target m)), [])
      else emit [MadeDir (me_target m)]
        (case ge_mount v m of
           CallDone \<Rightarrow> emit [Mounted m] (essential_mounts v ms)
         | CallExists \<Rightarrow> essential_mounts v ms
         | CallFailed \<Rightarrow> (Some (MountFailed (me_target m)), [])))"

fun dev_links :: "guest_env \<Rightarrow> (string \<times> string) list \<Rightarrow> boot_error option \<times> guest_effect list" where
  "dev_links v [] = (None, [])"
| "dev_links v ((target, path) # ls) =
     (case ge_symlink v path of
        CallDone \<Rightarrow> emit [Linked target path] (dev_links v ls)
      | CallExists \<Rightarrow> dev_links v ls
      | CallFailed \<Rightarrow> (Some (DevLink path), []))"

definition devSymlinks :: "(string \<times> string) list" where
  "devSymlinks = [(''/proc/self/fd'', ''/dev/fd''), (''/proc/self/fd/0'', ''/dev/stdin''), (''/proc/self/fd/1'', ''/dev/stdout''),
     (''/proc/self/fd/2'', ''/dev/stderr'')]"

definition Essential :: "guest_env \<Rightarrow> u32 \<Rightarrow> boot_error option \<times> guest_effect list" where
  "Essential v tmpSizeMiB =
     (case essential_mounts v (essentialMounts tmpSizeMiB) of
        (Some e, tr) \<Rightarrow> (Some e, tr)
      | (None, tr) \<Rightarrow>
          emit (tr @ (if ge_remove v ''/dev/ptmx'' then [Removed ''/dev/ptmx''] else []))
            (case ge_symlink v ''/dev/ptmx'' of
               CallDone \<Rightarrow> emit [Linked ''/dev/pts/ptmx'' ''/dev/ptmx''] (dev_links v devSymlinks)
             | _ \<Rightarrow> (Some PtmxLink, [])))"

definition workspace_entry :: "string \<Rightarrow> string \<Rightarrow> bool \<Rightarrow> mountEntry" where
  "workspace_entry mountPoint tag readOnly =
     \<lparr>me_source = tag, me_target = mountPoint, me_fstype = ''virtiofs'',
      me_flags = (if readOnly then MS_NOSUID OR MS_NODEV OR MS_RDONLY else MS_NOSUID OR MS_NODEV), me_data = []\<rparr>"

fun workspace_loop ::
  "guest_env \<Rightarrow> string \<Rightarrow> string \<Rightarrow> int \<Rightarrow> int \<Rightarrow> bool \<Rightarrow> nat \<Rightarrow> nat \<Rightarrow> boot_error option \<times> guest_effect list" where
  "workspace_loop v mountPoint tag uid gid readOnly 0 i = (Some WorkspaceMount, [])"
| "workspace_loop v mountPoint tag uid gid readOnly (Suc n) i =
     (if ge_virtiofs v i then
        emit [Mounted (workspace_entry mountPoint tag readOnly)]
          (if readOnly then (None, [])
           else if ge_chown v mountPoint then (None, [Chowned mountPoint uid gid])
           else (Some WorkspaceChown, if ge_unmount v mountPoint then [Unmounted mountPoint] else []))
      else emit [Slept (500 * millisecond)] (workspace_loop v mountPoint tag uid gid readOnly n (Suc i)))"

definition Workspace ::
  "guest_env \<Rightarrow> string \<Rightarrow> string \<Rightarrow> int \<Rightarrow> int \<Rightarrow> int \<Rightarrow> bool \<Rightarrow> boot_error option \<times> guest_effect list" where
  "Workspace v mountPoint tag uid gid maxRetries readOnly =
     (if \<not> ge_mkdir v mountPoint then (Some WorkspacePoint, [])
      else emit [MadeDir mountPoint] (workspace_loop v mountPoint tag uid gid readOnly (nat maxRetries) 0))"

section \<open>netcfg.go\<close>

definition Configure :: "guest_env \<Rightarrow> boot_error option \<times> guest_effect list" where
  "Configure v =
     (if \<not> ge_link v then (Some FindLink, [])
      else if \<not> ge_addr v then (Some ParseAddr, [])
      else if \<not> ge_setaddr v then (Some SetAddr, [])
      else emit [Addressed (GuestIP @ ''/24'')]
        (if \<not> ge_linkup v then (Some SetLinkUp, [])
         else emit [LinkUp]
           (if \<not> ge_route v then (Some SetRoute, [])
            else emit [DefaultRoute GatewayIP]
              (if \<not> ge_write v ''/etc/resolv.conf'' then (Some WriteResolv, [])
               else (None, [Wrote ''/etc/resolv.conf'' (''nameserver '' @ GatewayIP @ [newline])])))))"

section \<open>sysctl.go\<close>

definition sysctlPath :: "string \<Rightarrow> string" where
  "sysctlPath key = ''/proc/sys/'' @ replace_all ''.'' ''/'' key"

definition sysctl_Set :: "guest_env \<Rightarrow> string \<Rightarrow> string \<Rightarrow> guest_effect list" where
  "sysctl_Set v key val = (if ge_write v (sysctlPath key) then [Wrote (sysctlPath key) val] else [])"

definition kernel_defaults :: "(string \<times> string) list" where
  "kernel_defaults =
     [(''kernel.kptr_restrict'', ''2''), (''kernel.dmesg_restrict'', ''1''), (''kernel.unprivileged_bpf_disabled'', ''1''),
      (''kernel.perf_event_paranoid'', ''3''), (''kernel.yama.ptrace_scope'', ''2''), (''net.core.bpf_jit_harden'', ''2''),
      (''kernel.sysrq'', ''0'')]"

definition KernelDefaults :: "guest_env \<Rightarrow> guest_effect list" where
  "KernelDefaults v = concat (map (\<lambda>(key, val). sysctl_Set v key val) kernel_defaults)"

section \<open>capability.go\<close>

definition CapChown :: u64 where "CapChown = 0"
definition CapKill :: u64 where "CapKill = 5"
definition CapSetGID :: u64 where "CapSetGID = 6"
definition CapSetUID :: u64 where "CapSetUID = 7"
definition CapNetBindService :: u64 where "CapNetBindService = 10"

definition parseCapLastCap :: "string \<Rightarrow> u64 option" where
  "parseCapLastCap content = map_option word_of_int (Atoi (TrimSpace content))"

definition capLastCap :: "guest_env \<Rightarrow> u64" where
  "capLastCap v =
     (case ge_read v ''/proc/sys/kernel/cap_last_cap'' of
        None \<Rightarrow> 41
      | Some content \<Rightarrow> (case parseCapLastCap content of None \<Rightarrow> 41 | Some n \<Rightarrow> n))"

text \<open>
  The loop \<^verbatim>\<open>for cap := 0; cap <= last; cap++\<close> of unsigned integers, which would not end by itself
  if \<open>last\<close> were the largest one; \<open>None\<close> is a loop without end.
\<close>

partial_function (option) drop_caps ::
  "(u64 \<Rightarrow> bool) \<Rightarrow> u64 list \<Rightarrow> u64 \<Rightarrow> u64 \<Rightarrow> guest_effect list \<Rightarrow> (boot_error option \<times> guest_effect list) option" where
  "drop_caps ok keep last_cap cap tr =
     (if cap \<le> last_cap then
        if cap \<in> set keep then drop_caps ok keep last_cap (cap + 1) tr
        else if \<not> ok cap then Some (Some (DropCap cap), tr)
        else drop_caps ok keep last_cap (cap + 1) (tr @ [CapDropped cap])
      else Some (None, tr))"

definition DropBoundingCaps :: "guest_env \<Rightarrow> u64 list \<Rightarrow> (boot_error option \<times> guest_effect list) option" where
  "DropBoundingCaps v keep = drop_caps (ge_capdrop v) keep (capLastCap v) 0 []"

section \<open>seccomp.go\<close>

definition exploitIndicatorBlocks :: SyscallGroup where
  "exploitIndicatorBlocks = \<lparr>sg_Action = ActionKillProcess,
     sg_Names = [''ptrace'', ''process_vm_readv'', ''process_vm_writev'', ''kexec_load'', ''kexec_file_load'', ''init_module'',
       ''finit_module'', ''delete_module'', ''bpf'', ''seccomp''],
     sg_NamesWithConditions = []\<rparr>"

definition operationalBlocks :: SyscallGroup where
  "operationalBlocks = \<lparr>sg_Action = ActionErrno,
     sg_Names = [''io_uring_setup'', ''io_uring_enter'', ''io_uring_register'', ''mount'', ''umount2'', ''pivot_root'', ''chroot'',
       ''fsopen'', ''fsconfig'', ''fspick'', ''move_mount'', ''open_tree'', ''unshare'', ''setns'', ''perf_event_open'', ''userfaultfd'',
       ''personality'', ''add_key'', ''request_key'', ''keyctl'', ''landlock_create_ruleset'', ''landlock_add_rule'',
       ''landlock_restrict_self'', ''acct'', ''swapon'', ''swapoff'', ''quotactl'', ''settimeofday'', ''clock_adjtime'',
       ''lookup_dcookie'', ''kcmp'', ''nfsservctl''],
     sg_NamesWithConditions = []\<rparr>"

definition cloneNamespaceMask :: u64 where
  "cloneNamespaceMask = 0x10000000 OR 0x00020000 OR 0x40000000 OR 0x20000000 OR 0x08000000 OR 0x04000000 OR 0x02000000 OR 0x00000080"

definition cloneNamespaceBlock :: SyscallGroup where
  "cloneNamespaceBlock = \<lparr>sg_Action = ActionErrno, sg_Names = [],
     sg_NamesWithConditions = [(''clone'', [\<lparr>ac_Argument = 0, ac_Operation = BitsSet, ac_Value = cloneNamespaceMask\<rparr>])]\<rparr>"

text \<open>\<^verbatim>\<open>AF_NETLINK\<close>, \<^verbatim>\<open>AF_PACKET\<close>, \<^verbatim>\<open>AF_KEY\<close>, \<^verbatim>\<open>AF_ALG\<close> and \<^verbatim>\<open>AF_VSOCK\<close>.\<close>

definition blocked_families :: "u64 list" where
  "blocked_families = [16, 17, 15, 38, 40]"

definition blockedSocketFamilies :: SyscallGroup where
  "blockedSocketFamilies = \<lparr>sg_Action = ActionErrno, sg_Names = [],
     sg_NamesWithConditions = map (\<lambda>f. (''socket'', [\<lparr>ac_Argument = 0, ac_Operation = Equal, ac_Value = f\<rparr>])) blocked_families\<rparr>"

definition blockedSyscalls :: "SyscallGroup list" where
  "blockedSyscalls = [exploitIndicatorBlocks, operationalBlocks, cloneNamespaceBlock, blockedSocketFamilies]"

definition seccomp_filter :: secbpf_Filter where
  "seccomp_filter = \<lparr>sf_NoNewPrivs = True, sf_Flag = [FilterFlagTSync, FilterFlagLog], sf_DefaultAction = ActionAllow,
     sf_Syscalls = blockedSyscalls\<rparr>"

definition ApplySeccomp :: "guest_env \<Rightarrow> boot_error option \<times> guest_effect list" where
  "ApplySeccomp v = (if ge_loadfilter v seccomp_filter then (None, [Filtered seccomp_filter]) else (Some LoadFilter, []))"

definition SetNoNewPrivs :: "guest_env \<Rightarrow> boot_error option \<times> guest_effect list" where
  "SetNoNewPrivs v = (if ge_nnp v then (None, [NoNewPrivs]) else (Some SetNoNewPrivsFailed, []))"

section \<open>fixhome.go\<close>

text \<open>
  The tree below the home directory, with owner and permissions. Entries are in the order in which
  \<^verbatim>\<open>filepath.WalkDir\<close> visits them; a path is the list of names from the home directory on.
\<close>

record home_meta =
  hm_owner :: "int \<times> int"
  hm_perm :: u32

datatype home_node =
  HomeFile home_meta
| HomeLink home_meta
| HomeDir home_meta "(string \<times> home_node) list"

text \<open>Which calls succeed, by path.\<close>

record home_env =
  he_chown :: "string list \<Rightarrow> bool"
  he_chmod :: "string list \<Rightarrow> bool"
  he_readdir :: "string list \<Rightarrow> bool"

definition sshPermission :: "bool \<Rightarrow> u32" where
  "sshPermission isDir = (if isDir then 0x1C0 else 0x180)"

text \<open>The relative path of \<^verbatim>\<open>filepath.Rel(home, path)\<close>.\<close>

fun rel_path :: "string list \<Rightarrow> string" where
  "rel_path [] = ''.''"
| "rel_path [n] = n"
| "rel_path (n # m # ns) = n @ ''/'' @ rel_path (m # ns)"

definition isSSHPath :: "string \<Rightarrow> bool" where
  "isSSHPath rel \<longleftrightarrow> rel = ''.ssh'' \<or> HasPrefix rel ''.ssh/''"

definition fix_meta :: "home_env \<Rightarrow> (string list \<Rightarrow> bool) \<Rightarrow> int \<times> int \<Rightarrow> string list \<Rightarrow> bool \<Rightarrow> home_meta \<Rightarrow> home_meta" where
  "fix_meta v ssh ids p isDir m =
     (let m = (if he_chown v p then m\<lparr>hm_owner := ids\<rparr> else m)
      in if ssh p \<and> he_chmod v p then m\<lparr>hm_perm := sshPermission isDir\<rparr> else m)"

text \<open>The walk with its callback; false when it was given up at a directory that cannot be read.\<close>

fun fix_node :: "home_env \<Rightarrow> (string list \<Rightarrow> bool) \<Rightarrow> int \<times> int \<Rightarrow> string list \<Rightarrow> home_node \<Rightarrow> bool \<times> home_node"
and fix_nodes :: "home_env \<Rightarrow> (string list \<Rightarrow> bool) \<Rightarrow> int \<times> int \<Rightarrow> string list \<Rightarrow> (string \<times> home_node) list \<Rightarrow>
  bool \<times> (string \<times> home_node) list" where
  "fix_node v ssh ids p (HomeLink m) = (True, HomeLink m)"
| "fix_node v ssh ids p (HomeFile m) = (True, HomeFile (fix_meta v ssh ids p False m))"
| "fix_node v ssh ids p (HomeDir m es) =
     (if \<not> he_readdir v p then (False, HomeDir (fix_meta v ssh ids p True m) es)
      else case fix_nodes v ssh ids p es of (ok, es) \<Rightarrow> (ok, HomeDir (fix_meta v ssh ids p True m) es))"
| "fix_nodes v ssh ids p [] = (True, [])"
| "fix_nodes v ssh ids p ((n, t) # es) =
     (case fix_node v ssh ids (p @ [n]) t of
        (False, t) \<Rightarrow> (False, (n, t) # es)
      | (True, t) \<Rightarrow> (case fix_nodes v ssh ids p es of (ok, es) \<Rightarrow> (ok, (n, t) # es)))"

definition fullRecursiveChown :: "home_env \<Rightarrow> int \<times> int \<Rightarrow> home_node \<Rightarrow> home_node" where
  "fullRecursiveChown v ids home = snd (fix_node v (\<lambda>p. isSSHPath (rel_path p)) ids [] home)"

fun fix_entry :: "home_env \<Rightarrow> int \<times> int \<Rightarrow> (string \<times> home_node) list \<Rightarrow> (string \<times> home_node) list" where
  "fix_entry v ids [] = []"
| "fix_entry v ids ((n, t) # es) =
     (if n = ''.ssh'' then (n, snd (fix_node v (\<lambda>_. True) ids [n] t)) # es else (n, t) # fix_entry v ids es)"

text \<open>A missing directory and a link are left alone.\<close>

definition fixSSHPermissions :: "home_env \<Rightarrow> int \<times> int \<Rightarrow> home_node \<Rightarrow> home_node" where
  "fixSSHPermissions v ids home = (case home of HomeDir m es \<Rightarrow> HomeDir m (fix_entry v ids es) | _ \<Rightarrow> home)"

definition node_meta :: "home_node \<Rightarrow> home_meta" where
  "node_meta t = (case t of HomeFile m \<Rightarrow> m | HomeLink m \<Rightarrow> m | HomeDir m _ \<Rightarrow> m)"

definition homeAlreadyOwned :: "int \<times> int \<Rightarrow> home_node \<Rightarrow> bool" where
  "homeAlreadyOwned ids home \<longleftrightarrow> hm_owner (node_meta home) = ids"

definition fixHomeOwnership :: "home_env \<Rightarrow> int \<times> int \<Rightarrow> home_node option \<Rightarrow> home_node option" where
  "fixHomeOwnership v ids home =
     map_option (\<lambda>t. if homeAlreadyOwned ids t then fixSSHPermissions v ids t else fullRecursiveChown v ids t) home"

section \<open>options.go\<close>

record boot_config =
  bc_workspaceMountPoint :: string
  bc_workspaceTag :: string
  bc_workspaceUID :: int
  bc_workspaceGID :: int
  bc_workspaceReadOnly :: bool
  bc_mountRetries :: int
  bc_sshPort :: int
  bc_sshKeysPath :: string
  bc_sshHostKeyPath :: string
  bc_envFilePath :: string
  bc_userName :: string
  bc_userHome :: string
  bc_userShell :: string
  bc_userUID :: u32
  bc_userGID :: u32
  bc_lockdownRoot :: bool
  bc_sshAgentForwarding :: bool
  bc_sshTCPForwarding :: bool
  bc_seccomp :: bool
  bc_tmpSizeMiB :: u32
  bc_disableSSH :: bool

definition boot_defaultConfig :: boot_config where
  "boot_defaultConfig = \<lparr>bc_workspaceMountPoint = ''/workspace'', bc_workspaceTag = ''workspace'', bc_workspaceUID = 1000, bc_workspaceGID = 1000,
     bc_workspaceReadOnly = False, bc_mountRetries = 5, bc_sshPort = 22, bc_sshKeysPath = ''/home/sandbox/.ssh/authorized_keys'',
     bc_sshHostKeyPath = ''/etc/ssh/ssh_host_ecdsa_key'', bc_envFilePath = ''/etc/sandbox-env'', bc_userName = ''sandbox'',
     bc_userHome = ''/home/sandbox'', bc_userShell = ''/bin/bash'', bc_userUID = 1000, bc_userGID = 1000, bc_lockdownRoot = True,
     bc_sshAgentForwarding = False, bc_sshTCPForwarding = False, bc_seccomp = False, bc_tmpSizeMiB = 0, bc_disableSSH = False\<rparr>"

definition WithWorkspace :: "string \<Rightarrow> string \<Rightarrow> int \<Rightarrow> int \<Rightarrow> boot_config \<Rightarrow> boot_config" where
  "WithWorkspace mountPoint tag uid gid c =
     c\<lparr>bc_workspaceMountPoint := mountPoint, bc_workspaceTag := tag, bc_workspaceUID := uid, bc_workspaceGID := gid\<rparr>"

definition WithWorkspaceReadOnly :: "bool \<Rightarrow> boot_config \<Rightarrow> boot_config" where
  "WithWorkspaceReadOnly readOnly c = c\<lparr>bc_workspaceReadOnly := readOnly\<rparr>"

definition WithMountRetries :: "int \<Rightarrow> boot_config \<Rightarrow> boot_config" where
  "WithMountRetries n c = c\<lparr>bc_mountRetries := n\<rparr>"

definition WithSSHPort :: "int \<Rightarrow> boot_config \<Rightarrow> boot_config" where
  "WithSSHPort port c = c\<lparr>bc_sshPort := port\<rparr>"

definition WithSSHKeysPath :: "string \<Rightarrow> boot_config \<Rightarrow> boot_config" where
  "WithSSHKeysPath path c = c\<lparr>bc_sshKeysPath := path\<rparr>"

definition WithEnvFilePath :: "string \<Rightarrow> boot_config \<Rightarrow> boot_config" where
  "WithEnvFilePath path c = c\<lparr>bc_envFilePath := path\<rparr>"

definition WithUser :: "string \<Rightarrow> string \<Rightarrow> string \<Rightarrow> u32 \<Rightarrow> u32 \<Rightarrow> boot_config \<Rightarrow> boot_config" where
  "WithUser name home shell uid gid c =
     c\<lparr>bc_userName := name, bc_userHome := home, bc_userShell := shell, bc_userUID := uid, bc_userGID := gid\<rparr>"

definition WithLockdownRoot :: "bool \<Rightarrow> boot_config \<Rightarrow> boot_config" where
  "WithLockdownRoot enabled c = c\<lparr>bc_lockdownRoot := enabled\<rparr>"

definition WithSSHHostKeyPath :: "string \<Rightarrow> boot_config \<Rightarrow> boot_config" where
  "WithSSHHostKeyPath path c = c\<lparr>bc_sshHostKeyPath := path\<rparr>"

definition WithSSHAgentForwarding :: "bool \<Rightarrow> boot_config \<Rightarrow> boot_config" where
  "WithSSHAgentForwarding enabled c = c\<lparr>bc_sshAgentForwarding := enabled\<rparr>"

definition WithSSHTCPForwarding :: "bool \<Rightarrow> boot_config \<Rightarrow> boot_config" where
  "WithSSHTCPForwarding enabled c = c\<lparr>bc_sshTCPForwarding := enabled\<rparr>"

definition boot_WithTmpSize :: "u32 \<Rightarrow> boot_config \<Rightarrow> boot_config" where
  "boot_WithTmpSize mib c = (if 0 < mib then c\<lparr>bc_tmpSizeMiB := mib\<rparr> else c)"

definition boot_WithoutSSH :: "boot_config \<Rightarrow> boot_config" where
  "boot_WithoutSSH c = c\<lparr>bc_disableSSH := True\<rparr>"

definition WithSeccomp :: "bool \<Rightarrow> boot_config \<Rightarrow> boot_config" where
  "WithSeccomp enabled c = c\<lparr>bc_seccomp := enabled\<rparr>"

section \<open>ssh_enabled.go, ssh_disabled.go\<close>

definition ParseAuthorizedKeys :: "guest_env \<Rightarrow> string \<Rightarrow> boot_error + PublicKey list" where
  "ParseAuthorizedKeys v path =
     (case ge_read v path of
        None \<Rightarrow> Inl OpenKeys
      | Some content \<Rightarrow>
          (case scan_lines content of
             Inl _ \<Rightarrow> Inl ReadKeys
           | Inr lines \<Rightarrow>
               let keys = List.map_filter (\<lambda>line. if line = [] \<or> hd line = CHR ''#'' then None else ge_parsekey v line) lines
               in if keys = [] then Inl NoKeys else Inr keys))"

definition sshd_config :: "boot_config \<Rightarrow> PublicKey list \<Rightarrow> string list \<Rightarrow> nat option \<Rightarrow> sshd_Config" where
  "sshd_config cfg keys envVars hostKey =
     \<lparr>sc_Port = bc_sshPort cfg, sc_AuthorizedKeys = keys, sc_Env = envVars, sc_DefaultUID = bc_userUID cfg, sc_DefaultGID = bc_userGID cfg,
      sc_DefaultUser = bc_userName cfg, sc_DefaultHome = bc_userHome cfg, sc_DefaultShell = bc_userShell cfg,
      sc_DefaultWorkDir = bc_workspaceMountPoint cfg, sc_AgentForwarding = bc_sshAgentForwarding cfg,
      sc_AllowTCPForwarding = bc_sshTCPForwarding cfg, sc_HostKey = hostKey\<rparr>"

text \<open>An injected host key is read and removed.\<close>

definition load_host_key :: "guest_env \<Rightarrow> string \<Rightarrow> nat option \<times> guest_effect list" where
  "load_host_key v path =
     (case ge_read v path of
        None \<Rightarrow> (None, [])
      | Some pem \<Rightarrow> (ge_hostkey v pem, if ge_remove v path then [Removed path] else []))"

definition bringUpSSH_enabled :: "guest_env \<Rightarrow> boot_config \<Rightarrow> string list \<Rightarrow> boot_error option \<times> guest_effect list" where
  "bringUpSSH_enabled v cfg envVars =
     (if bc_disableSSH cfg then (None, [])
      else case ParseAuthorizedKeys v (bc_sshKeysPath cfg) of
        Inl e \<Rightarrow> (Some e, [])
      | Inr keys \<Rightarrow>
          (case load_host_key v (bc_sshHostKeyPath cfg) of
             (hostKey, tr) \<Rightarrow>
               emit tr
                 (case NewServer (ge_genkey v) (sshd_config cfg keys envVars hostKey) of
                    Inl _ \<Rightarrow> (Some CreateServer, [])
                  | Inr srv \<Rightarrow>
                      if \<not> ge_listen v (bc_sshPort cfg) then (Some ListenPort, [])
                      else (None, [Listening (sv_cfg srv)]))))"

definition bringUpSSH_disabled :: "boot_config \<Rightarrow> boot_error option \<times> guest_effect list" where
  "bringUpSSH_disabled cfg = (if \<not> bc_disableSSH cfg then (Some SSHNotBuilt, []) else (None, []))"

definition bringUpSSH :: "guest_env \<Rightarrow> boot_config \<Rightarrow> string list \<Rightarrow> boot_error option \<times> guest_effect list" where
  "bringUpSSH v cfg envVars = (if ge_sshd_built v then bringUpSSH_enabled v cfg envVars else bringUpSSH_disabled cfg)"

section \<open>boot.go\<close>

definition lockdownRoot :: "guest_env \<Rightarrow> guest_effect list" where
  "lockdownRoot v = (if ge_chmod v ''/root'' then [Chmoded ''/root'' 0x1C0] else [])"

definition guest_keep :: "u64 list" where
  "guest_keep = [CapSetUID, CapSetGID, CapNetBindService]"

text \<open>The last steps, from the capabilities on.\<close>

definition boot_lockdown :: "guest_env \<Rightarrow> boot_config \<Rightarrow> string list \<Rightarrow> (boot_error option \<times> guest_effect list) option" where
  "boot_lockdown v cfg envVars =
     (case DropBoundingCaps v guest_keep of
        None \<Rightarrow> None
      | Some (Some e, tr) \<Rightarrow> Some (Some e, tr)
      | Some (None, tr) \<Rightarrow>
          Some (emit tr
            (case SetNoNewPrivs v of
               (Some e, tr) \<Rightarrow> (Some e, tr)
             | (None, tr) \<Rightarrow>
                 emit tr
                   (case bringUpSSH v cfg envVars of
                      (Some e, tr) \<Rightarrow> (Some e, tr)
                    | (None, tr) \<Rightarrow> emit tr (if bc_seccomp cfg then ApplySeccomp v else (None, []))))))"

text \<open>Everything before: the effects of the steps that do not stop the boot are kept.\<close>

definition boot_prepare :: "guest_env \<Rightarrow> boot_config \<Rightarrow> boot_error option \<times> guest_effect list" where
  "boot_prepare v cfg =
     (case Essential v (bc_tmpSizeMiB cfg) of
        (Some e, tr) \<Rightarrow> (Some e, tr)
      | (None, tr) \<Rightarrow>
          emit tr
            (case Configure v of
               (Some e, tr) \<Rightarrow> (Some e, tr)
             | (None, tr) \<Rightarrow>
                 (None, tr @
                    snd (Workspace v (bc_workspaceMountPoint cfg) (bc_workspaceTag cfg) (bc_workspaceUID cfg) (bc_workspaceGID cfg)
                      (bc_mountRetries cfg) (bc_workspaceReadOnly cfg)) @
                    KernelDefaults v @ (if bc_lockdownRoot cfg then lockdownRoot v else []) @
                    [HomeFixed (bc_userHome cfg) (bc_userUID cfg) (bc_userGID cfg)])))"

definition boot_Run :: "guest_env \<Rightarrow> (boot_config \<Rightarrow> boot_config) list \<Rightarrow> (boot_error option \<times> guest_effect list) option" where
  "boot_Run v opts =
     (let cfg = fold (\<lambda>o' c. o' c) opts boot_defaultConfig
      in case boot_prepare v cfg of
           (Some e, tr) \<Rightarrow> Some (Some e, tr)
         | (None, tr) \<Rightarrow>
             (case Load (ge_read v (bc_envFilePath cfg)) of
                Inl _ \<Rightarrow> Some (Some LoadEnv, tr)
              | Inr envVars \<Rightarrow> map_option (emit tr) (boot_lockdown v cfg envVars)))"

section \<open>vmconfig.go\<close>

text \<open>What reading the file gives: none if it does not exist; \<open>zero\<close> is the empty configuration.\<close>

definition readFrom :: "(string \<Rightarrow> 'c option) \<Rightarrow> 'c \<Rightarrow> unit + string option \<Rightarrow> unit + 'c" where
  "readFrom decode zero file =
     (case file of
        Inl _ \<Rightarrow> Inl ()
      | Inr None \<Rightarrow> Inr zero
      | Inr (Some data) \<Rightarrow> (case decode data of None \<Rightarrow> Inl () | Some cfg \<Rightarrow> Inr cfg))"

section \<open>Properties\<close>

subsection \<open>Capabilities\<close>

lemmas drop_caps_unfold = drop_caps.simps

lemma unat_succ:
  assumes "(cap :: u64) < c"
  shows "unat (cap + 1) = unat cap + 1" "cap + 1 \<le> c"
proof -
  have "unat cap + 1 < 2 ^ 64" using assms unsigned_less [of c, where ?'a = nat] by (simp add: word_less_nat_alt)
  then show u: "unat (cap + 1) = unat cap + 1" by (simp add: unat_word_ariths)
  then show "cap + 1 \<le> c" using assms by (simp add: word_le_nat_alt word_less_nat_alt)
qed

lemma drop_caps_ends:
  assumes "last_cap \<noteq> - 1"
  shows "\<exists>r. drop_caps ok keep last_cap cap tr = Some r"
proof (induction "unat last_cap + 1 - unat cap" arbitrary: cap tr rule: less_induct)
  case less
  show ?case
  proof (cases "cap \<le> last_cap")
    case True
    then have "cap < - 1" using assms by (metis word_order.extremum_strict word_order.not_eq_extremum order_le_less_trans)
    then have "unat (cap + 1) = unat cap + 1" by (rule unat_succ)
    then have "unat last_cap + 1 - unat (cap + 1) < unat last_cap + 1 - unat cap" using True by (simp add: word_le_nat_alt)
    then show ?thesis using less by (subst drop_caps_unfold) auto
  qed (subst drop_caps_unfold, auto)
qed

lemma drop_caps_stops:
  assumes "c \<notin> set keep" "\<not> ok c"
  shows "cap \<le> c \<Longrightarrow> \<exists>r. drop_caps ok keep last_cap cap tr = Some r"
proof (induction "unat c - unat cap" arbitrary: cap tr rule: less_induct)
  case less
  show ?case
  proof (cases "cap = c")
    case True
    then show ?thesis using assms by (subst drop_caps_unfold) auto
  next
    case False
    then have "cap < c" using less.prems by simp
    then have u: "unat (cap + 1) = unat cap + 1" "cap + 1 \<le> c" by (rule unat_succ)+
    then have "unat c - unat (cap + 1) < unat c - unat cap" using \<open>cap < c\<close> by (simp add: word_less_nat_alt)
    then show ?thesis using less u by (subst drop_caps_unfold) auto
  qed
qed

definition caps_dropped :: "u64 list \<Rightarrow> u64 \<Rightarrow> u64 \<Rightarrow> guest_effect list \<Rightarrow> boot_error option \<times> guest_effect list \<Rightarrow> bool" where
  "caps_dropped keep last_cap cap tr r \<longleftrightarrow>
     (\<exists>cs. snd r = tr @ map CapDropped cs \<and> (\<forall>c \<in> set cs. c \<notin> set keep \<and> c \<le> last_cap) \<and>
       (fst r = None \<longrightarrow> (\<forall>c. cap \<le> c \<longrightarrow> c \<le> last_cap \<longrightarrow> c \<notin> set keep \<longrightarrow> c \<in> set cs)))"

lemma caps_dropped_now: "fst r = None \<longrightarrow> \<not> cap \<le> last_cap \<Longrightarrow> snd r = tr \<Longrightarrow> caps_dropped keep last_cap cap tr r"
  unfolding caps_dropped_def using order_trans [of cap _ last_cap] by (intro exI [of _ "[]"]) auto

lemma next_cap: "(cap :: u64) \<le> c \<Longrightarrow> c \<noteq> cap \<Longrightarrow> cap + 1 \<le> c"
  by (intro unat_succ(2)) (simp add: order_less_le)

lemma caps_dropped_from:
  assumes "\<forall>c. cap + 1 \<le> c \<longrightarrow> P c" "P (cap :: u64)"
  shows "\<forall>c. cap \<le> c \<longrightarrow> P c"
proof (intro allI impI)
  fix c
  assume "cap \<le> c"
  then show "P c" using assms next_cap [of cap c] by (cases "c = cap") simp_all
qed

lemma caps_dropped_more:
  assumes "caps_dropped keep last_cap (cap + 1) (tr @ map CapDropped new) r" "\<forall>c \<in> set new. c \<notin> set keep \<and> c \<le> last_cap"
    and "cap \<in> set keep \<or> cap \<in> set new"
  shows "caps_dropped keep last_cap cap tr r"
proof -
  obtain cs where cs: "snd r = (tr @ map CapDropped new) @ map CapDropped cs" "\<forall>c \<in> set cs. c \<notin> set keep \<and> c \<le> last_cap"
    "fst r = None \<longrightarrow> (\<forall>c. cap + 1 \<le> c \<longrightarrow> c \<le> last_cap \<longrightarrow> c \<notin> set keep \<longrightarrow> c \<in> set cs)"
    using assms(1) unfolding caps_dropped_def by (elim exE conjE) (rule that)
  have "\<forall>c. cap \<le> c \<longrightarrow> c \<le> last_cap \<longrightarrow> c \<notin> set keep \<longrightarrow> c \<in> set (new @ cs)" if "fst r = None"
  proof (rule caps_dropped_from)
    show "\<forall>c. cap + 1 \<le> c \<longrightarrow> c \<le> last_cap \<longrightarrow> c \<notin> set keep \<longrightarrow> c \<in> set (new @ cs)"
      using mp [OF cs(3) that] by (simp only: set_append Un_iff simp_thms) (iprover)
    show "cap \<le> last_cap \<longrightarrow> cap \<notin> set keep \<longrightarrow> cap \<in> set (new @ cs)" using assms(3) by (simp only: set_append Un_iff) iprover
  qed
  moreover have "\<forall>c \<in> set (new @ cs). c \<notin> set keep \<and> c \<le> last_cap" using cs(2) assms(2) by (simp only: set_append ball_Un simp_thms)
  moreover have "snd r = tr @ map CapDropped (new @ cs)" using cs(1) by simp
  ultimately show ?thesis unfolding caps_dropped_def by (intro exI [of _ "new @ cs"] conjI impI)
qed

lemma drop_caps_effects:
  assumes ret: "drop_caps ok keep last_cap cap tr = Some r"
  shows "caps_dropped keep last_cap cap tr r"
proof (rule drop_caps.raw_induct [where P = "\<lambda>ok keep last_cap cap tr r. caps_dropped keep last_cap cap tr r", OF _ ret])
  fix f ok keep last_cap cap tr r
  assume IH: "\<And>ok keep last_cap cap tr r. f ok keep last_cap cap tr = Some r \<Longrightarrow> caps_dropped keep last_cap cap tr r"
    and eq: "(if cap \<le> last_cap then
        if cap \<in> set keep then f ok keep last_cap (cap + 1) tr
        else if \<not> ok cap then Some (Some (DropCap cap), tr)
        else f ok keep last_cap (cap + 1) (tr @ [CapDropped cap])
      else Some (None, tr)) = Some r"
  consider (past) "\<not> cap \<le> last_cap" | (kept) "cap \<le> last_cap" "cap \<in> set keep"
    | (fails) "cap \<le> last_cap" "cap \<notin> set keep" "\<not> ok cap" | (drop) "cap \<le> last_cap" "cap \<notin> set keep" "ok cap"
    by blast
  then show "caps_dropped keep last_cap cap tr r"
  proof cases
    case past
    with eq have "r = (None, tr)" by simp
    with past show ?thesis by (intro caps_dropped_now) simp_all
  next
    case kept
    with eq have "f ok keep last_cap (cap + 1) tr = Some r" by simp
    from IH [OF this] kept(2) show ?thesis by (intro caps_dropped_more [of keep last_cap cap tr "[]"]) simp_all
  next
    case fails
    with eq have "r = (Some (DropCap cap), tr)" by simp
    then show ?thesis by (intro caps_dropped_now) simp_all
  next
    case drop
    with eq have "f ok keep last_cap (cap + 1) (tr @ [CapDropped cap]) = Some r" by simp
    from IH [OF this] drop(1,2) show ?thesis by (intro caps_dropped_more [of keep last_cap cap tr "[cap]"]) simp_all
  qed
qed

subsection \<open>The boot\<close>

lemma emit_simps [simp]: "fst (emit es r) = fst r" "snd (emit es r) = es @ snd r" "emit es (x, tr) = (x, es @ tr)"
  by (simp_all add: emit_def)

lemma drop_returns:
  assumes "\<And>c. ge_capdrop v c \<Longrightarrow> c < 64"
  shows "\<exists>r. DropBoundingCaps v guest_keep = Some r"
proof -
  have "(64 :: u64) \<notin> set guest_keep" by (simp add: guest_keep_def CapSetUID_def CapSetGID_def CapNetBindService_def)
  moreover have "\<not> ge_capdrop v 64" using assms [of 64] by auto
  ultimately show ?thesis unfolding DropBoundingCaps_def by (rule drop_caps_stops) simp
qed

lemma drop_exact:
  assumes "DropBoundingCaps v keep = Some (e, tr)"
  obtains cs where "tr = map CapDropped cs" "\<forall>c \<in> set cs. c \<notin> set keep \<and> c \<le> capLastCap v"
    "e = None \<Longrightarrow> \<forall>c. c \<in> set cs \<longleftrightarrow> c \<le> capLastCap v \<and> c \<notin> set keep"
proof -
  have "caps_dropped keep (capLastCap v) 0 [] (e, tr)" using assms unfolding DropBoundingCaps_def by (rule drop_caps_effects)
  then obtain cs where cs: "tr = map CapDropped cs" "\<forall>c \<in> set cs. c \<notin> set keep \<and> c \<le> capLastCap v"
    "e = None \<longrightarrow> (\<forall>c. 0 \<le> c \<longrightarrow> c \<le> capLastCap v \<longrightarrow> c \<notin> set keep \<longrightarrow> c \<in> set cs)"
    unfolding caps_dropped_def by auto
  show thesis
  proof (rule that [OF cs(1,2)])
    assume "e = None"
    with cs(3) have "c \<le> capLastCap v \<Longrightarrow> c \<notin> set keep \<Longrightarrow> c \<in> set cs" for c by simp
    with cs(2) show "\<forall>c. c \<in> set cs \<longleftrightarrow> c \<le> capLastCap v \<and> c \<notin> set keep" by blast
  qed
qed

text \<open>The effects that end the preparation do not occur in it.\<close>

definition preparing :: "guest_effect \<Rightarrow> bool" where
  "preparing e = (case e of CapDropped _ \<Rightarrow> False | NoNewPrivs \<Rightarrow> False | Listening _ \<Rightarrow> False | Filtered _ \<Rightarrow> False | _ \<Rightarrow> True)"

lemma preparing_mounts: "list_all preparing (snd (essential_mounts v ms))"
  by (induction ms) (auto simp: preparing_def split: call_result.split)

lemma preparing_links: "list_all preparing (snd (dev_links v ls))"
  by (induction ls rule: dev_links.induct) (auto simp: preparing_def split: call_result.split)

lemma preparing_Essential: "list_all preparing (snd (Essential v tmp))"
  using preparing_mounts [of v "essentialMounts tmp"] preparing_links [of v devSymlinks]
  by (auto simp: Essential_def preparing_def split: prod.split option.split call_result.split)

lemma preparing_workspace: "list_all preparing (snd (workspace_loop v mp tag uid gid ro n i))"
  by (induction n arbitrary: i) (auto simp: preparing_def)

lemma preparing_Workspace: "list_all preparing (snd (Workspace v mp tag uid gid n ro))"
  using preparing_workspace by (auto simp: Workspace_def preparing_def)

lemma preparing_Configure: "list_all preparing (snd (Configure v))"
  by (simp add: Configure_def preparing_def)

lemma preparing_KernelDefaults: "list_all preparing (KernelDefaults v)"
  by (auto simp: KernelDefaults_def sysctl_Set_def preparing_def list_all_iff split: if_splits)

lemma preparing_boot: "list_all preparing (snd (boot_prepare v cfg))"
  using preparing_Essential [of v "bc_tmpSizeMiB cfg"] preparing_Configure [of v] preparing_Workspace preparing_KernelDefaults [of v]
  by (auto simp: boot_prepare_def lockdownRoot_def preparing_def split: prod.split option.split)

text \<open>What bringing up the server does: it may remove the host key, and it is the last thing to listen.\<close>

lemma bringUp_effects:
  assumes "bringUpSSH v cfg envVars = (e, tr)"
  obtains pre up where "tr = pre @ up" "list_all preparing pre"
    "e = None \<Longrightarrow> (up = [] \<and> bc_disableSSH cfg) \<or>
       (\<not> bc_disableSSH cfg \<and> (\<exists>keys hk. ParseAuthorizedKeys v (bc_sshKeysPath cfg) = Inr keys \<and> up = [Listening (sshd_config cfg keys envVars hk)]))"
    "e \<noteq> None \<Longrightarrow> up = []"
proof -
  have key: "list_all preparing (snd (load_host_key v path))" for path
    by (simp add: load_host_key_def preparing_def split: option.split)
  have srv: "NewServer gen c = Inr s \<Longrightarrow> sv_cfg s = c" for gen c s
    by (auto simp: NewServer_def split: option.splits)
  consider (off) "tr = []" "e = None \<longrightarrow> bc_disableSSH cfg"
    | (on) keys where "\<not> bc_disableSSH cfg" "ParseAuthorizedKeys v (bc_sshKeysPath cfg) = Inr keys" "ge_sshd_built v"
    using assms by (auto simp: bringUpSSH_def bringUpSSH_enabled_def bringUpSSH_disabled_def split: if_splits sum.splits)
  then show thesis
  proof cases
    case off
    then show thesis by (intro that [of "[]" "[]"]) auto
  next
    case on
    obtain hk ktr where k: "load_host_key v (bc_sshHostKeyPath cfg) = (hk, ktr)" by (metis surj_pair)
    have pk: "list_all preparing ktr" using key [of "bc_sshHostKeyPath cfg"] k by simp
    let ?c = "sshd_config cfg keys envVars hk"
    have r: "bringUpSSH v cfg envVars = emit ktr (case NewServer (ge_genkey v) ?c of Inl _ \<Rightarrow> (Some CreateServer, [])
        | Inr s \<Rightarrow> if \<not> ge_listen v (bc_sshPort cfg) then (Some ListenPort, []) else (None, [Listening (sv_cfg s)]))"
      using on k by (simp add: bringUpSSH_def bringUpSSH_enabled_def)
    show thesis
    proof (cases "e = None")
      case True
      then have "tr = ktr @ [Listening ?c]" using r assms srv by (auto simp: emit_def split: sum.splits if_splits)
      then show thesis using on pk True by (intro that [of ktr "[Listening ?c]"]) auto
    next
      case False
      then have "tr = ktr" using r assms by (auto simp: emit_def split: sum.splits if_splits)
      then show thesis using pk False by (intro that [of ktr "[]"]) auto
    qed
  qed
qed

lemma lockdown_effects:
  assumes "boot_lockdown v cfg envVars = Some (e, tr)"
  obtains cs pre up fin where "tr = map CapDropped cs @ pre @ up @ fin" "list_all (\<lambda>x. preparing x \<or> x = NoNewPrivs) pre"
    "\<forall>c \<in> set cs. c \<notin> set guest_keep \<and> c \<le> capLastCap v"
    "e = None \<Longrightarrow> (\<forall>c. c \<in> set cs \<longleftrightarrow> c \<le> capLastCap v \<and> c \<notin> set guest_keep) \<and> NoNewPrivs \<in> set pre \<and>
       fin = (if bc_seccomp cfg then [Filtered seccomp_filter] else []) \<and>
       ((up = [] \<and> bc_disableSSH cfg) \<or>
        (\<not> bc_disableSSH cfg \<and> (\<exists>keys hk. ParseAuthorizedKeys v (bc_sshKeysPath cfg) = Inr keys \<and> up = [Listening (sshd_config cfg keys envVars hk)])))"
    "e \<noteq> None \<Longrightarrow> fin = [] \<and> (up = [] \<or> e = Some LoadFilter \<and> bc_seccomp cfg)"
proof -
  obtain e1 tr1 where d: "DropBoundingCaps v guest_keep = Some (e1, tr1)"
    using assms by (auto simp: boot_lockdown_def split: option.splits)
  obtain cs where cs: "tr1 = map CapDropped cs" "\<forall>c \<in> set cs. c \<notin> set guest_keep \<and> c \<le> capLastCap v"
    "e1 = None \<Longrightarrow> \<forall>c. c \<in> set cs \<longleftrightarrow> c \<le> capLastCap v \<and> c \<notin> set guest_keep"
    using drop_exact [OF d] by blast
  consider (caps) "e1 \<noteq> None" | (nnp) "e1 = None" "\<not> ge_nnp v" | (ok) "e1 = None" "ge_nnp v" by blast
  then show thesis
  proof cases
    case caps
    then have "e = e1" "tr = tr1" using assms d by (auto simp: boot_lockdown_def)
    then show thesis using cs caps by (intro that [of cs "[]" "[]" "[]"]) auto
  next
    case nnp
    then have "e = Some SetNoNewPrivsFailed" "tr = tr1" using assms d by (auto simp: boot_lockdown_def SetNoNewPrivs_def)
    then show thesis using cs by (intro that [of cs "[]" "[]" "[]"]) auto
  next
    case ok
    obtain e2 tr2 where b: "bringUpSSH v cfg envVars = (e2, tr2)" by (metis surj_pair)
    obtain pre up where u: "tr2 = pre @ up" "list_all preparing pre"
      "e2 = None \<Longrightarrow> (up = [] \<and> bc_disableSSH cfg) \<or>
       (\<not> bc_disableSSH cfg \<and> (\<exists>keys hk. ParseAuthorizedKeys v (bc_sshKeysPath cfg) = Inr keys \<and> up = [Listening (sshd_config cfg keys envVars hk)]))"
      "e2 \<noteq> None \<Longrightarrow> up = []"
      using bringUp_effects [OF b] by metis
    have pre: "list_all (\<lambda>x. preparing x \<or> x = NoNewPrivs) (NoNewPrivs # pre)" using u(2) by (auto simp: list_all_iff)
    show thesis
    proof (cases "e2 = None")
      case True
      let ?s = "if bc_seccomp cfg then ApplySeccomp v else (None, [])"
      have r: "e = fst ?s" "tr = map CapDropped cs @ (NoNewPrivs # pre) @ up @ snd ?s"
        using assms d ok b True cs(1) u(1) by (auto simp: boot_lockdown_def SetNoNewPrivs_def emit_def)
      have s: "fst ?s = None \<Longrightarrow> snd ?s = (if bc_seccomp cfg then [Filtered seccomp_filter] else [])"
        "fst ?s \<noteq> None \<Longrightarrow> snd ?s = [] \<and> fst ?s = Some LoadFilter \<and> bc_seccomp cfg"
        by (auto simp: ApplySeccomp_def split: if_splits)
      show thesis
        by (rule that [OF r(2) pre cs(2)]) (use cs(3) ok(1) u(3) [OF True] s r(1) in \<open>simp_all split: if_splits\<close>)
    next
      case False
      then have "e = e2" "tr = map CapDropped cs @ (NoNewPrivs # pre) @ [] @ []"
        using assms d ok b cs(1) u(1,4) by (auto simp: boot_lockdown_def SetNoNewPrivs_def)
      then show thesis using pre cs(2) False by (intro that [of cs "NoNewPrivs # pre" "[]" "[]"]) auto
    qed
  qed
qed


text \<open>
  The boot always returns. The loop over the capabilities ends even if the kernel's file gives
  a negative number, because the kernel refuses a capability beyond the 64 it can represent.
\<close>

theorem boot_returns:
  assumes "\<And>c. ge_capdrop v c \<Longrightarrow> c < 64"
  shows "\<exists>r. boot_Run v opts = Some r"
proof -
  obtain r where "DropBoundingCaps v guest_keep = Some r" using drop_returns [OF assms] by blast
  then have "\<exists>r. boot_lockdown v cfg envVars = Some r" for cfg envVars
    by (cases r) (auto simp: boot_lockdown_def split: option.split)
  then show ?thesis by (auto simp: boot_Run_def Let_def split: prod.split option.split sum.split)
qed

text \<open>
  C37. A boot that fails does not leave a server behind, with one exception: when the seccomp filter
  cannot be loaded, the server is already listening and is not closed.
\<close>

theorem boot_fails_closed:
  assumes "boot_Run v opts = Some (Some e, tr)" "Listening sc \<in> set tr"
  shows "e = LoadFilter"
proof -
  let ?cfg = "fold (\<lambda>o' c. o' c) opts boot_defaultConfig"
  have q: "list_all preparing (snd (boot_prepare v ?cfg))" by (rule preparing_boot)
  then have nl: "Listening sc \<notin> set (snd (boot_prepare v ?cfg))" by (auto simp: list_all_iff preparing_def)
  obtain envVars tr1 where p: "boot_lockdown v ?cfg envVars = Some (Some e, tr1)" "Listening sc \<in> set tr1"
    using assms nl by (auto simp: boot_Run_def Let_def emit_def split: prod.splits option.splits sum.splits)
  show ?thesis
    by (rule lockdown_effects [OF p(1)]) (use p(2) in \<open>auto simp: list_all_iff preparing_def\<close>)
qed

text \<open>A guest in which everything works, with two capabilities; \<open>f\<close> is whether the filter loads.\<close>

definition demo_guest :: "bool \<Rightarrow> guest_env" where
  "demo_guest f = \<lparr>ge_mkdir = (\<lambda>_. True), ge_mount = (\<lambda>_. CallDone), ge_remove = (\<lambda>_. True), ge_symlink = (\<lambda>_. CallDone),
     ge_virtiofs = (\<lambda>_. True), ge_chown = (\<lambda>_. True), ge_unmount = (\<lambda>_. True), ge_link = True, ge_addr = True, ge_setaddr = True,
     ge_linkup = True, ge_route = True, ge_write = (\<lambda>_. True), ge_chmod = (\<lambda>_. True),
     ge_read = (\<lambda>p. if p = ''/proc/sys/kernel/cap_last_cap'' then Some ''1'' else if p = ''/home/sandbox/.ssh/authorized_keys'' then Some ''k'' else None),
     ge_capdrop = (\<lambda>c. c < 64), ge_nnp = True, ge_parsekey = (\<lambda>_. Some demo_key), ge_hostkey = (\<lambda>_. None), ge_genkey = Some 1,
     ge_listen = (\<lambda>_. True), ge_loadfilter = (\<lambda>_. f), ge_sshd_built = True\<rparr>"

definition is_listening :: "guest_effect \<Rightarrow> bool" where
  "is_listening e = (case e of Listening _ \<Rightarrow> True | _ \<Rightarrow> False)"

lemma is_listeningE: "is_listening e \<Longrightarrow> \<exists>sc. e = Listening sc"
  by (cases e) (simp_all add: is_listening_def)

lemma demo_drop: "DropBoundingCaps (demo_guest f) guest_keep = Some (None, [CapDropped 0, CapDropped 1])"
proof -
  have "capLastCap (demo_guest f) = 1" by code_simp
  moreover have "ge_capdrop (demo_guest f) = (\<lambda>c. c < 64)" by (simp add: demo_guest_def)
  moreover have "\<not> (2 :: u64) \<le> 1" by (simp add: word_le_def)
  ultimately show ?thesis
    by (simp add: DropBoundingCaps_def drop_caps.simps guest_keep_def CapSetUID_def CapSetGID_def CapNetBindService_def)
qed

lemma demo_prepare: "fst (boot_prepare (demo_guest f) (WithSeccomp True boot_defaultConfig)) = None"
  by code_simp

lemma demo_env: "Load (ge_read (demo_guest f) ''/etc/sandbox-env'') = Inr []"
  by (simp add: demo_guest_def Load_def)

lemma demo_up:
  "\<exists>sc. bringUpSSH (demo_guest f) (WithSeccomp True boot_defaultConfig) [] = (None, [Listening sc])"
proof -
  have "ParseAuthorizedKeys (demo_guest f) ''/home/sandbox/.ssh/authorized_keys'' = Inr [demo_key]"
    by (simp add: ParseAuthorizedKeys_def demo_guest_def scan_lines_def newline_def max_token_def drop_cr_def List.map_filter_simps Let_def)
  then show ?thesis
    by (simp add: bringUpSSH_def bringUpSSH_enabled_def WithSeccomp_def boot_defaultConfig_def load_host_key_def NewServer_def sshd_config_def)
      (simp add: demo_guest_def)
qed

lemma demo_boot:
  "\<exists>tr. boot_Run (demo_guest f) [WithSeccomp True] = Some (if f then None else Some LoadFilter, tr) \<and> list_ex is_listening tr"
proof -
  let ?cfg = "WithSeccomp True boot_defaultConfig"
  obtain tr0 where p: "boot_prepare (demo_guest f) ?cfg = (None, tr0)" using demo_prepare by (metis prod.collapse)
  obtain sc where b: "bringUpSSH (demo_guest f) ?cfg [] = (None, [Listening sc])" using demo_up by blast
  have e: "bc_envFilePath ?cfg = ''/etc/sandbox-env''" "bc_seccomp ?cfg" "ge_nnp (demo_guest f)" "ge_loadfilter (demo_guest f) x \<longleftrightarrow> f" for x
    by (simp_all add: WithSeccomp_def boot_defaultConfig_def demo_guest_def)
  show ?thesis
    by (simp add: boot_Run_def Let_def p b e demo_drop demo_env boot_lockdown_def SetNoNewPrivs_def ApplySeccomp_def is_listening_def)
qed


theorem boot_returns_witness: "\<exists>r. boot_Run (demo_guest True) [WithSeccomp True] = Some r"
  using boot_returns [of "demo_guest True" "[WithSeccomp True]"] by (simp add: demo_guest_def)

theorem boot_fails_closed_witness:
  "\<exists>tr sc. boot_Run (demo_guest False) [WithSeccomp True] = Some (Some LoadFilter, tr) \<and> Listening sc \<in> set tr"
proof -
  obtain e tr where t: "boot_Run (demo_guest False) [WithSeccomp True] = Some (Some e, tr)" and "list_ex is_listening tr"
    using demo_boot [of False] by auto
  then obtain sc where l: "Listening sc \<in> set tr"
    using is_listeningE by (auto simp: list_ex_iff)
  show ?thesis using boot_fails_closed [OF t l] t l by blast
qed

subsection \<open>The home directory\<close>

datatype entry_kind = EFile | ELink | EDir

text \<open>Every entry of a tree with its path, in the order of the walk.\<close>

fun listing :: "string list \<Rightarrow> home_node \<Rightarrow> (string list \<times> entry_kind \<times> home_meta) list"
and listings :: "string list \<Rightarrow> (string \<times> home_node) list \<Rightarrow> (string list \<times> entry_kind \<times> home_meta) list" where
  "listing p (HomeFile m) = [(p, EFile, m)]"
| "listing p (HomeLink m) = [(p, ELink, m)]"
| "listing p (HomeDir m es) = (p, EDir, m) # listings p es"
| "listings p [] = []"
| "listings p ((n, t) # es) = listing (p @ [n]) t @ listings p es"

definition fix_listed ::
  "(string list \<Rightarrow> bool) \<Rightarrow> (string list \<Rightarrow> bool) \<Rightarrow> int \<times> int \<Rightarrow> string list \<times> entry_kind \<times> home_meta \<Rightarrow> string list \<times> entry_kind \<times> home_meta" where
  "fix_listed chown ssh ids = (\<lambda>(p, k, m).
     (p, k, if k = ELink then m
            else let m = (if chown p then m\<lparr>hm_owner := ids\<rparr> else m) in if ssh p then m\<lparr>hm_perm := sshPermission (k = EDir)\<rparr> else m))"

definition home_works :: "home_env \<Rightarrow> bool" where
  "home_works v \<longleftrightarrow> (\<forall>p. he_chown v p \<and> he_chmod v p \<and> he_readdir v p)"

lemma fix_meta_works [simp]:
  "home_works v \<Longrightarrow> fix_meta v ssh ids p d m = (if ssh p then m\<lparr>hm_owner := ids, hm_perm := sshPermission d\<rparr> else m\<lparr>hm_owner := ids\<rparr>)"
  by (simp add: fix_meta_def home_works_def Let_def)

lemma fix_node_listing:
  "home_works v \<Longrightarrow> fst (fix_node v ssh ids p t) \<and>
     listing p (snd (fix_node v ssh ids p t)) = map (fix_listed (\<lambda>_. True) ssh ids) (listing p t)"
  "home_works v \<Longrightarrow> fst (fix_nodes v ssh ids p es) \<and>
     listings p (snd (fix_nodes v ssh ids p es)) = map (fix_listed (\<lambda>_. True) ssh ids) (listings p es)"
proof (induction v ssh ids p t and v ssh ids p es rule: fix_node_fix_nodes.induct)
  case (3 v ssh ids p m es)
  then show ?case by (auto simp: fix_listed_def home_works_def split: prod.splits)
next
  case (5 v ssh ids p n t es)
  then show ?case by (auto split: prod.splits bool.splits)
qed (simp_all add: fix_listed_def)

text \<open>Names of directory entries: no separator, and no name twice.\<close>

fun names_ok :: "home_node \<Rightarrow> bool" and entries_ok :: "(string \<times> home_node) list \<Rightarrow> bool" where
  "names_ok (HomeFile m) = True"
| "names_ok (HomeLink m) = True"
| "names_ok (HomeDir m es) = (distinct (map fst es) \<and> entries_ok es)"
| "entries_ok [] = True"
| "entries_ok ((n, t) # es) = (sep \<notin> set n \<and> names_ok t \<and> entries_ok es)"

definition in_ssh :: "string list \<Rightarrow> bool" where
  "in_ssh p \<longleftrightarrow> p \<noteq> [] \<and> hd p = ''.ssh''"

lemma listing_paths:
  "names_ok t \<Longrightarrow> x \<in> set (listing p t) \<Longrightarrow> \<exists>q. fst x = p @ q \<and> (\<forall>n \<in> set q. sep \<notin> set n)"
  "entries_ok es \<Longrightarrow> x \<in> set (listings p es) \<Longrightarrow> \<exists>n q. n \<in> fst ` set es \<and> fst x = p @ n # q \<and> (\<forall>n \<in> set (n # q). sep \<notin> set n)"
proof (induction p t and p es rule: listing_listings.induct)
  case (3 p m es)
  show ?case
  proof (cases "x = (p, EDir, m)")
    case False
    then obtain n q where "fst x = p @ n # q" "\<forall>n \<in> set (n # q). sep \<notin> set n" using 3 by auto
    then show ?thesis by (intro exI [of _ "n # q"] conjI)
  qed simp
next
  case (5 p n t es)
  show ?case
  proof (cases "x \<in> set (listing (p @ [n]) t)")
    case True
    then obtain q where q: "fst x = (p @ [n]) @ q" "\<forall>n \<in> set q. sep \<notin> set n" using 5 by auto
    then show ?thesis using 5(3) by (intro exI [of _ n] exI [of _ q] conjI) simp_all
  next
    case False
    then obtain n' q where "n' \<in> fst ` set es" "fst x = p @ n' # q" "\<forall>n \<in> set (n' # q). sep \<notin> set n" using 5 by auto
    then show ?thesis by (intro exI [of _ n'] exI [of _ q] conjI) simp_all
  qed
qed simp_all

lemma HasPrefix_split: "HasPrefix s p \<Longrightarrow> s = p @ drop (length p) s"
  unfolding HasPrefix_def by (metis append_take_drop_id)

lemma before_sep: "a @ c # x = b @ c # y \<Longrightarrow> c \<notin> set a \<Longrightarrow> c \<notin> set b \<Longrightarrow> a = b"
  by (auto simp: append_eq_append_conv2 append_eq_Cons_conv Cons_eq_append_conv)

lemma isSSHPath_rel:
  assumes "\<forall>n \<in> set p. sep \<notin> set n"
  shows "isSSHPath (rel_path p) \<longleftrightarrow> in_ssh p"
proof (cases p rule: rel_path.cases)
  case 1
  then show ?thesis by (simp add: isSSHPath_def in_ssh_def HasPrefix_def)
next
  case (2 n)
  have "\<not> HasPrefix n ''.ssh/''"
  proof
    assume "HasPrefix n ''.ssh/''"
    then have "set ''.ssh/'' \<subseteq> set n" unfolding HasPrefix_def by (metis set_take_subset)
    then show False using assms 2 by simp
  qed
  then show ?thesis using 2 by (simp add: isSSHPath_def in_ssh_def)
next
  case (3 n m ns)
  have s: "sep \<notin> set n" using assms 3 by simp
  let ?r = "rel_path (m # ns)"
  have "HasPrefix (n @ sep # ?r) ''.ssh/'' \<longleftrightarrow> n = ''.ssh''"
  proof
    assume "HasPrefix (n @ sep # ?r) ''.ssh/''"
    then have "n @ sep # ?r = ''.ssh/'' @ drop 5 (n @ sep # ?r)" using HasPrefix_split by fastforce
    then have "n @ sep # ?r = ''.ssh'' @ sep # drop 5 (n @ sep # ?r)" by simp
    then show "n = ''.ssh''" by (rule before_sep) (use s in simp_all)
  qed (simp add: HasPrefix_def)
  moreover have "n @ sep # ?r \<noteq> ''.ssh''"
  proof
    assume "n @ sep # ?r = ''.ssh''"
    then have "set (n @ sep # ?r) = set ''.ssh''" by (rule arg_cong)
    then have "sep \<in> set ''.ssh''" by (metis in_set_conv_decomp)
    then show False by simp
  qed
  ultimately show ?thesis unfolding isSSHPath_def in_ssh_def 3 rel_path.simps by simp
qed

lemma fix_listed_cong:
  "(\<And>x. x \<in> set xs \<Longrightarrow> (c (fst x) \<longleftrightarrow> c' (fst x)) \<and> (ssh (fst x) \<longleftrightarrow> ssh' (fst x))) \<Longrightarrow>
   map (fix_listed c ssh ids) xs = map (fix_listed c' ssh' ids) xs"
  by (auto simp: fix_listed_def)

lemma fix_listed_id: "(\<And>x. x \<in> set xs \<Longrightarrow> \<not> c (fst x) \<and> \<not> ssh (fst x)) \<Longrightarrow> map (fix_listed c ssh ids) xs = xs"
  by (rule map_idI) (auto simp: fix_listed_def)

lemma fix_entry_listings:
  assumes "home_works v"
  shows "distinct (map fst es) \<Longrightarrow> entries_ok es \<Longrightarrow> listings [] (fix_entry v ids es) = map (fix_listed in_ssh in_ssh ids) (listings [] es)"
proof (induction es)
  case (Cons e es)
  obtain n t where e: "e = (n, t)" by (cases e)
  have paths: "\<exists>q. fst x = n # q" if "x \<in> set (listing [n] t)" for x
    using listing_paths(1) [of t x "[n]"] that Cons.prems e by auto
  show ?case
  proof (cases "n = ''.ssh''")
    case True
    have "in_ssh (fst x)" if "x \<in> set (listing [n] t)" for x using paths [OF that] True by (auto simp: in_ssh_def)
    then have "map (fix_listed (\<lambda>_. True) (\<lambda>_. True) ids) (listing [n] t) = map (fix_listed in_ssh in_ssh ids) (listing [n] t)"
      by (intro fix_listed_cong) blast
    then have "listing [n] (snd (fix_node v (\<lambda>_. True) ids [n] t)) = map (fix_listed in_ssh in_ssh ids) (listing [n] t)"
      using fix_node_listing(1) [OF assms, of "\<lambda>_. True" ids "[n]" t] by simp
    moreover have "map (fix_listed in_ssh in_ssh ids) (listings [] es) = listings [] es"
    proof (rule fix_listed_id)
      fix x
      assume "x \<in> set (listings [] es)"
      then obtain n' q where "n' \<in> fst ` set es" "fst x = n' # q" using listing_paths(2) [of es x "[]"] Cons.prems e by auto
      moreover have "''.ssh'' \<notin> fst ` set es" using Cons.prems(1) e True by simp
      ultimately have "fst x = n' # q" "n' \<noteq> ''.ssh''" by blast+
      then show "\<not> in_ssh (fst x) \<and> \<not> in_ssh (fst x)" by (simp add: in_ssh_def)
    qed
    ultimately show ?thesis using e True by simp
  next
    case False
    have "map (fix_listed in_ssh in_ssh ids) (listing [n] t) = listing [n] t"
    proof (rule fix_listed_id)
      fix x
      assume "x \<in> set (listing [n] t)"
      then obtain q where "fst x = n # q" using paths by blast
      then show "\<not> in_ssh (fst x) \<and> \<not> in_ssh (fst x)" using False by (simp add: in_ssh_def)
    qed
    then show ?thesis using e False Cons by simp
  qed
qed simp

text \<open>
  C38. The home directory belongs to the user, and the \<^verbatim>\<open>.ssh\<close> in it is private. After the fix,
  an entry that is not a symbolic link has the user as owner, except that nothing outside of
  \<^verbatim>\<open>.ssh\<close> is changed if the directory itself already belongs to the user; every entry of
  \<^verbatim>\<open>.ssh\<close> has mode 0700 or 0600; links, names and all other modes are as before.
\<close>

theorem fixHomeOwnership_correct:
  assumes "home_works v" "names_ok (HomeDir m es)"
  shows "\<exists>t'. fixHomeOwnership v ids (Some (HomeDir m es)) = Some t' \<and>
    listing [] t' = map (fix_listed (\<lambda>p. hm_owner m \<noteq> ids \<or> in_ssh p) in_ssh ids) (listing [] (HomeDir m es))"
proof (cases "hm_owner m = ids")
  case True
  have "fix_listed in_ssh in_ssh ids ([], EDir, m) = ([], EDir, m)" by (simp add: fix_listed_def in_ssh_def)
  then show ?thesis
    using True assms fix_entry_listings [OF assms(1), of es ids]
    by (simp add: fixHomeOwnership_def homeAlreadyOwned_def node_meta_def fixSSHPermissions_def)
next
  case False
  let ?t = "HomeDir m es" and ?ssh = "\<lambda>p. isSSHPath (rel_path p)"
  have "isSSHPath (rel_path (fst x)) \<longleftrightarrow> in_ssh (fst x)" if "x \<in> set (listing [] ?t)" for x
    using listing_paths(1) [OF assms(2) that] isSSHPath_rel [of "fst x"] by auto
  then have "map (fix_listed (\<lambda>_. True) ?ssh ids) (listing [] ?t) = map (fix_listed (\<lambda>p. hm_owner m \<noteq> ids \<or> in_ssh p) in_ssh ids) (listing [] ?t)"
    using False by (intro fix_listed_cong) blast
  then show ?thesis
    using False fix_node_listing(1) [OF assms(1), of ?ssh ids "[]" ?t]
    by (simp add: fixHomeOwnership_def homeAlreadyOwned_def node_meta_def fullRecursiveChown_def del: listing.simps fix_node.simps)
qed

definition demo_entries :: "(string \<times> home_node) list" where
  "demo_entries =
     [(''.ssh'', HomeDir \<lparr>hm_owner = (0, 0), hm_perm = 0x1ED\<rparr> [(''authorized_keys'', HomeFile \<lparr>hm_owner = (0, 0), hm_perm = 0x1A4\<rparr>)]),
      (''link'', HomeLink \<lparr>hm_owner = (0, 0), hm_perm = 0x1FF\<rparr>)]"

theorem fixHomeOwnership_correct_witness:
  "\<exists>t'. fixHomeOwnership \<lparr>he_chown = (\<lambda>_. True), he_chmod = (\<lambda>_. True), he_readdir = (\<lambda>_. True)\<rparr> (1000, 1000) (Some (HomeDir \<lparr>hm_owner = (0, 0), hm_perm = 0x1ED\<rparr> demo_entries)) = Some t' \<and>
     ([''.ssh'', ''authorized_keys''], EFile, \<lparr>hm_owner = (1000, 1000), hm_perm = 0x180\<rparr>) \<in> set (listing [] t') \<and>
     ([''link''], ELink, \<lparr>hm_owner = (0, 0), hm_perm = 0x1FF\<rparr>) \<in> set (listing [] t')"
proof -
  let ?v = "\<lparr>he_chown = (\<lambda>_. True), he_chmod = (\<lambda>_. True), he_readdir = (\<lambda>_. True)\<rparr>"
  have "home_works ?v" by (simp add: home_works_def)
  then show ?thesis
    using fixHomeOwnership_correct [of ?v "\<lparr>hm_owner = (0, 0), hm_perm = 0x1ED\<rparr>" demo_entries "(1000, 1000)"]
    by (auto simp: demo_entries_def fix_listed_def in_ssh_def sshPermission_def)
qed

subsection \<open>The seccomp filter\<close>

text \<open>
  What \<^verbatim>\<open>go-seccomp-bpf\<close> documents of a filter: a call that matches no group gets the default
  action, one that matches only groups of one action gets that action. A condition on bits
  holds if any of the bits is set.
\<close>

definition condition_holds :: "(nat \<Rightarrow> u64) \<Rightarrow> ArgumentCondition \<Rightarrow> bool" where
  "condition_holds args c =
     (case ac_Operation c of
        Equal \<Rightarrow> args (ac_Argument c) = ac_Value c
      | BitsSet \<Rightarrow> args (ac_Argument c) AND ac_Value c \<noteq> 0)"

definition group_matches :: "string \<Rightarrow> (nat \<Rightarrow> u64) \<Rightarrow> SyscallGroup \<Rightarrow> bool" where
  "group_matches name args g \<longleftrightarrow>
     name \<in> set (sg_Names g) \<or> list_ex (\<lambda>(n, cs). n = name \<and> list_all (condition_holds args) cs) (sg_NamesWithConditions g)"

definition secbpf_doc :: "(secbpf_Filter \<Rightarrow> string \<Rightarrow> (nat \<Rightarrow> u64) \<Rightarrow> secbpf_action) \<Rightarrow> bool" where
  "secbpf_doc decide \<longleftrightarrow>
     (\<forall>f name args. let as = map sg_Action (filter (group_matches name args) (sf_Syscalls f))
        in (as = [] \<longrightarrow> decide f name args = sf_DefaultAction f) \<and> (\<forall>a. as \<noteq> [] \<and> set as = {a} \<longrightarrow> decide f name args = a))"

definition namespace_clone :: "string \<Rightarrow> (nat \<Rightarrow> u64) \<Rightarrow> bool" where
  "namespace_clone name args \<longleftrightarrow> name = ''clone'' \<and> args 0 AND cloneNamespaceMask \<noteq> 0"

definition blocked_socket :: "string \<Rightarrow> (nat \<Rightarrow> u64) \<Rightarrow> bool" where
  "blocked_socket name args \<longleftrightarrow> name = ''socket'' \<and> args 0 \<in> set blocked_families"

lemma filter_groups:
  "filter (group_matches name args) blockedSyscalls =
     (if name \<in> set (sg_Names exploitIndicatorBlocks) then [exploitIndicatorBlocks] else []) @
     (if name \<in> set (sg_Names operationalBlocks) then [operationalBlocks] else []) @
     (if namespace_clone name args then [cloneNamespaceBlock] else []) @
     (if blocked_socket name args then [blockedSocketFamilies] else [])"
proof -
  have "group_matches name args exploitIndicatorBlocks \<longleftrightarrow> name \<in> set (sg_Names exploitIndicatorBlocks)"
    "group_matches name args operationalBlocks \<longleftrightarrow> name \<in> set (sg_Names operationalBlocks)"
    unfolding group_matches_def by (simp_all add: exploitIndicatorBlocks_def operationalBlocks_def)
  moreover have "group_matches name args cloneNamespaceBlock \<longleftrightarrow> namespace_clone name args"
    "group_matches name args blockedSocketFamilies \<longleftrightarrow> blocked_socket name args"
    unfolding group_matches_def namespace_clone_def blocked_socket_def
    by (auto simp: cloneNamespaceBlock_def blockedSocketFamilies_def condition_holds_def list_ex_iff)
  ultimately show ?thesis unfolding blockedSyscalls_def filter.simps by simp
qed

text \<open>
  The decision for every call: the indicators of an exploit kill, the other blocked calls, namespaces by
  \<^verbatim>\<open>clone\<close> and the blocked socket families fail, everything else is allowed. In particular the clock
  can still be set by \<^verbatim>\<open>clock_settime\<close>, which the synchronisation of the clock needs, and
  \<^verbatim>\<open>clone3\<close> passes with any flags.
\<close>

theorem seccomp_policy:
  assumes "secbpf_doc decide"
  shows "decide seccomp_filter name args =
    (if name \<in> set (sg_Names exploitIndicatorBlocks) then ActionKillProcess
     else if name \<in> set (sg_Names operationalBlocks) \<or> namespace_clone name args \<or> blocked_socket name args then ActionErrno
     else ActionAllow)"
proof -
  let ?as = "map sg_Action (filter (group_matches name args) blockedSyscalls)"
  have d: "?as = [] \<longrightarrow> decide seccomp_filter name args = ActionAllow" "\<forall>a. ?as \<noteq> [] \<and> set ?as = {a} \<longrightarrow> decide seccomp_filter name args = a"
    using assms unfolding secbpf_doc_def Let_def by (auto simp: seccomp_filter_def)
  have act: "sg_Action exploitIndicatorBlocks = ActionKillProcess" "sg_Action operationalBlocks = ActionErrno"
    "sg_Action cloneNamespaceBlock = ActionErrno" "sg_Action blockedSocketFamilies = ActionErrno"
    by (simp_all add: exploitIndicatorBlocks_def operationalBlocks_def cloneNamespaceBlock_def blockedSocketFamilies_def)
  have "list_all (\<lambda>n. n \<notin> set (''clone'' # ''socket'' # sg_Names operationalBlocks)) (sg_Names exploitIndicatorBlocks)" by code_simp
  then have dis: "name \<in> set (sg_Names exploitIndicatorBlocks) \<Longrightarrow>
      name \<notin> set (sg_Names operationalBlocks) \<and> \<not> namespace_clone name args \<and> \<not> blocked_socket name args"
    by (auto simp: list_all_iff namespace_clone_def blocked_socket_def)
  show ?thesis
    using d dis unfolding filter_groups by (auto simp: act split: if_splits)
qed

lemma seccomp_clock: "secbpf_doc decide \<Longrightarrow> decide seccomp_filter ''clock_settime'' args = ActionAllow \<and>
    decide seccomp_filter ''settimeofday'' args = ActionErrno \<and> decide seccomp_filter ''clone3'' args = ActionAllow"
  by (simp add: seccomp_policy exploitIndicatorBlocks_def operationalBlocks_def namespace_clone_def blocked_socket_def)

subsection \<open>The workspace\<close>

text \<open>
  The workspace is mounted as asked for, read-only included, within the retries and their pauses; when
  it fails, it is not mounted, unless it could not be unmounted after a failing change of owner.
\<close>

fun slept :: "guest_effect list \<Rightarrow> duration" where
  "slept [] = 0"
| "slept (e # es) = (case e of Slept d \<Rightarrow> d + slept es | _ \<Rightarrow> slept es)"

lemma workspace_result:
  "case workspace_loop v mp tag uid gid ro n i of (e, tr) \<Rightarrow>
     slept tr \<le> int n * (500 * millisecond) \<and>
     (\<forall>m. Mounted m \<in> set tr \<longrightarrow> m = workspace_entry mp tag ro) \<and>
     (e = None \<longleftrightarrow> Mounted (workspace_entry mp tag ro) \<in> set tr \<and> (ro \<or> Chowned mp uid gid \<in> set tr)) \<and>
     (e \<noteq> None \<and> Mounted (workspace_entry mp tag ro) \<in> set tr \<and> ge_unmount v mp \<longrightarrow> last tr = Unmounted mp)"
proof (induction n arbitrary: i)
  case (Suc n)
  show ?case
  proof (cases "ge_virtiofs v i")
    case True
    then show ?thesis by (simp add: millisecond_def)
  next
    case False
    obtain e tr where r: "workspace_loop v mp tag uid gid ro n (Suc i) = (e, tr)" by (metis surj_pair)
    have "last (Slept d # tr) = last tr" if "Mounted m \<in> set tr" for d m using that by (cases tr) simp_all
    then show ?thesis using Suc [of "Suc i"] False r by (simp add: distrib_right)
  qed
qed simp

lemma workspace_readonly: "me_flags (workspace_entry mp tag ro) AND MS_RDONLY \<noteq> 0 \<longleftrightarrow> ro"
  by (simp add: workspace_entry_def MS_RDONLY_def MS_NOSUID_def MS_NODEV_def)

text \<open>A filter that takes the first matching group is as documented.\<close>

definition first_match :: "secbpf_Filter \<Rightarrow> string \<Rightarrow> (nat \<Rightarrow> u64) \<Rightarrow> secbpf_action" where
  "first_match f name args =
     (case filter (group_matches name args) (sf_Syscalls f) of [] \<Rightarrow> sf_DefaultAction f | g # _ \<Rightarrow> sg_Action g)"

lemma first_match_doc: "secbpf_doc first_match"
  unfolding secbpf_doc_def first_match_def Let_def set_map by (auto split: list.split simp del: set_filter)

lemma first_match_kills: "first_match seccomp_filter ''ptrace'' args = ActionKillProcess"
  by (subst seccomp_policy [OF first_match_doc]) (simp add: exploitIndicatorBlocks_def)

end
