(* ===== verification/Spec2Isabelle.thy ===== *)
theory Spec2Isabelle
  imports Relay Pull Hooks Lifecycle TimeSync Disk Bundle Guest
begin

text \<open>
  \<^bold>\<open>go-microvm\<close> runs OCI images as micro virtual machines. This development models the Go
  sources under \<^verbatim>\<open>src/\<close> and proves what makes them correct: the isolation of the
  guest's network, the confinement of images to their directories, the caches, the state file, the
  processes, and the sequence of a run from the configuration to the calls of libkrun.

  \<^bold>\<open>The program.\<close> \<^verbatim>\<open>Run\<close> (\<^verbatim>\<open>microvm.go\<close>) checks the host, cleans up
  after an earlier run, obtains a root file system (pulled from a registry through
  \<^verbatim>\<open>image\<close>, or given), lets hooks write to a private clone of it
  (\<^verbatim>\<open>hooks\<close>, \<^verbatim>\<open>rootfs\<close>), starts a network provider
  (\<^verbatim>\<open>net/hosted\<close>), and starts a helper process that configures libkrun
  (\<^verbatim>\<open>hypervisor\<close>, \<^verbatim>\<open>runner\<close>, \<^verbatim>\<open>krun\<close>). The provider relays
  every Ethernet frame of the guest through a stateful filter (\<^verbatim>\<open>net/firewall\<close>) and a
  DNS-based egress policy (\<^verbatim>\<open>net/egress\<close>). The state of a machine is a locked file
  (\<^verbatim>\<open>state\<close>). In the guest, an init process mounts, configures, hardens and serves
  SSH (\<^verbatim>\<open>guest\<close>).

  \<^bold>\<open>Conventions.\<close> A Go struct is a record, an enumeration a datatype, a w-bit integer a
  word where its width matters, a string a list of bytes. A result \<^verbatim>\<open>(T, error)\<close> is a
  sum with the error on the left; an expression that may panic is in the monad \<open>'a go\<close>, whose
  \<open>None\<close> is the panic. Time is a number of nanoseconds that each operation takes as an
  argument where the source reads a clock. What third-party packages and the kernel answer is
  an argument (a function, or a record of outcomes); what the sources rely on is a named
  predicate such as \<open>trylock_doc\<close> or \<open>date_doc\<close>, instantiated in the witness of each
  theorem that assumes it. The Go standard library is modelled as far as it is used.

  \<^bold>\<open>The theories.\<close>

  \<^item> \<open>Prelude\<close>: integers, panics, checked slices, big-endian accessors, durations, with
    their simplification rules. \<open>GoStrings\<close>: \<^verbatim>\<open>strings\<close> and \<^verbatim>\<open>strconv\<close>.
    \<open>GoPath\<close>: \<^verbatim>\<open>path/filepath\<close> and \<^verbatim>\<open>internal/pathutil\<close>; absolute clean
    paths are lists of names, and \<open>Contains\<close> is the prefix order on them. \<open>Files\<close>: a Unix
    file system with inodes, symbolic and hard links.

  \<^item> \<open>Packet\<close>: \<^verbatim>\<open>net/firewall/packet.go\<close>, \<^verbatim>\<open>net/egress/frame.go\<close>. The parsers never
    panic; the response frame is parsed back to what it was built from.

  \<^item> \<open>Firewall\<close>: rules, connection tracking, dynamic rules and the verdict. Both tables
    satisfy the locales \<open>expiring_store\<close> and \<open>flow_table\<close>; from those follow the safety of
    the verdict over every history of operations and the refinement of the bounded table.

  \<^item> \<open>Egress\<close>: the host policy, DNS messages and the interceptor. Only addresses answered for
    allowed names are opened, for at most the lifetime the code bounds.

  \<^item> \<open>Relay\<close>: the forwarding loop over the byte stream and the interleaving of its goroutines;
    the locale \<open>dns_hook\<close> is interpreted on the interceptor. The forwarder refines a list
    function on frames, always returns, and writes only whole frames.

  \<^item> \<open>Extract\<close>, \<open>Confine\<close>, \<open>Budget\<close>, \<open>Layers\<close>: tar extraction with its checks, the invariant
    that separates the inodes inside and outside of the destination, the size limits (locale
    \<open>meter\<close>), and layers with whiteouts.

  \<^item> \<open>Cache\<close>, \<open>Pull\<close>: the image and layer caches, their garbage collection, and pulling
    (locale \<open>content_cache\<close>). \<open>Disk\<close>: download and extraction of disk images.
    \<open>Bundle\<close>: the extraction of the runtime files and its manifest.

  \<^item> \<open>Hooks\<close>: injected files and the environment file, with the guest's reader of it.
    \<open>Clone\<close>: the private copy of a root file system and the configuration file in it.

  \<^item> \<open>StateStore\<close>: the state file, as functions and as a step relation on processes that may
    crash at any moment. \<open>Process\<close>: finding, watching and stopping the runner.

  \<^item> \<open>Provider\<close>: start and stop of the hosted network, and the relay it builds.
    \<open>Options\<close>, \<open>Runner\<close>, \<open>Lifecycle\<close>: the configuration, its way through JSON to the calls
    of libkrun, and \<^verbatim>\<open>Run\<close>, \<^verbatim>\<open>Stop\<close>, \<^verbatim>\<open>Status\<close> and \<^verbatim>\<open>Remove\<close> as
    traces of effects. \<open>TimeSync\<close>: the clock of the guest, host and guest side composed.

  \<^item> \<open>Sshd\<close>: the SSH server of the guest (\<^verbatim>\<open>guest/sshd\<close>) and the reaper
    (\<^verbatim>\<open>guest/reaper\<close>), whose interleaving with the sessions is a step relation. \<open>Guest\<close>:
    mounts, network, hardening, home directory and the boot sequence as lists of effects
    (\<^verbatim>\<open>guest/mount\<close>, \<^verbatim>\<open>netcfg\<close>, \<^verbatim>\<open>harden\<close>, \<^verbatim>\<open>boot\<close>,
    \<^verbatim>\<open>vmconfig\<close>). A guest that has booted is hardened before it listens; a session runs as the
    configured user in the configured environment.

  \<^bold>\<open>What is proved.\<close> For each group: an invariant and its preservation by every operation; the
  behaviour of each operation on every branch that matters, errors included; and the
  composition. Safety of the network runs from one frame (\<open>Verdict\<close>) over the interleaved
  relay to the provider and to \<open>Run\<close>. Confinement runs from path resolution over each
  system call to extraction, layers, hooks and disk images. Where the code does not
  keep what it promises, the theorem states what it does: hard links and absolute links in
  images, a Deny default without rules, the network left running after a late error, the size
  limit of decompression, the server left listening when the seccomp filter fails, exit statuses
  taken by the reaper, and others that the lemmas name.

  \<^bold>\<open>Bounds and termination.\<close> Recursion is structural or has a termination proof. Fuel
  occurs where the source may loop: path resolution counts links as Linux does (40, then an
  error); the loop over capabilities is a partial function, with a proof that it returns; polling
  loops end by their deadline, and the liveness theorems show that they do; retries
  of a download are bounded by the number of attempts that the elapsed time admits, which is an
  argument. The limits of the sources (30 GiB, one million entries, table sizes, lifetimes)
  are constants of the model with their values.

  \<^bold>\<open>Not modelled.\<close> The SSH client and key generation (\<^verbatim>\<open>ssh\<close>), which are calls of a
  cryptographic library; the single checks of \<^verbatim>\<open>preflight\<close>, which query the host and in part
  compute in floating point (the checker is modelled); the walk of
  \<^verbatim>\<open>internal/xattr/walk.go\<close>, an outcome in \<^verbatim>\<open>Run\<close>; the copying of bytes between
  SSH channels, terminals and sockets; bindings of libkrun that no component calls; the variants for
  macOS; logging, tracing, the version string and test support. Log messages and error texts are
  left out everywhere; an error is told by its place in the code.
\<close>

end
